(* ===== verification/Felix_Prelude.thy ===== *)
theory Felix_Prelude
  imports Main "HOL-Library.Word" "HOL-Library.Monad_Syntax"
begin

text \<open>
  Shared material of the development: names for the fixed width integers of
  \<^verbatim>\<open>common/types.hpp\<close>, the failure monad that stands for \<^verbatim>\<open>ASSERT\<close>,
  \<^verbatim>\<open>ERROR\<close> and \<^verbatim>\<open>UNREACHABLE\<close> (the process stops: the value is \<open>None\<close>),
  page arithmetic, and the word lemmas that more than one component needs.
\<close>

unbundle bit_operations_syntax

section \<open>Types\<close>

type_synonym u8 = "8 word"
type_synonym u16 = "16 word"
type_synonym u32 = "32 word"
type_synonym u64 = "64 word"

section \<open>Collections of rewrite rules\<close>

named_theorems unat_defs
  \<open>how the word operations of the code read as natural numbers\<close>

named_theorems code_defs
  \<open>definitions that symbolic execution unfolds\<close>

section \<open>Stopping the process\<close>

definition ASSERT :: "bool \<Rightarrow> unit option" where
  "ASSERT b = (if b then Some () else None)"

lemma ASSERT_simps [simp]:
  "ASSERT True = Some ()"
  "ASSERT False = None"
  by (simp_all add: ASSERT_def)

lemma bind_ASSERT [simp]:
  "(ASSERT b \<bind> f = Some r) \<longleftrightarrow> b \<and> f () = Some r"
  by (cases b) simp_all

section \<open>Words as numbers\<close>

lemma unat_u32_less [simp]: "unat (x :: u32) < 4294967296"
  using unsigned_less [of x, where ?'a = nat] by simp

lemma unat_u64_less [simp]: "unat (x :: u64) < 18446744073709551616"
  using unsigned_less [of x, where ?'a = nat] by simp

lemma unat_ucast_u32_u64 [simp]: "unat (ucast (x :: u32) :: u64) = unat x"
  by (simp add: unsigned_ucast_eq take_bit_nat_eq_self_iff order.strict_trans [OF unat_u32_less])

lemma unat_ucast_u64_u32: "unat (ucast (x :: u64) :: u32) = unat x mod 4294967296"
  by (simp add: unsigned_ucast_eq take_bit_eq_mod)

lemma ucast_u64_u32_u64: "unat (x :: u64) < 4294967296 \<Longrightarrow> ucast (ucast x :: u32) = x"
  by (rule word_unat_eq_iff [THEN iffD2]) (simp add: unat_ucast_u64_u32)

lemma unat_eq_u32: "(a :: u32) = b \<longleftrightarrow> unat a = unat b"
  by (rule word_unat_eq_iff)

lemma unat_eq_u64: "(a :: u64) = b \<longleftrightarrow> unat a = unat b"
  by (rule word_unat_eq_iff)

lemma unat_plus_small:
  fixes a b :: "'a::len word"
  assumes "unat a + unat b < 2 ^ LENGTH('a)"
  shows "unat (a + b) = unat a + unat b"
  using assms by (simp add: unat_word_ariths)

lemma unat_minus_small:
  fixes a b :: "'a::len word"
  assumes "unat b \<le> unat a"
  shows "unat (a - b) = unat a - unat b"
  using assms by (simp add: unat_sub word_le_nat_alt)

section \<open>Pages\<close>

definition page_aligned :: "nat \<Rightarrow> bool" where
  "page_aligned n \<longleftrightarrow> n mod 4096 = 0"

lemma page_mask_u32: "(x :: u32) AND 0xFFF = 0 \<longleftrightarrow> page_aligned (unat x)"
proof -
  have "x AND 0xFFF = take_bit 12 x"
    by (simp add: take_bit_eq_mask mask_eq_exp_minus_1)
  then have "unat (x AND 0xFFF) = unat x mod 4096"
    by (simp add: take_bit_eq_mod unat_mod_distrib)
  then show ?thesis
    by (metis page_aligned_def unat_0_iff)
qed

lemma page_mask_u64: "(x :: u64) AND 0xFFF = 0 \<longleftrightarrow> page_aligned (unat x)"
proof -
  have "x AND 0xFFF = take_bit 12 x"
    by (simp add: take_bit_eq_mask mask_eq_exp_minus_1)
  then have "unat (x AND 0xFFF) = unat x mod 4096"
    by (simp add: take_bit_eq_mod unat_mod_distrib)
  then show ?thesis
    by (metis page_aligned_def unat_0_iff)
qed

lemma page_aligned_add [intro]:
  "page_aligned a \<Longrightarrow> page_aligned b \<Longrightarrow> page_aligned (a + b)"
  by (simp add: page_aligned_def mod_add_eq [symmetric])

lemma and_not_mask_eq:
  fixes x :: "'a::len word"
  shows "x AND NOT (mask n) = push_bit n (drop_bit n x)"
  by (rule bit_word_eqI) (auto simp: bit_simps)

text \<open>The simplifier writes the mask \<open>NOT 0xFFF\<close> as \<open>- 4096\<close>.\<close>

lemma and_page_mask: "(x :: u64) AND - 4096 = push_bit 12 (drop_bit 12 x)"
  using and_not_mask_eq [of x 12] minus_exp_eq_not_mask [of 12, where ?'a = u64] by simp

lemma unat_page_floor: "unat ((x :: u64) AND - 4096) = unat x div 4096 * 4096"
proof -
  have "unat x div 4096 * 4096 < 18446744073709551616"
    using unat_u64_less [of x] div_times_less_eq_dividend [of "unat x" 4096] by linarith
  then show ?thesis
    by (simp add: and_page_mask push_bit_eq_mult drop_bit_eq_div unat_word_ariths unat_div_distrib)
qed

lemma sint_u32_nonneg [simp]: "0 \<le> sint (ucast (a :: u32) :: u64)"
proof -
  have small: "uint a < 4294967296" using uint_lt2p [of a] by simp
  then have "uint (ucast a :: u64) = uint a"
    by (simp add: unsigned_ucast_eq take_bit_int_eq_self_iff)
  moreover have "signed_take_bit 63 (uint a) = uint a"
    using small by (intro signed_take_bit_int_eq_self) (auto intro: order_trans [of _ 0])
  ultimately show ?thesis by (simp add: sint_uint)
qed

lemma sint_u32_not_neg [simp]: "\<not> sint (ucast (a :: u32) :: u64) < 0"
  by (simp add: not_less)

end
