(* ===== verification/Freelist.thy ===== *)
theory Freelist
  imports Felix_Prelude
begin

text \<open>
  The allocator of the guest's 32-bit address space (\<^verbatim>\<open>common/freelist.hpp\<close>,
  \<^verbatim>\<open>common/freelist.cpp\<close>). The linked list of free nodes is a list of records in
  list order; a node is the inclusive address range \<open>start..end\<close>. Each method takes
  the list and returns the new one; \<open>None\<close> stands for a failed \<^verbatim>\<open>ASSERT\<close>.
  The abstract view of a list is the set of free addresses.
\<close>

section \<open>The data structure\<close>

record node =
  nd_start :: u32
  nd_end :: u32

type_synonym freelist = "node list"

definition ENOMEM :: u64 where
  "ENOMEM = 12"

definition Freelist_init :: "u64 \<Rightarrow> freelist" where
  "Freelist_init mmap_min_addr = [\<lparr>nd_start = ucast mmap_min_addr, nd_end = 0xFFFFFFFF\<rparr>]"

fun getRegions :: "freelist \<Rightarrow> (u32 \<times> u32) list" where
  "getRegions [] = []"
| "getRegions (n # ns) = (nd_start n, nd_end n) # getRegions ns"

section \<open>Operations\<close>

text \<open>
  The scan of \<^verbatim>\<open>Freelist::allocate\<close> for a given address: the first node that holds
  the whole range is removed, shortened or split. \<open>None\<close>: no node holds the range.
\<close>

fun allocate_scan :: "u32 \<Rightarrow> u64 \<Rightarrow> freelist \<Rightarrow> freelist option" where
  "allocate_scan addr end_addr [] = None"
| "allocate_scan addr end_addr (n # ns) =
     (if addr = nd_start n \<and> end_addr = ucast (nd_end n) then Some ns
      else if addr > nd_start n \<and> end_addr = ucast (nd_end n) then
        Some (n\<lparr>nd_end := addr - 1\<rparr> # ns)
      else if addr = nd_start n \<and> end_addr < ucast (nd_end n) then
        Some (n\<lparr>nd_start := ucast (end_addr + 1)\<rparr> # ns)
      else if addr > nd_start n \<and> end_addr < ucast (nd_end n) then
        Some (n\<lparr>nd_end := addr - 1\<rparr>
              # \<lparr>nd_start = ucast (end_addr + 1), nd_end = nd_end n\<rparr> # ns)
      else map_option (Cons n) (allocate_scan addr end_addr ns))"

definition allocate_at :: "u32 \<Rightarrow> u64 \<Rightarrow> freelist \<Rightarrow> (u64 \<times> freelist) option" where
  "allocate_at addr sz l = do {
     ASSERT (sz AND 0xFFF = 0);
     ASSERT (addr AND 0xFFF = 0);
     let end_addr = ucast addr + sz - 1;
     ASSERT (end_addr \<le> 0xFFFFFFFF);
     Some (case allocate_scan addr end_addr l of
             None \<Rightarrow> (- ENOMEM, l)
           | Some l' \<Rightarrow> (ucast addr, l'))
   }"

text \<open>The search for a node when no address is given, with the best node so far.\<close>

fun find_best :: "u64 \<Rightarrow> freelist \<Rightarrow> node option \<Rightarrow> u32 \<Rightarrow> node option" where
  "find_best sz [] best best_size = best"
| "find_best sz (n # ns) best best_size =
     (let end' = nd_end n + 1; cur_size = end' - nd_start n in
      if ucast cur_size \<ge> sz \<and> (best = None \<or> best_size < cur_size)
      then find_best sz ns (Some n) cur_size
      else find_best sz ns best best_size)"

text \<open>
  \<^verbatim>\<open>Freelist::allocate\<close>. With no address it calls itself on the start of the chosen
  node; a node that starts at address 0 would make that call recur for ever, which is
  \<open>None\<close> here.
\<close>

definition allocate :: "u32 \<Rightarrow> u64 \<Rightarrow> freelist \<Rightarrow> (u64 \<times> freelist) option" where
  "allocate addr sz l =
     (if addr \<noteq> 0 then allocate_at addr sz l
      else do {
        ASSERT (sz AND 0xFFF = 0);
        case find_best sz l None 0xFFFFFFFF of
          None \<Rightarrow> Some (- ENOMEM, l)
        | Some n \<Rightarrow> if nd_start n = 0 then None else allocate_at (nd_start n) sz l
      })"

text \<open>
  \<^verbatim>\<open>Freelist::consolidate\<close>: one walk of the inner loop merges the first pair of
  neighbours that touch or overlap (\<open>Some\<close>: something changed); the outer loop walks
  until nothing changes. \<open>nd_end c + 1\<close> is computed in 32 bits, as in the code.
\<close>

definition mergeable :: "node \<Rightarrow> node \<Rightarrow> bool" where
  "mergeable c n \<longleftrightarrow> nd_end c + 1 \<ge> nd_start n"

definition merge_nodes :: "node \<Rightarrow> node \<Rightarrow> node" where
  "merge_nodes c n = c\<lparr>nd_end := max (nd_end c) (nd_end n)\<rparr>"

fun consolidate_pass :: "freelist \<Rightarrow> freelist option" where
  "consolidate_pass (c # n # ns) =
     (if mergeable c n then Some (merge_nodes c n # ns)
      else map_option (Cons c) (consolidate_pass (n # ns)))"
| "consolidate_pass l = None"

lemma consolidate_pass_shorter:
  "consolidate_pass l = Some l' \<Longrightarrow> length l' < length l"
  by (induction l arbitrary: l' rule: consolidate_pass.induct) (auto split: if_splits)

function consolidate :: "freelist \<Rightarrow> freelist" where
  "consolidate l = (case consolidate_pass l of None \<Rightarrow> l | Some l' \<Rightarrow> consolidate l')"
  by pat_completeness auto
termination
  by (relation "measure length") (auto dest: consolidate_pass_shorter)

declare consolidate.simps [simp del]

text \<open>
  The loop of \<^verbatim>\<open>Freelist::deallocate\<close>. It returns early (\<open>None\<close>) at a node that
  already holds the range; otherwise it puts a new node in front of every node that
  starts at or after the range, and goes on to the next one.
\<close>

fun deallocate_scan :: "node \<Rightarrow> freelist \<Rightarrow> freelist option" where
  "deallocate_scan N [] = Some []"
| "deallocate_scan N (n # ns) =
     (if nd_start N \<ge> nd_start n \<and> nd_end N \<le> nd_end n then None
      else map_option (\<lambda>r. if nd_start n \<ge> nd_start N then N # n # r else n # r)
             (deallocate_scan N ns))"

definition deallocate :: "u32 \<Rightarrow> u64 \<Rightarrow> freelist \<Rightarrow> freelist option" where
  "deallocate addr sz l = do {
     ASSERT (addr AND 0xFFF = 0);
     ASSERT (sz AND 0xFFF = 0);
     ASSERT (ucast addr + sz \<le> 0x100000000);
     let N = \<lparr>nd_start = addr, nd_end = ucast (ucast addr + sz - 1 :: u64)\<rparr>;
     Some (case deallocate_scan N l of None \<Rightarrow> l | Some l' \<Rightarrow> consolidate l')
   }"

section \<open>The set of free addresses and the invariant\<close>

definition node_set :: "node \<Rightarrow> nat set" where
  "node_set n = {unat (nd_start n)..unat (nd_end n)}"

definition free_set :: "freelist \<Rightarrow> nat set" where
  "free_set l = (\<Union>n\<in>set l. node_set n)"

definition node_ok :: "node \<Rightarrow> bool" where
  "node_ok n \<longleftrightarrow> unat (nd_start n) \<le> unat (nd_end n)
     \<and> page_aligned (unat (nd_start n)) \<and> page_aligned (unat (nd_end n) + 1)"

definition gap :: "node \<Rightarrow> node \<Rightarrow> bool" where
  "gap a b \<longleftrightarrow> unat (nd_end a) + 1 < unat (nd_start b)"

text \<open>
  Well-formed lists: whole pages, in ascending order, with a gap between neighbours.
  The gap makes a free range lie in one node, which the allocation scan relies on.
\<close>

definition wf_free :: "freelist \<Rightarrow> bool" where
  "wf_free l \<longleftrightarrow> (\<forall>n\<in>set l. node_ok n) \<and> sorted_wrt gap l"

lemma free_set_simps [simp]:
  "free_set [] = {}"
  "free_set (n # ns) = node_set n \<union> free_set ns"
  by (simp_all add: free_set_def)

lemma free_set_append [simp]: "free_set (xs @ ys) = free_set xs \<union> free_set ys"
  by (simp add: free_set_def)

lemma wf_free_Nil [simp]: "wf_free []"
  by (simp add: wf_free_def)

lemma wf_free_Cons:
  "wf_free (n # ns) \<longleftrightarrow> node_ok n \<and> (\<forall>m\<in>set ns. gap n m) \<and> wf_free ns"
  by (auto simp: wf_free_def)

lemma wf_free_append:
  "wf_free (xs @ ys) \<longleftrightarrow> wf_free xs \<and> wf_free ys \<and> (\<forall>a\<in>set xs. \<forall>b\<in>set ys. gap a b)"
  by (auto simp: wf_free_def sorted_wrt_append)

lemma node_ok_start_in: "node_ok n \<Longrightarrow> unat (nd_start n) \<in> node_set n"
  by (simp add: node_ok_def node_set_def)

lemma start_in_free_set: "wf_free l \<Longrightarrow> n \<in> set l \<Longrightarrow> unat (nd_start n) \<in> free_set l"
  by (auto simp: wf_free_def free_set_def intro: node_ok_start_in)

text \<open>
  If all of \<open>l\<close> lies beyond a gap after \<open>n\<close>, so does any well-formed list that covers
  no new address.
\<close>

lemma gap_subset:
  assumes "\<forall>m\<in>set l. gap n m" and "free_set l' \<subseteq> free_set l" and "wf_free l'"
  shows "\<forall>m\<in>set l'. gap n m"
proof
  fix m assume "m \<in> set l'"
  with assms(2,3) have "unat (nd_start m) \<in> free_set l"
    by (blast intro: start_in_free_set)
  then obtain k where "k \<in> set l" "unat (nd_start k) \<le> unat (nd_start m)"
    by (auto simp: free_set_def node_set_def)
  with assms(1) show "gap n m"
    by (fastforce simp: gap_def)
qed

lemma gap_disjoint:
  "gap a b \<Longrightarrow> node_set a \<inter> node_set b = {}"
  by (auto simp: gap_def node_set_def)

text \<open>The gaps keep every free range inside one node.\<close>

lemma range_in_node:
  assumes "wf_free l" and "{A..E} \<subseteq> free_set l" and "A \<le> E"
  shows "\<exists>m\<in>set l. unat (nd_start m) \<le> A \<and> E \<le> unat (nd_end m)"
proof -
  from assms(2,3) have "A \<in> free_set l" by auto
  then obtain m where m: "m \<in> set l" "unat (nd_start m) \<le> A" "A \<le> unat (nd_end m)"
    by (auto simp: free_set_def node_set_def)
  have "E \<le> unat (nd_end m)"
  proof (rule ccontr)
    assume "\<not> E \<le> unat (nd_end m)"
    with m assms(2) have "unat (nd_end m) + 1 \<in> free_set l" by auto
    then obtain k where k: "k \<in> set l" "unat (nd_start k) \<le> unat (nd_end m) + 1"
        "unat (nd_end m) + 1 \<le> unat (nd_end k)"
      by (auto simp: free_set_def node_set_def)
    then have "k \<noteq> m" by auto
    from split_list [OF m(1)] obtain xs ys where l: "l = xs @ m # ys" by blast
    with assms(1) k(1) \<open>k \<noteq> m\<close> have "gap k m \<or> gap m k"
      by (auto simp: wf_free_append wf_free_Cons)
    with k m show False by (auto simp: gap_def)
  qed
  with m show ?thesis by blast
qed

section \<open>Allocation\<close>

lemma unat_pred_u32: "unat (x :: u32) \<noteq> 0 \<Longrightarrow> unat (x - 1) = unat x - 1"
  by (rule unat_minus_one) (auto simp: unat_0_iff)

lemma unat_ucast_Suc:
  assumes "unat (e :: u64) + 1 < 4294967296"
  shows "unat (ucast (e + 1) :: u32) = unat e + 1"
proof -
  have "unat (e + 1) = unat e + 1"
    using assms by (subst unat_plus_small) simp_all
  with assms show ?thesis by (simp add: unat_ucast_u64_u32)
qed

lemmas word_order_nat = word_less_nat_alt word_le_nat_alt

lemma allocate_scan_None:
  assumes "allocate_scan addr e l = None" and "m \<in> set l"
  shows "\<not> (unat (nd_start m) \<le> unat addr \<and> unat e \<le> unat (nd_end m))"
  using assms
proof (induction l)
  case Nil
  then show ?case by simp
next
  case (Cons n ns)
  from Cons.prems(1)
  have head: "\<not> (unat (nd_start n) \<le> unat addr \<and> unat e \<le> unat (nd_end n))"
    and tail: "allocate_scan addr e ns = None"
    by (auto simp: word_order_nat unat_eq_u32 unat_eq_u64 split: if_splits)
  from Cons.IH [OF tail] head Cons.prems(2) show ?case by auto
qed

lemma allocate_scan_head:
  assumes "node_ok n" and "unat (nd_start n) \<le> unat addr" and "unat addr \<le> unat e"
    and "unat e \<le> unat (nd_end n)"
    and "page_aligned (unat addr)" and "page_aligned (unat e + 1)"
  shows "\<exists>ms. allocate_scan addr e (n # ns) = Some (ms @ ns) \<and> wf_free ms
           \<and> free_set ms = node_set n - {unat addr..unat e}"
proof -
  let ?A = "unat addr" and ?E = "unat e" and ?S = "unat (nd_start n)" and ?D = "unat (nd_end n)"
  have D: "?D < 4294967296" by simp
  have lo: "?A > ?S \<Longrightarrow> unat (addr - 1) = ?A - 1"
    by (rule unat_pred_u32) simp
  have hi: "?E < ?D \<Longrightarrow> unat (ucast (e + 1) :: u32) = ?E + 1"
    using D by (intro unat_ucast_Suc) linarith
  have eqs: "addr = nd_start n \<longleftrightarrow> ?A = ?S" "e = ucast (nd_end n) \<longleftrightarrow> ?E = ?D"
      "addr > nd_start n \<longleftrightarrow> ?A > ?S" "e < ucast (nd_end n) \<longleftrightarrow> ?E < ?D"
    by (simp_all add: word_order_nat unat_eq_u32 unat_eq_u64)
  consider (all) "?A = ?S" "?E = ?D" | (upper) "?A > ?S" "?E = ?D"
    | (lower) "?A = ?S" "?E < ?D" | (mid) "?A > ?S" "?E < ?D"
    using assms by linarith
  then show ?thesis
  proof cases
    case all
    then show ?thesis
      by (intro exI [of _ "[]"]) (simp add: eqs node_set_def)
  next
    case upper
    with assms lo show ?thesis
      by (intro exI [of _ "[n\<lparr>nd_end := addr - 1\<rparr>]"])
        (auto simp: eqs node_set_def wf_free_Cons node_ok_def)
  next
    case lower
    with assms hi show ?thesis
      by (intro exI [of _ "[n\<lparr>nd_start := ucast (e + 1)\<rparr>]"])
        (auto simp: eqs node_set_def wf_free_Cons node_ok_def)
  next
    case mid
    with assms lo hi show ?thesis
      by (intro exI [of _ "[n\<lparr>nd_end := addr - 1\<rparr>,
            \<lparr>nd_start = ucast (e + 1), nd_end = nd_end n\<rparr>]"])
        (auto simp: eqs node_set_def wf_free_Cons node_ok_def gap_def)
  qed
qed

lemma allocate_scan_Some:
  assumes "wf_free l" and "allocate_scan addr e l = Some l'" and "unat addr \<le> unat e"
    and "page_aligned (unat addr)" and "page_aligned (unat e + 1)"
  shows "wf_free l' \<and> {unat addr..unat e} \<subseteq> free_set l
         \<and> free_set l' = free_set l - {unat addr..unat e}"
  using assms(1,2)
proof (induction l arbitrary: l')
  case Nil
  then show ?case by simp
next
  case (Cons n ns)
  let ?R = "{unat addr..unat e}"
  from Cons.prems(1) have n: "node_ok n" and gaps: "\<forall>m\<in>set ns. gap n m" and ns: "wf_free ns"
    by (simp_all add: wf_free_Cons)
  have apart: "node_set n \<inter> free_set ns = {}"
    using gaps gap_disjoint by (fastforce simp: free_set_def)
  show ?case
  proof (cases "unat (nd_start n) \<le> unat addr \<and> unat e \<le> unat (nd_end n)")
    case True
    then obtain ms where ms: "allocate_scan addr e (n # ns) = Some (ms @ ns)" "wf_free ms"
        "free_set ms = node_set n - ?R"
      using allocate_scan_head [OF n _ assms(3) _ assms(4,5)] by blast
    have R: "?R \<subseteq> node_set n" using True by (auto simp: node_set_def)
    have "\<forall>a\<in>set ms. \<forall>b\<in>set ns. gap a b"
    proof (intro ballI)
      fix a b assume a: "a \<in> set ms" and b: "b \<in> set ns"
      have "unat (nd_end a) \<in> free_set ms"
        using a ms(2) by (force simp: wf_free_def node_ok_def free_set_def node_set_def)
      with ms(3) have "unat (nd_end a) \<le> unat (nd_end n)" by (auto simp: node_set_def)
      with gaps b show "gap a b" by (fastforce simp: gap_def)
    qed
    with ms ns R apart Cons.prems(2) show ?thesis by (auto simp: wf_free_append)
  next
    case False
    with Cons.prems(2) obtain r where r: "allocate_scan addr e ns = Some r" "l' = n # r"
      by (auto simp: word_order_nat unat_eq_u32 unat_eq_u64 split: if_splits)
    from Cons.IH [OF ns r(1)] have IH: "wf_free r" "?R \<subseteq> free_set ns"
        "free_set r = free_set ns - ?R" by auto
    have "\<forall>m\<in>set r. gap n m"
      by (rule gap_subset [OF gaps _ IH(1)]) (simp add: IH(3))
    with IH r n apart show ?thesis by (auto simp: wf_free_Cons)
  qed
qed

text \<open>The range of an allocation, as the code computes its last address.\<close>

lemma unat_end_addr:
  assumes "0 < unat (sz :: u64)" and "unat (addr :: u32) + unat sz \<le> 4294967296"
  shows "unat (ucast addr + sz - 1 :: u64) = unat addr + unat sz - 1"
proof -
  have sum: "unat (ucast addr + sz :: u64) = unat addr + unat sz"
    using assms by (subst unat_plus_small) simp_all
  have "ucast addr + sz \<noteq> (0 :: u64)"
    using assms(1) sum by (metis add_is_0 less_numeral_extra(3) unat_0)
  then have "unat (ucast addr + sz - 1 :: u64) = unat (ucast addr + sz :: u64) - 1"
    by (rule unat_minus_one)
  with sum show ?thesis by simp
qed

definition alloc_request :: "u32 \<Rightarrow> u64 \<Rightarrow> bool" where
  "alloc_request addr sz \<longleftrightarrow> 0 < unat sz \<and> page_aligned (unat addr) \<and> page_aligned (unat sz)
     \<and> unat addr + unat sz \<le> 4294967296"

definition region :: "u32 \<Rightarrow> u64 \<Rightarrow> nat set" where
  "region addr sz = {unat addr..unat addr + unat sz - 1}"

lemma allocate_at_unfold:
  assumes "alloc_request addr sz"
  shows "allocate_at addr sz l =
    Some (case allocate_scan addr (ucast addr + sz - 1) l of
            None \<Rightarrow> (- ENOMEM, l) | Some l' \<Rightarrow> (ucast addr, l'))"
proof -
  have "unat (ucast addr + sz - 1 :: u64) \<le> 4294967295"
    using assms by (subst unat_end_addr) (auto simp: alloc_request_def)
  then have "ucast addr + sz - 1 \<le> (0xFFFFFFFF :: u64)"
    by (simp add: word_le_nat_alt)
  with assms show ?thesis
    by (simp add: allocate_at_def Let_def alloc_request_def page_mask_u32 page_mask_u64)
qed

lemma allocate_at_correct:
  assumes "wf_free l" and "alloc_request addr sz"
  shows "if region addr sz \<subseteq> free_set l
         then \<exists>l'. allocate_at addr sz l = Some (ucast addr, l') \<and> wf_free l'
                   \<and> free_set l' = free_set l - region addr sz
         else allocate_at addr sz l = Some (- ENOMEM, l)"
proof -
  let ?e = "ucast addr + sz - 1 :: u64"
  from assms(2) have e: "unat ?e = unat addr + unat sz - 1" and pos: "0 < unat sz"
      and al: "page_aligned (unat addr)" "page_aligned (unat ?e + 1)"
    by (auto simp: alloc_request_def unat_end_addr)
  have R: "region addr sz = {unat addr..unat ?e}" by (simp add: region_def e)
  have le: "unat addr \<le> unat ?e" using e pos by simp
  note unfold = allocate_at_unfold [OF assms(2), of l]
  show ?thesis
  proof (cases "allocate_scan addr ?e l")
    case None
    have "\<not> region addr sz \<subseteq> free_set l"
      using range_in_node [OF assms(1) _ le] allocate_scan_None [OF None] R by blast
    with unfold None show ?thesis by simp
  next
    case (Some l')
    from allocate_scan_Some [OF assms(1) Some le al] R unfold Some show ?thesis by auto
  qed
qed

subsection \<open>Choosing the address\<close>

definition node_size :: "node \<Rightarrow> nat" where
  "node_size n = unat (nd_end n) + 1 - unat (nd_start n)"

lemma unat_cur_size:
  assumes "node_ok n" and "nd_start n \<noteq> 0"
  shows "unat (nd_end n + 1 - nd_start n) = node_size n"
proof -
  have s: "0 < unat (nd_start n)" using assms(2) by (simp add: unat_gt_0)
  have le: "unat (nd_start n) \<le> unat (nd_end n)" using assms(1) by (simp add: node_ok_def)
  have "unat (nd_end n - nd_start n) = unat (nd_end n) - unat (nd_start n)"
    using le by (rule unat_minus_small)
  moreover have "unat (nd_end n) - unat (nd_start n) + 1 < 4294967296"
    using s le unat_u32_less [of "nd_end n"] by linarith
  ultimately have "unat ((nd_end n - nd_start n) + 1) = unat (nd_end n) - unat (nd_start n) + 1"
    by (subst unat_plus_small) simp_all
  then show ?thesis using le by (simp add: node_size_def algebra_simps)
qed

text \<open>
  The search keeps the largest node that is big enough: whatever it returns fits the
  request and no node of the list is larger.
\<close>

lemma find_best_spec:
  assumes "\<forall>n\<in>set l. node_ok n \<and> nd_start n \<noteq> 0"
    and "\<forall>n. best = Some n \<longrightarrow> node_ok n \<and> nd_start n \<noteq> 0
           \<and> unat sz \<le> node_size n \<and> unat best_size = node_size n"
  shows "case find_best sz l best best_size of
           None \<Rightarrow> best = None \<and> (\<forall>n\<in>set l. node_size n < unat sz)
         | Some n \<Rightarrow> (n \<in> set l \<or> best = Some n) \<and> node_ok n \<and> nd_start n \<noteq> 0
             \<and> unat sz \<le> node_size n
             \<and> (\<forall>m. m \<in> set l \<or> best = Some m \<longrightarrow> node_size m \<le> node_size n)"
  using assms
proof (induction l arbitrary: best best_size)
  case Nil
  then show ?case by (auto split: option.split)
next
  case (Cons n ns)
  let ?cur = "nd_end n + 1 - nd_start n"
  from Cons.prems(1) have n: "node_ok n" "nd_start n \<noteq> 0" and ns: "\<forall>n\<in>set ns. node_ok n \<and> nd_start n \<noteq> 0"
    by auto
  have cur: "unat ?cur = node_size n" by (rule unat_cur_size [OF n])
  show ?case
  proof (cases "ucast ?cur \<ge> sz \<and> (best = None \<or> best_size < ?cur)")
    case True
    then have fits: "unat sz \<le> node_size n" by (simp add: word_le_nat_alt cur)
    have larger: "\<forall>m. best = Some m \<longrightarrow> node_size m < node_size n"
      using True Cons.prems(2) cur by (auto simp: word_less_nat_alt)
    have "case find_best sz ns (Some n) ?cur of
           None \<Rightarrow> Some n = None \<and> (\<forall>n\<in>set ns. node_size n < unat sz)
         | Some k \<Rightarrow> (k \<in> set ns \<or> Some n = Some k) \<and> node_ok k \<and> nd_start k \<noteq> 0
             \<and> unat sz \<le> node_size k
             \<and> (\<forall>m. m \<in> set ns \<or> Some n = Some m \<longrightarrow> node_size m \<le> node_size k)"
      by (rule Cons.IH [OF ns]) (use n fits cur in auto)
    with True larger show ?thesis
      by (auto simp: Let_def split: option.splits dest: less_le_trans less_imp_le)
  next
    case False
    then have skip: "find_best sz (n # ns) best best_size = find_best sz ns best best_size"
      unfolding find_best.simps Let_def by (rule if_not_P)
    have small: "node_size n < unat sz \<or> (\<exists>m. best = Some m \<and> node_size n \<le> node_size m)"
      using False Cons.prems(2) by (auto simp: word_order_nat cur)
    from Cons.IH [OF ns Cons.prems(2)] small show ?thesis
      unfolding skip by (fastforce split: option.splits)
  qed
qed

lemma node_region:
  assumes "wf_free l" and "n \<in> set l" and "unat sz \<le> node_size n" and "0 < unat sz"
    and "page_aligned (unat sz)"
  shows "alloc_request (nd_start n) sz \<and> region (nd_start n) sz \<subseteq> free_set l"
proof -
  from assms(1,2) have ok: "node_ok n" by (simp add: wf_free_def)
  have "unat (nd_start n) + unat sz \<le> 4294967296"
    using ok assms(3) unat_u32_less [of "nd_end n"]
    unfolding node_ok_def node_size_def by linarith
  with ok assms(3-5) have "alloc_request (nd_start n) sz"
    by (simp add: alloc_request_def node_ok_def)
  moreover have "region (nd_start n) sz \<subseteq> node_set n"
    using assms(3,4) by (auto simp: region_def node_set_def node_size_def)
  ultimately show ?thesis using assms(2) by (auto simp: free_set_def)
qed

lemma allocate_any_correct:
  assumes "wf_free l" and "0 \<notin> free_set l" and "0 < unat sz" and "page_aligned (unat sz)"
  shows "if \<exists>n\<in>set l. unat sz \<le> node_size n
         then \<exists>n l'. n \<in> set l \<and> (\<forall>m\<in>set l. node_size m \<le> node_size n)
                \<and> allocate 0 sz l = Some (ucast (nd_start n), l') \<and> nd_start n \<noteq> 0
                \<and> alloc_request (nd_start n) sz \<and> region (nd_start n) sz \<subseteq> free_set l
                \<and> wf_free l' \<and> free_set l' = free_set l - region (nd_start n) sz
         else allocate 0 sz l = Some (- ENOMEM, l)"
proof -
  have nz: "\<forall>n\<in>set l. node_ok n \<and> nd_start n \<noteq> 0"
    using assms(1,2) start_in_free_set by (fastforce simp: wf_free_def)
  from find_best_spec [OF nz, of None sz "0xFFFFFFFF"]
  have best: "case find_best sz l None 0xFFFFFFFF of
           None \<Rightarrow> (\<forall>n\<in>set l. node_size n < unat sz)
         | Some n \<Rightarrow> n \<in> set l \<and> nd_start n \<noteq> 0 \<and> unat sz \<le> node_size n
             \<and> (\<forall>m\<in>set l. node_size m \<le> node_size n)"
    by (auto split: option.splits)
  show ?thesis
  proof (cases "find_best sz l None 0xFFFFFFFF")
    case None
    with best have "\<not> (\<exists>n\<in>set l. unat sz \<le> node_size n)" by (auto simp: not_le)
    moreover from None assms(4) have "allocate 0 sz l = Some (- ENOMEM, l)"
      by (simp add: allocate_def page_mask_u64)
    ultimately show ?thesis by simp
  next
    case (Some n)
    with best have n: "n \<in> set l" "nd_start n \<noteq> 0" "unat sz \<le> node_size n"
        "\<forall>m\<in>set l. node_size m \<le> node_size n" by auto
    from node_region [OF assms(1) n(1,3) assms(3,4)]
    have req: "alloc_request (nd_start n) sz" and sub: "region (nd_start n) sz \<subseteq> free_set l"
      by auto
    have "allocate 0 sz l = allocate_at (nd_start n) sz l"
      using Some n(2) assms(4) by (simp add: allocate_def page_mask_u64)
    with allocate_at_correct [OF assms(1) req] sub n req show ?thesis by auto
  qed
qed

section \<open>Consolidation in one pass\<close>

text \<open>
  The fixpoint loop of \<^verbatim>\<open>consolidate\<close> restarts at the head after every merge. The
  same list results from one walk that keeps merging into the current node.
\<close>

fun consol :: "freelist \<Rightarrow> freelist" where
  "consol (c # n # ns) =
     (if mergeable c n then consol (merge_nodes c n # ns) else c # consol (n # ns))"
| "consol l = l"

lemma merge_nodes_sel [simp]:
  "nd_start (merge_nodes c n) = nd_start c"
  "nd_end (merge_nodes c n) = max (nd_end c) (nd_end n)"
  by (simp_all add: merge_nodes_def)

lemma consolidate_pass_head:
  "consolidate_pass (n # ns) = Some l' \<Longrightarrow> \<exists>n' r. l' = n' # r \<and> nd_start n' = nd_start n"
  by (cases ns) (auto split: if_splits)

lemma consol_pass_None: "consolidate_pass l = None \<Longrightarrow> consol l = l"
  by (induction l rule: consolidate_pass.induct) (auto split: if_splits)

lemma consol_pass_Some: "consolidate_pass l = Some l' \<Longrightarrow> consol l' = consol l"
proof (induction l arbitrary: l' rule: consolidate_pass.induct)
  case (1 c n ns)
  show ?case
  proof (cases "mergeable c n")
    case True
    with "1.prems" show ?thesis by simp
  next
    case False
    with "1.prems" obtain r where r: "consolidate_pass (n # ns) = Some r" "l' = c # r" by auto
    then obtain n' r' where "r = n' # r'" "nd_start n' = nd_start n"
      using consolidate_pass_head by blast
    with False r "1.IH" [OF False r(1)] show ?thesis by (auto simp: mergeable_def)
  qed
qed auto

lemma consolidate_one_pass: "consolidate l = consol l"
proof (induction l rule: consolidate.induct)
  case (1 l)
  show ?case
  proof (cases "consolidate_pass l")
    case None
    then show ?thesis by (simp add: consolidate.simps [of l] consol_pass_None)
  next
    case (Some l')
    with 1 show ?thesis by (simp add: consolidate.simps [of l] consol_pass_Some)
  qed
qed

section \<open>Freeing\<close>

definition weave :: "node \<Rightarrow> freelist \<Rightarrow> freelist" where
  "weave N ys = concat (map (\<lambda>b. [N, b]) ys)"

lemma weave_simps [simp]:
  "weave N [] = []"
  "weave N (b # bs) = N # b # weave N bs"
  by (simp_all add: weave_def)

lemma deallocate_scan_eq:
  "deallocate_scan N l =
     (if \<exists>m\<in>set l. nd_start m \<le> nd_start N \<and> nd_end N \<le> nd_end m then None
      else Some (concat (map (\<lambda>n. if nd_start n \<ge> nd_start N then [N, n] else [n]) l)))"
  by (induction l) auto

lemma mergeable_nat:
  assumes "unat (nd_end c) < 4294967295"
  shows "mergeable c n \<longleftrightarrow> unat (nd_start n) \<le> unat (nd_end c) + 1"
proof -
  have "unat (nd_end c + 1) = unat (nd_end c) + 1"
    using assms by (subst unat_plus_small) simp_all
  then show ?thesis by (simp add: mergeable_def word_le_nat_alt)
qed

lemma gap_end: "gap c n \<Longrightarrow> unat (nd_end c) < 4294967295"
  using unat_u32_less [of "nd_start n"] unfolding gap_def by linarith

lemma gap_not_mergeable: "gap c n \<Longrightarrow> \<not> mergeable c n"
  by (simp add: mergeable_nat gap_end) (simp add: gap_def)

lemma merge_absorb:
  "unat (nd_end n) \<le> unat (nd_end c) \<Longrightarrow> merge_nodes c n = c"
  by (cases c) (simp add: merge_nodes_def max_absorb1 word_le_nat_alt)

lemma consol_wf: "wf_free l \<Longrightarrow> consol l = l"
  by (induction l rule: consol.induct) (auto simp: wf_free_Cons dest: gap_not_mergeable)

text \<open>Once the walk is past the new node, its further copies vanish into the nodes.\<close>

lemma consol_weave_past:
  assumes "wf_free (b # bs)" and "unat (nd_start N) \<le> unat (nd_end N)"
    and "unat (nd_end N) < unat (nd_start b)"
  shows "consol (b # weave N bs) = b # bs"
  using assms(1,3)
proof (induction bs arbitrary: b)
  case Nil
  then show ?case by simp
next
  case (Cons c cs)
  then have gap: "gap b c" and ok: "node_ok b" "node_ok c" and wf: "wf_free (c # cs)"
    by (simp_all add: wf_free_Cons)
  have "mergeable b N" "merge_nodes b N = b"
    using gap_end [OF gap] ok(1) Cons.prems(2) assms(2)
    by (simp_all add: mergeable_nat node_ok_def merge_absorb)
  moreover have "consol (c # weave N cs) = c # cs"
    using Cons.prems(2) gap ok by (intro Cons.IH [OF wf]) (simp add: gap_def node_ok_def)
  ultimately show ?case by (simp add: gap_not_mergeable [OF gap])
qed

lemma merge_nodes_set:
  assumes "unat (nd_start c) \<le> unat (nd_start n)" and "unat (nd_start n) \<le> unat (nd_end c) + 1"
    and "node_ok c" and "node_ok n"
  shows "node_set (merge_nodes c n) = node_set c \<union> node_set n" and "node_ok (merge_nodes c n)"
  using assms by (auto simp: node_set_def node_ok_def max_def word_le_nat_alt)

text \<open>
  The heart of the argument: a current node that covers the new node \<open>N\<close>, followed by
  the nodes after it with a copy of \<open>N\<close> before each, becomes a well-formed list with
  the same addresses.
\<close>

lemma consol_weave:
  assumes "node_ok cur" and "wf_free ys"
    and "unat (nd_start cur) \<le> unat (nd_start N)" and "unat (nd_end N) \<le> unat (nd_end cur)"
    and "unat (nd_start N) \<le> unat (nd_end N)"
    and "\<forall>b\<in>set ys. unat (nd_start N) \<le> unat (nd_start b)"
    and "ys \<noteq> [] \<Longrightarrow> unat (nd_end cur) < 4294967295"
  shows "wf_free (consol (cur # weave N ys))
         \<and> free_set (consol (cur # weave N ys)) = node_set cur \<union> free_set ys"
  using assms
proof (induction ys arbitrary: cur)
  case Nil
  then show ?case by (simp add: wf_free_Cons)
next
  case (Cons b bs)
  from Cons.prems have b: "node_ok b" "\<forall>m\<in>set bs. gap b m" "wf_free bs"
    and len: "unat (nd_end cur) < 4294967295"
    and sb: "unat (nd_start N) \<le> unat (nd_start b)" by (simp_all add: wf_free_Cons)
  have "mergeable cur N" "merge_nodes cur N = cur"
    using Cons.prems len by (simp_all add: mergeable_nat merge_absorb)
  then have step: "consol (cur # weave N (b # bs)) = consol (cur # b # weave N bs)" by simp
  show ?case
  proof (cases "mergeable cur b")
    case True
    let ?c = "merge_nodes cur b"
    from True len have near: "unat (nd_start b) \<le> unat (nd_end cur) + 1"
      by (simp add: mergeable_nat)
    have le: "unat (nd_start cur) \<le> unat (nd_start b)" using Cons.prems sb by linarith
    note m = merge_nodes_set [OF le near \<open>node_ok cur\<close> b(1)]
    have "bs \<noteq> [] \<Longrightarrow> unat (nd_end b) < 4294967295"
      using b(2) gap_end by (cases bs) auto
    with len have "bs \<noteq> [] \<Longrightarrow> unat (nd_end ?c) < 4294967295" by (simp add: max_def)
    moreover have "unat (nd_end N) \<le> unat (nd_end ?c)"
      using Cons.prems by (auto simp: max_def word_le_nat_alt)
    ultimately have "wf_free (consol (?c # weave N bs))
         \<and> free_set (consol (?c # weave N bs)) = node_set ?c \<union> free_set bs"
      using Cons.prems m(2) b(3) by (intro Cons.IH) auto
    with True step m(1) show ?thesis by auto
  next
    case False
    then have g: "gap cur b" using len by (simp add: mergeable_nat gap_def)
    have "consol (b # weave N bs) = b # bs"
      using Cons.prems g by (intro consol_weave_past) (auto simp: gap_def)
    with False step have r: "consol (cur # weave N (b # bs)) = cur # b # bs" by simp
    have "\<forall>m\<in>set bs. gap cur m"
      using b g by (fastforce simp: gap_def node_ok_def)
    with r g b Cons.prems(1,2) show ?thesis by (simp add: wf_free_Cons)
  qed
qed

lemma consol_insert:
  assumes "wf_free (xs @ ys)" and "node_ok N" and "ys \<noteq> []"
    and "unat (nd_end N) < 4294967295"
    and "\<forall>x\<in>set xs. unat (nd_start x) < unat (nd_start N) \<and> unat (nd_end x) < unat (nd_end N)"
    and "\<forall>b\<in>set ys. unat (nd_start N) \<le> unat (nd_start b)"
  shows "wf_free (consol (xs @ weave N ys))
         \<and> free_set (consol (xs @ weave N ys)) = free_set xs \<union> node_set N \<union> free_set ys"
  using assms(1,5)
proof (induction xs)
  case Nil
  have N: "unat (nd_start N) \<le> unat (nd_end N)" using assms(2) by (simp add: node_ok_def)
  have self: "mergeable N N" "merge_nodes N N = N"
    using N assms(4) by (simp_all add: mergeable_nat merge_absorb)
  have "consol (weave N ys) = consol (N # weave N ys)"
    using assms(3) by (cases ys) (simp_all add: self)
  with consol_weave [of N ys N] N assms Nil show ?case by simp
next
  case (Cons x xs)
  from Cons.prems(1) have x: "node_ok x" "\<forall>m\<in>set (xs @ ys). gap x m" and wf: "wf_free (xs @ ys)"
    by (auto simp: wf_free_Cons)
  from Cons.prems(2) have xN: "unat (nd_start x) < unat (nd_start N)" "unat (nd_end x) < unat (nd_end N)"
    by auto
  have N: "unat (nd_start N) \<le> unat (nd_end N)" using assms(2) by (simp add: node_ok_def)
  from Cons have IH: "wf_free (consol (xs @ weave N ys))"
      "free_set (consol (xs @ weave N ys)) = free_set xs \<union> node_set N \<union> free_set ys"
    using wf by auto
  have keep: "wf_free (x # consol (xs @ weave N ys))" if "gap x N"
  proof -
    have "\<forall>m\<in>set (xs @ [N] @ ys). gap x m" using x(2) that by auto
    from gap_subset [OF this _ IH(1)] IH(2) have "\<forall>m\<in>set (consol (xs @ weave N ys)). gap x m"
      by auto
    with IH(1) x(1) show ?thesis by (simp add: wf_free_Cons)
  qed
  show ?case
  proof (cases xs)
    case (Cons x2 xs2)
    with x(2) Cons.prems(2) have "gap x x2" "gap x N" by (auto simp: gap_def)
    with keep IH(2) Cons show ?thesis by (auto simp: gap_not_mergeable)
  next
    case Nil
    obtain b bs where ys: "ys = b # bs" using assms(3) by (cases ys) auto
    show ?thesis
    proof (cases "mergeable x N")
      case False
      then have "gap x N" using xN assms(4) by (simp add: mergeable_nat gap_def)
      with keep IH(2) Nil ys False show ?thesis by (simp add: Un_assoc)
    next
      case True
      let ?c = "merge_nodes x N"
      from True xN assms(4) have near: "unat (nd_start N) \<le> unat (nd_end x) + 1"
        by (simp add: mergeable_nat)
      note m = merge_nodes_set [OF less_imp_le [OF xN(1)] near x(1) assms(2)]
      have e: "nd_end ?c = nd_end N" using xN by (simp add: max_def word_le_nat_alt)
      have self: "mergeable ?c N" "merge_nodes ?c N = ?c"
        using e N assms(4) by (simp_all add: mergeable_nat merge_absorb)
      have "consol (?c # weave N ys) = consol (x # weave N ys)"
        using True ys by (simp add: self)
      moreover have "wf_free (consol (?c # weave N ys))
         \<and> free_set (consol (?c # weave N ys)) = node_set ?c \<union> free_set ys"
        using m(2) wf Nil xN e N assms by (intro consol_weave) auto
      ultimately show ?thesis using Nil m(1) by auto
    qed
  qed
qed

lemma split_at_start:
  assumes "wf_free l"
  shows "concat (map (\<lambda>n. if nd_start n \<ge> nd_start N then [N, n] else [n]) l)
         = takeWhile (\<lambda>n. nd_start n < nd_start N) l
           @ weave N (dropWhile (\<lambda>n. nd_start n < nd_start N) l)"
  using assms
proof (induction l)
  case (Cons n ns)
  show ?case
  proof (cases "nd_start n < nd_start N")
    case True
    with Cons show ?thesis by (simp add: wf_free_Cons not_le)
  next
    case False
    have "concat (map (\<lambda>n. if nd_start n \<ge> nd_start N then [N, n] else [n]) ns) = weave N ns"
      using False Cons.prems
      by (auto simp: weave_def wf_free_Cons gap_def node_ok_def word_order_nat
          intro!: arg_cong [of _ _ concat] map_cong)
    with False show ?thesis by simp
  qed
qed simp

text \<open>
  A free request that the list can take in: the range ends below the top of the address
  space, and it is already free or some free node starts at or after it.
\<close>

definition releasable :: "u32 \<Rightarrow> u64 \<Rightarrow> freelist \<Rightarrow> bool" where
  "releasable addr sz l \<longleftrightarrow> alloc_request addr sz \<and> unat addr + unat sz < 4294967296
     \<and> (region addr sz \<subseteq> free_set l \<or> (\<exists>n\<in>set l. addr \<le> nd_start n))"

definition new_node :: "u32 \<Rightarrow> u64 \<Rightarrow> node" where
  "new_node addr sz = \<lparr>nd_start = addr, nd_end = ucast (ucast addr + sz - 1 :: u64)\<rparr>"

lemma unat_new_node:
  assumes "alloc_request addr sz"
  shows "unat (nd_start (new_node addr sz)) = unat addr"
    and "unat (nd_end (new_node addr sz)) = unat addr + unat sz - 1"
  using assms by (auto simp: new_node_def alloc_request_def unat_ucast_u64_u32 unat_end_addr)

lemma new_node_ok: "alloc_request addr sz \<Longrightarrow> node_ok (new_node addr sz)"
  using unat_new_node [of addr sz] by (auto simp: node_ok_def alloc_request_def)

lemma node_set_new_node: "alloc_request addr sz \<Longrightarrow> node_set (new_node addr sz) = region addr sz"
  by (simp add: node_set_def region_def unat_new_node)

lemma deallocate_unfold:
  assumes "alloc_request addr sz"
  shows "deallocate addr sz l = Some (case deallocate_scan (new_node addr sz) l of
           None \<Rightarrow> l | Some l' \<Rightarrow> consolidate l')"
proof -
  have "unat (ucast addr + sz :: u64) = unat addr + unat sz"
    using assms by (subst unat_plus_small) (simp_all add: alloc_request_def)
  with assms have "ucast addr + sz \<le> (0x100000000 :: u64)"
    by (simp add: word_le_nat_alt alloc_request_def)
  with assms show ?thesis
    by (simp add: deallocate_def new_node_def alloc_request_def page_mask_u32 page_mask_u64)
qed

lemma held_iff_free:
  assumes "wf_free l" and "alloc_request addr sz"
  shows "(\<exists>m\<in>set l. nd_start m \<le> nd_start (new_node addr sz)
            \<and> nd_end (new_node addr sz) \<le> nd_end m) \<longleftrightarrow> region addr sz \<subseteq> free_set l"
    (is "?held \<longleftrightarrow> _")
proof
  note N = unat_new_node [OF assms(2)]
  have pos: "0 < unat sz" using assms(2) by (simp add: alloc_request_def)
  show "region addr sz \<subseteq> free_set l" if ?held
  proof -
    from that obtain m where "m \<in> set l" "unat (nd_start m) \<le> unat addr"
        "unat addr + unat sz - 1 \<le> unat (nd_end m)"
      by (auto simp: word_le_nat_alt N)
    then have "m \<in> set l \<and> region addr sz \<subseteq> node_set m" by (auto simp: region_def node_set_def)
    then show ?thesis by (auto simp: free_set_def)
  qed
  show ?held if sub: "region addr sz \<subseteq> free_set l"
  proof -
    have "unat addr \<le> unat addr + unat sz - 1" using pos by simp
    from range_in_node [OF assms(1) sub [unfolded region_def] this]
    show ?thesis by (simp add: word_le_nat_alt N)
  qed
qed

lemma deallocate_correct:
  assumes "wf_free l" and "releasable addr sz l"
  shows "\<exists>l'. deallocate addr sz l = Some l' \<and> wf_free l'
              \<and> free_set l' = free_set l \<union> region addr sz"
proof -
  let ?N = "new_node addr sz"
  let ?before = "\<lambda>n. nd_start n < nd_start ?N"
  let ?xs = "takeWhile ?before l" and ?ys = "dropWhile ?before l"
  from assms(2) have req: "alloc_request addr sz" and top: "unat addr + unat sz < 4294967296"
    and dest: "region addr sz \<subseteq> free_set l \<or> (\<exists>n\<in>set l. addr \<le> nd_start n)"
    by (simp_all add: releasable_def)
  note N = unat_new_node [OF req]
  show ?thesis
  proof (cases "region addr sz \<subseteq> free_set l")
    case True
    then have "deallocate addr sz l = Some l"
      by (simp add: deallocate_unfold [OF req] deallocate_scan_eq held_iff_free [OF assms(1) req])
    with assms(1) True show ?thesis by auto
  next
    case False
    have dealloc: "deallocate addr sz l = Some (consol (?xs @ weave ?N ?ys))"
      using False by (simp add: deallocate_unfold [OF req] deallocate_scan_eq
          held_iff_free [OF assms(1) req] split_at_start [OF assms(1)] consolidate_one_pass)
    have wf: "wf_free (?xs @ ?ys)" using assms(1) by simp
    from False dest obtain n where n: "n \<in> set l" "addr \<le> nd_start n" by blast
    then have ne: "?ys \<noteq> []"
      by (auto simp: dropWhile_eq_Nil_conv new_node_def not_less)
    have end_small: "unat (nd_end ?N) < 4294967295"
      using N(2) top req by (simp add: alloc_request_def)
    have xs: "\<forall>x\<in>set ?xs. unat (nd_start x) < unat (nd_start ?N) \<and> unat (nd_end x) < unat (nd_end ?N)"
    proof
      fix x assume x: "x \<in> set ?xs"
      then have s: "unat (nd_start x) < unat (nd_start ?N)" and "x \<in> set l"
        by (auto simp: word_less_nat_alt dest: set_takeWhileD)
      with False held_iff_free [OF assms(1) req]
      show "unat (nd_start x) < unat (nd_start ?N) \<and> unat (nd_end x) < unat (nd_end ?N)"
        by (auto simp: word_le_nat_alt not_le)
    qed
    have ys: "\<forall>b\<in>set ?ys. unat (nd_start ?N) \<le> unat (nd_start b)"
    proof (cases ?ys)
      case Nil
      then show ?thesis by (simp only: list.set ball_empty)
    next
      case (Cons b bs)
      then have b: "\<not> ?before b" by (metis hd_dropWhile list.discI list.sel(1))
      from wf Cons have "wf_free (b # bs)" by (simp add: wf_free_append)
      with b Cons show ?thesis
        by (auto simp: wf_free_Cons gap_def node_ok_def word_order_nat)
    qed
    have "free_set l = free_set ?xs \<union> free_set ?ys"
      using free_set_append [of ?xs ?ys] by simp
    with consol_insert [OF wf new_node_ok [OF req] ne end_small xs ys] dealloc
    show ?thesis by (auto simp: node_set_new_node [OF req])
  qed
qed

text \<open>
  Without a free node at or after the range, the range is dropped: \<^verbatim>\<open>deallocate\<close> has
  no branch that appends at the end of the list.
\<close>

lemma deallocate_forgets:
  assumes "wf_free l" and "alloc_request addr sz"
    and "\<not> region addr sz \<subseteq> free_set l" and "\<forall>n\<in>set l. nd_start n < addr"
  shows "deallocate addr sz l = Some l"
proof -
  let ?N = "new_node addr sz"
  have "concat (map (\<lambda>n. if nd_start n \<ge> nd_start ?N then [?N, n] else [n]) l)
        = concat (map (\<lambda>n. [n]) l)"
    using assms(4) by (intro arg_cong [of _ _ concat] map_cong) (auto simp: new_node_def)
  then show ?thesis
    using assms(3) by (simp add: deallocate_unfold [OF assms(2)] deallocate_scan_eq
        held_iff_free [OF assms(1,2)] consolidate_one_pass consol_wf [OF assms(1)])
qed

lemma deallocate_sound:
  assumes "wf_free l" and "alloc_request addr sz" and "unat addr + unat sz < 4294967296"
  shows "\<exists>l'. deallocate addr sz l = Some l' \<and> wf_free l'
           \<and> free_set l \<subseteq> free_set l' \<and> free_set l' \<subseteq> free_set l \<union> region addr sz"
proof (cases "releasable addr sz l")
  case True
  from deallocate_correct [OF assms(1) this] show ?thesis by blast
next
  case False
  with assms(2,3) have "\<not> region addr sz \<subseteq> free_set l" "\<forall>n\<in>set l. nd_start n < addr"
    by (auto simp: releasable_def not_le)
  from deallocate_forgets [OF assms(1,2) this] assms(1) show ?thesis by auto
qed

section \<open>The interface of the allocator\<close>

text \<open>
  What the memory mapper relies on: allocation at an address takes exactly that region
  or reports \<open>ENOMEM\<close>, allocation anywhere takes a free region of the asked size, and
  freeing never marks as free an address outside the freed region.
\<close>

locale region_allocator =
  fixes alloc :: "u32 \<Rightarrow> u64 \<Rightarrow> 'l \<Rightarrow> (u64 \<times> 'l) option"
    and release :: "u32 \<Rightarrow> u64 \<Rightarrow> 'l \<Rightarrow> 'l option"
    and free :: "'l \<Rightarrow> nat set"
    and ok :: "'l \<Rightarrow> bool"
    and can_release :: "u32 \<Rightarrow> u64 \<Rightarrow> 'l \<Rightarrow> bool"
  assumes alloc_fixed: "ok l \<Longrightarrow> alloc_request a sz \<Longrightarrow> a \<noteq> 0 \<Longrightarrow>
      if region a sz \<subseteq> free l
      then \<exists>l'. alloc a sz l = Some (ucast a, l') \<and> ok l' \<and> free l' = free l - region a sz
      else alloc a sz l = Some (- ENOMEM, l)"
    and alloc_any: "ok l \<Longrightarrow> 0 \<notin> free l \<Longrightarrow> 0 < unat sz \<Longrightarrow> page_aligned (unat sz) \<Longrightarrow>
      (\<exists>a l'. alloc 0 sz l = Some (ucast a, l') \<and> a \<noteq> 0 \<and> alloc_request a sz
         \<and> region a sz \<subseteq> free l \<and> ok l' \<and> free l' = free l - region a sz)
      \<or> alloc 0 sz l = Some (- ENOMEM, l)"
    and release_sound: "ok l \<Longrightarrow> alloc_request a sz \<Longrightarrow> unat a + unat sz < 4294967296 \<Longrightarrow>
      \<exists>l'. release a sz l = Some l' \<and> ok l' \<and> free l \<subseteq> free l' \<and> free l' \<subseteq> free l \<union> region a sz"
    and release_exact: "ok l \<Longrightarrow> can_release a sz l \<Longrightarrow>
      \<exists>l'. release a sz l = Some l' \<and> ok l' \<and> free l' = free l \<union> region a sz"
    and can_releaseD: "can_release a sz l \<Longrightarrow> alloc_request a sz \<and> unat a + unat sz < 4294967296"
begin

lemma fresh_disjoint:
  assumes "ok l" and "0 \<notin> free l" and "0 < unat sz" and "page_aligned (unat sz)"
    and "alloc 0 sz l = Some (r, l')" and "r \<noteq> - ENOMEM"
  shows "\<exists>a. r = ucast a \<and> alloc_request a sz \<and> region a sz \<subseteq> free l
           \<and> ok l' \<and> free l' = free l - region a sz"
  using alloc_any [OF assms(1-4)] assms(5,6) by auto

text \<open>Two regions allocated one after the other never overlap.\<close>

lemma allocations_disjoint:
  assumes "ok l" and "0 \<notin> free l" and "0 < unat sz1" and "page_aligned (unat sz1)"
    and "0 < unat sz2" and "page_aligned (unat sz2)"
    and "alloc 0 sz1 l = Some (r1, l1)" and "r1 \<noteq> - ENOMEM"
    and "alloc 0 sz2 l1 = Some (r2, l2)" and "r2 \<noteq> - ENOMEM"
  shows "\<exists>a1 a2. r1 = ucast a1 \<and> r2 = ucast a2 \<and> region a1 sz1 \<inter> region a2 sz2 = {}"
proof -
  from fresh_disjoint [OF assms(1-4,7,8)]
  obtain a1 where a1: "r1 = ucast a1" "ok l1" "free l1 = free l - region a1 sz1" by blast
  with assms(2) have "0 \<notin> free l1" by simp
  from fresh_disjoint [OF a1(2) this assms(5,6,9,10)]
  obtain a2 where "r2 = ucast a2" "region a2 sz2 \<subseteq> free l1" by blast
  with a1 show ?thesis by blast
qed

text \<open>Replacing a region: release it and take it again, as fixed mappings do.\<close>

lemma release_then_alloc:
  assumes "ok l" and "can_release a sz l" and "a \<noteq> 0"
  shows "\<exists>l1 l2. release a sz l = Some l1 \<and> alloc a sz l1 = Some (ucast a, l2) \<and> ok l2
           \<and> free l2 = free l - region a sz"
proof -
  from release_exact [OF assms(1,2)]
  obtain l1 where l1: "release a sz l = Some l1" "ok l1" "free l1 = free l \<union> region a sz" by blast
  with alloc_fixed [OF l1(2) _ assms(3), of sz] can_releaseD [OF assms(2)]
  show ?thesis by auto
qed

end

interpretation fl: region_allocator allocate deallocate free_set wf_free releasable
proof unfold_locales
  fix l a sz
  assume "wf_free l" "alloc_request a sz" "a \<noteq> 0"
  then show "if region a sz \<subseteq> free_set l
      then \<exists>l'. allocate a sz l = Some (ucast a, l') \<and> wf_free l' \<and> free_set l' = free_set l - region a sz
      else allocate a sz l = Some (- ENOMEM, l)"
    using allocate_at_correct [of l a sz] by (simp add: allocate_def)
next
  fix l sz
  assume "wf_free l" "0 \<notin> free_set l" "0 < unat (sz :: u64)" "page_aligned (unat sz)"
  from allocate_any_correct [OF this]
  show "(\<exists>a l'. allocate 0 sz l = Some (ucast a, l') \<and> a \<noteq> 0 \<and> alloc_request a sz
         \<and> region a sz \<subseteq> free_set l \<and> wf_free l' \<and> free_set l' = free_set l - region a sz)
      \<or> allocate 0 sz l = Some (- ENOMEM, l)"
    by (auto split: if_splits)
next
  fix l a sz
  assume "wf_free l" "alloc_request a sz" "unat a + unat sz < 4294967296"
  then show "\<exists>l'. deallocate a sz l = Some l' \<and> wf_free l'
      \<and> free_set l \<subseteq> free_set l' \<and> free_set l' \<subseteq> free_set l \<union> region a sz"
    by (rule deallocate_sound)
next
  fix l a sz
  assume "wf_free l" "releasable a sz l"
  then show "\<exists>l'. deallocate a sz l = Some l' \<and> wf_free l' \<and> free_set l' = free_set l \<union> region a sz"
    by (rule deallocate_correct)
qed (simp add: releasable_def)

section \<open>Properties\<close>

text \<open>C10: \<^verbatim>\<open>Freelist::allocate\<close> with an address implements the abstract allocator on
  the set of free addresses: a well-formed request for a free region returns the
  address, removes exactly that region from the free set and keeps the list sorted and
  gap-separated; any other request returns \<^verbatim>\<open>-ENOMEM\<close> and leaves the list as it was.\<close>

theorem freelist_allocate_fixed:
  assumes "wf_free l" and "alloc_request addr sz" and "addr \<noteq> 0"
  shows "if region addr sz \<subseteq> free_set l
         then \<exists>l'. allocate addr sz l = Some (ucast addr, l') \<and> wf_free l'
                   \<and> free_set l' = free_set l - region addr sz
         else allocate addr sz l = Some (- ENOMEM, l)"
  by (rule fl.alloc_fixed [OF assms])

theorem freelist_allocate_fixed_witness:
  "\<exists>l'. allocate 0x20000 0x10000 (Freelist_init 0x10000) = Some (0x20000, l')
        \<and> free_set l' = {0x10000..0xFFFFFFFF} - {0x20000..0x2FFFF}"
proof -
  have "wf_free (Freelist_init 0x10000)"
    by (simp add: Freelist_init_def wf_free_Cons node_ok_def page_aligned_def)
  moreover have "alloc_request 0x20000 0x10000"
    by (simp add: alloc_request_def page_aligned_def)
  moreover have "free_set (Freelist_init 0x10000) = {0x10000..0xFFFFFFFF}"
    by (simp add: Freelist_init_def node_set_def)
  moreover have "region 0x20000 0x10000 = {0x20000..0x2FFFF}" by (simp add: region_def)
  ultimately show ?thesis
    using freelist_allocate_fixed [of "Freelist_init 0x10000" "0x20000" "0x10000"] by auto
qed








end
