(* ===== verification/Mapper.thy ===== *)
theory Mapper
  imports Freelist
begin

text \<open>
  The memory mapper (\<^verbatim>\<open>hle/mmap.hpp\<close>, \<^verbatim>\<open>hle/mmap.cpp\<close>): the 32-bit guest's
  \<^verbatim>\<open>mmap\<close>, \<^verbatim>\<open>munmap\<close>, \<^verbatim>\<open>mremap\<close>, \<^verbatim>\<open>shmat\<close> and \<^verbatim>\<open>shmdt\<close> on top of the
  free list and of the host kernel. The kernel's system calls are parameters (a record of
  functions over a kernel state \<open>'k\<close>); what a theorem needs of them is the predicate
  \<open>kernel_spec\<close>, the documented behaviour of \<^verbatim>\<open>mmap(2)\<close>, \<^verbatim>\<open>munmap(2)\<close> and
  \<^verbatim>\<open>mremap(2)\<close>.
\<close>

section \<open>The kernel's interface\<close>

text \<open>\<open>Inl e\<close> is a failed call with \<^verbatim>\<open>errno\<close> \<open>e\<close>, \<open>Inr\<close> a successful one.\<close>

record 'k kernel =
  sys_mmap :: "u64 \<Rightarrow> u64 \<Rightarrow> u32 \<Rightarrow> u32 \<Rightarrow> u32 \<Rightarrow> u64 \<Rightarrow> 'k \<Rightarrow> (u64 + u64) \<times> 'k"
  sys_munmap :: "u64 \<Rightarrow> u64 \<Rightarrow> 'k \<Rightarrow> (u64 + unit) \<times> 'k"
  sys_mremap :: "u64 \<Rightarrow> u64 \<Rightarrow> u64 \<Rightarrow> u32 \<Rightarrow> u64 \<Rightarrow> 'k \<Rightarrow> (u64 + u64) \<times> 'k"
  sys_shm_segsz :: "u32 \<Rightarrow> 'k \<Rightarrow> u64 option"
  sys_shmat :: "u32 \<Rightarrow> u64 \<Rightarrow> u32 \<Rightarrow> 'k \<Rightarrow> (u64 + u64) \<times> 'k"
  sys_shmdt :: "u64 \<Rightarrow> 'k \<Rightarrow> (u64 + unit) \<times> 'k"

definition MAP_FAILED :: u64 where "MAP_FAILED = - 1"
definition MAP_FIXED :: u32 where "MAP_FIXED = 0x10"
definition MAP_FIXED_NOREPLACE :: u32 where "MAP_FIXED_NOREPLACE = 0x100000"
definition MREMAP_MAYMOVE :: u32 where "MREMAP_MAYMOVE = 1"
definition MREMAP_FIXED :: u32 where "MREMAP_FIXED = 2"
definition MREMAP_DONTUNMAP :: u32 where "MREMAP_DONTUNMAP = 4"
definition EINVAL :: int where "EINVAL = 22"

abbreviation flag_set :: "u32 \<Rightarrow> u32 \<Rightarrow> bool" where
  "flag_set flags f \<equiv> flags AND f \<noteq> 0"

section \<open>The mapper\<close>

record mapper =
  freelist :: freelist
  page_to_shmid :: "u32 \<rightharpoonup> u32"

definition round_page :: "u64 \<Rightarrow> u64" where
  "round_page sz = (sz + 0xFFF) AND NOT 0xFFF"

definition map32 :: "'k kernel \<Rightarrow> u64 \<Rightarrow> u64 \<Rightarrow> u32 \<Rightarrow> u32 \<Rightarrow> u32 \<Rightarrow> u64 \<Rightarrow> mapper \<Rightarrow> 'k
    \<Rightarrow> (u64 \<times> mapper \<times> 'k) option" where
  "map32 K addr size0 prot flags fd offset m k = (
     let sz = round_page size0 in
     if flag_set flags MAP_FIXED \<or> flag_set flags MAP_FIXED_NOREPLACE then do {
       ASSERT (addr < 0xFFFFFFFF);
       case sys_mmap K addr sz prot flags fd offset k of
         (Inl e, k') \<Rightarrow> Some (- e, m, k')
       | (Inr result, k') \<Rightarrow> do {
           fl1 \<leftarrow> (if flag_set flags MAP_FIXED then do {
                    ASSERT (result < 0xFFFFFFFF);
                    deallocate (ucast result) sz (freelist m)
                  } else Some (freelist m));
           (mapping, fl2) \<leftarrow> allocate (ucast result) sz fl1;
           ASSERT (mapping = result);
           Some (result, m\<lparr>freelist := fl2\<rparr>, k')
         }
     } else do {
       (address, fl1) \<leftarrow> allocate 0 sz (freelist m);
       if sint address < 0 then Some (address, m\<lparr>freelist := fl1\<rparr>, k)
       else case sys_mmap K address sz prot (flags OR MAP_FIXED_NOREPLACE) fd offset k of
              (Inl e, k') \<Rightarrow> Some (- e, m\<lparr>freelist := fl1\<rparr>, k')
            | (Inr result, k') \<Rightarrow> do {
                ASSERT (result = address);
                Some (address, m\<lparr>freelist := fl1\<rparr>, k')
              }
     })"

definition unmap32 :: "'k kernel \<Rightarrow> u64 \<Rightarrow> u64 \<Rightarrow> mapper \<Rightarrow> 'k \<Rightarrow> (int \<times> mapper \<times> 'k) option" where
  "unmap32 K addr size0 m k = (
     let sz = round_page size0 in do {
       ASSERT (addr < 0xFFFFFFFF);
       case sys_munmap K addr sz k of
         (Inr _, k') \<Rightarrow> do {
           fl \<leftarrow> deallocate (ucast addr) sz (freelist m);
           Some (0, m\<lparr>freelist := fl\<rparr>, k')
         }
       | (Inl e, k') \<Rightarrow> Some (- uint e, m, k')
     })"

definition remap32 :: "'k kernel \<Rightarrow> u64 \<Rightarrow> u64 \<Rightarrow> u64 \<Rightarrow> u32 \<Rightarrow> u64 \<Rightarrow> mapper \<Rightarrow> 'k
    \<Rightarrow> (u64 \<times> mapper \<times> 'k) option" where
  "remap32 K old_address old_size0 new_size0 flags new_address m k = do {
     ASSERT (old_address \<noteq> 0);
     ASSERT (old_size0 \<noteq> 0);
     ASSERT (new_size0 \<noteq> 0);
     let old_size = round_page old_size0;
     let new_size = round_page new_size0;
     if flag_set flags MREMAP_FIXED \<or> \<not> flag_set flags MREMAP_MAYMOVE then do {
       ASSERT (new_address < 0xFFFFFFFF);
       case sys_mremap K old_address old_size new_size flags new_address k of
         (Inl e, k') \<Rightarrow> Some (MAP_FAILED, m, k')
       | (Inr result, k') \<Rightarrow> do {
           ASSERT (result = new_address);
           fl1 \<leftarrow> (if \<not> flag_set flags MREMAP_DONTUNMAP
                  then deallocate (ucast old_address) old_size (freelist m)
                  else Some (freelist m));
           (mapping, fl2) \<leftarrow> allocate (ucast result) new_size fl1;
           ASSERT (mapping = result);
           Some (result, m\<lparr>freelist := fl2\<rparr>, k')
         }
     } else do {
       (new_addr, fl1) \<leftarrow> allocate 0 new_size (freelist m);
       if sint new_addr \<le> 0 then Some (new_addr, m\<lparr>freelist := fl1\<rparr>, k)
       else case sys_mremap K old_address old_size new_size
                   (flags OR MREMAP_MAYMOVE OR MREMAP_FIXED) new_addr k of
              (Inl e, k') \<Rightarrow> None
            | (Inr result, k') \<Rightarrow> do {
                fl2 \<leftarrow> (if \<not> flag_set flags MREMAP_DONTUNMAP
                       then deallocate (ucast old_address) old_size fl1
                       else Some fl1);
                ASSERT (result = new_addr);
                Some (result, m\<lparr>freelist := fl2\<rparr>, k')
              }
     }
   }"

text \<open>The dispatch on the guest's mode; 64-bit guests go to the kernel directly.\<close>

definition libc_result :: "u64 + u64 \<Rightarrow> u64" where
  "libc_result r = (case r of Inl e \<Rightarrow> MAP_FAILED | Inr a \<Rightarrow> a)"

definition mapper_map :: "bool \<Rightarrow> 'k kernel \<Rightarrow> u64 \<Rightarrow> u64 \<Rightarrow> u32 \<Rightarrow> u32 \<Rightarrow> u32 \<Rightarrow> u64 \<Rightarrow> mapper \<Rightarrow> 'k
    \<Rightarrow> (u64 \<times> mapper \<times> 'k) option" where
  "mapper_map mode32 K addr sz prot flags fd offset m k =
     (if mode32 then map32 K addr sz prot flags fd offset m k
      else case sys_mmap K addr sz prot flags fd offset k of (r, k') \<Rightarrow> Some (libc_result r, m, k'))"

definition mapper_unmap :: "bool \<Rightarrow> 'k kernel \<Rightarrow> u64 \<Rightarrow> u64 \<Rightarrow> mapper \<Rightarrow> 'k
    \<Rightarrow> (int \<times> mapper \<times> 'k) option" where
  "mapper_unmap mode32 K addr sz m k =
     (if mode32 then unmap32 K addr sz m k
      else case sys_munmap K addr sz k of
             (Inr _, k') \<Rightarrow> Some (0, m, k') | (Inl e, k') \<Rightarrow> Some (- 1, m, k'))"

definition mapper_remap :: "bool \<Rightarrow> 'k kernel \<Rightarrow> u64 \<Rightarrow> u64 \<Rightarrow> u64 \<Rightarrow> u32 \<Rightarrow> u64 \<Rightarrow> mapper \<Rightarrow> 'k
    \<Rightarrow> (u64 \<times> mapper \<times> 'k) option" where
  "mapper_remap mode32 K old_address old_size new_size flags new_address m k =
     (if mode32 then remap32 K old_address old_size new_size flags new_address m k
      else if flag_set flags MREMAP_FIXED \<and> new_address \<le> 0xFFFFFFFF
      then remap32 K old_address old_size new_size flags new_address m k
      else case sys_mremap K old_address old_size new_size flags new_address k of
             (r, k') \<Rightarrow> do {
               ASSERT (libc_result r > 0xFFFFFFFF);
               Some (libc_result r, m, k')
             })"

definition shm_size :: "u64 \<Rightarrow> u64" where
  "shm_size sz = (if sz AND 0xFFF \<noteq> 0 then round_page sz else sz)"

definition top_bits_ok :: "u64 \<Rightarrow> bool" where
  "top_bits_ok a \<longleftrightarrow> (let top_bits = drop_bit 32 a in top_bits = 0 \<or> top_bits = 0xFFFFFFFF)"

text \<open>
  \<^verbatim>\<open>shmat32\<close> returns the result code and, on success, the address written to
  \<^verbatim>\<open>*result_address\<close>.
\<close>

definition shmat32 :: "'k kernel \<Rightarrow> u32 \<Rightarrow> u64 \<Rightarrow> u32 \<Rightarrow> mapper \<Rightarrow> 'k
    \<Rightarrow> (int \<times> u32 option \<times> mapper \<times> 'k) option" where
  "shmat32 K shmid address flags m k = (
     case sys_shm_segsz K shmid k of
       None \<Rightarrow> Some (- EINVAL, None, m, k)
     | Some segsz \<Rightarrow> (
         let sz = shm_size segsz;
             attach = (\<lambda>our_mem fl shm_mem k'. do {
               ASSERT (shm_mem = our_mem);
               ASSERT (top_bits_ok shm_mem);
               Some (0, Some (ucast shm_mem),
                     m\<lparr>freelist := fl,
                       page_to_shmid := (page_to_shmid m)(ucast shm_mem AND NOT 0xFFF \<mapsto> shmid)\<rparr>, k')
             }) in do {
           ASSERT (sz < 0xFFFFFFFF);
           if address = 0 then do {
             (our_mem, fl) \<leftarrow> allocate 0 sz (freelist m);
             if sint our_mem < 0 then Some (sint our_mem, None, m\<lparr>freelist := fl\<rparr>, k)
             else case sys_shmat K shmid our_mem flags k of
                    (r, k') \<Rightarrow> attach our_mem fl (libc_result r) k'
           } else do {
             ASSERT (address + sz \<le> 0xFFFFFFFF);
             case sys_shmat K shmid address flags k of
               (Inl e, k') \<Rightarrow> Some (- 1, None, m, k')
             | (Inr shm_mem, k') \<Rightarrow> do {
                 ASSERT (top_bits_ok shm_mem);
                 (our_mem, fl) \<leftarrow> allocate (ucast shm_mem) sz (freelist m);
                 ASSERT (\<not> sint our_mem < 0);
                 attach our_mem fl shm_mem k'
               }
           }
         }))"

definition shmdt32 :: "'k kernel \<Rightarrow> u64 \<Rightarrow> mapper \<Rightarrow> 'k \<Rightarrow> (int \<times> mapper \<times> 'k) option" where
  "shmdt32 K address m k = (
     let page = ucast address AND NOT 0xFFF in
     case page_to_shmid m page of
       None \<Rightarrow> Some (- EINVAL, m, k)
     | Some shmid \<Rightarrow> do {
         fl \<leftarrow> (case sys_shm_segsz K shmid k of
                 Some segsz \<Rightarrow> deallocate (ucast address) (shm_size segsz) (freelist m)
               | None \<Rightarrow> Some (freelist m));
         let m1 = m\<lparr>freelist := fl\<rparr>;
         case sys_shmdt K address k of
           (Inr _, k') \<Rightarrow> Some (0, m1\<lparr>page_to_shmid := (page_to_shmid m1)(page := None)\<rparr>, k')
         | (Inl e, k') \<Rightarrow> Some (- 1, m1, k')
       })"

section \<open>What the proofs assume of the kernel\<close>

definition span :: "u64 \<Rightarrow> u64 \<Rightarrow> nat set" where
  "span a sz = {unat a..<unat a + unat sz}"

text \<open>
  \<open>mapped k\<close> is the set of addresses mapped in kernel state \<open>k\<close>. A successful fixed
  \<^verbatim>\<open>mmap\<close> returns the address it was given, which is page aligned, and maps the range;
  without \<^verbatim>\<open>MAP_FIXED\<close> it only succeeds on an unmapped range. A successful
  \<^verbatim>\<open>munmap\<close> needs an aligned address and unmaps the range. A failed call changes
  nothing.
\<close>

definition mmap_spec :: "'k kernel \<Rightarrow> ('k \<Rightarrow> nat set) \<Rightarrow> bool" where
  "mmap_spec K mapped \<longleftrightarrow>
     (\<forall>a sz p f fd off k e k'. sys_mmap K a sz p f fd off k = (Inl e, k') \<longrightarrow> mapped k' = mapped k)
   \<and> (\<forall>a sz p f fd off k r k'. sys_mmap K a sz p f fd off k = (Inr r, k')
        \<and> (flag_set f MAP_FIXED \<or> flag_set f MAP_FIXED_NOREPLACE) \<longrightarrow>
        r = a \<and> page_aligned (unat a) \<and> 0 < unat sz \<and> mapped k' = mapped k \<union> span a sz
        \<and> (\<not> flag_set f MAP_FIXED \<longrightarrow> span a sz \<inter> mapped k = {}))"

definition munmap_spec :: "'k kernel \<Rightarrow> ('k \<Rightarrow> nat set) \<Rightarrow> bool" where
  "munmap_spec K mapped \<longleftrightarrow>
     (\<forall>a sz k e k'. sys_munmap K a sz k = (Inl e, k') \<longrightarrow> mapped k' = mapped k)
   \<and> (\<forall>a sz k u k'. sys_munmap K a sz k = (Inr u, k') \<longrightarrow>
        page_aligned (unat a) \<and> 0 < unat sz \<and> mapped k' = mapped k - span a sz)"

text \<open>
  \<^verbatim>\<open>mremap(2)\<close> with \<^verbatim>\<open>MREMAP_FIXED\<close> and without \<^verbatim>\<open>MREMAP_DONTUNMAP\<close> moves the
  mapping to the given address; the old range must be mapped.
\<close>

definition mremap_spec :: "'k kernel \<Rightarrow> ('k \<Rightarrow> nat set) \<Rightarrow> bool" where
  "mremap_spec K mapped \<longleftrightarrow>
     (\<forall>old osz nsz f new k r k'. sys_mremap K old osz nsz f new k = (Inr r, k')
        \<and> flag_set f MREMAP_FIXED \<and> \<not> flag_set f MREMAP_DONTUNMAP \<longrightarrow>
        r = new \<and> page_aligned (unat old) \<and> span old osz \<subseteq> mapped k
        \<and> mapped k' = mapped k - span old osz \<union> span new nsz)"

definition kernel_spec :: "'k kernel \<Rightarrow> ('k \<Rightarrow> nat set) \<Rightarrow> bool" where
  "kernel_spec K mapped \<longleftrightarrow> mmap_spec K mapped \<and> munmap_spec K mapped \<and> mremap_spec K mapped"

text \<open>
  The invariant of the mapper: the free list is well formed, address 0 is not free, and
  no free address is mapped.
\<close>

definition tracks :: "('k \<Rightarrow> nat set) \<Rightarrow> mapper \<Rightarrow> 'k \<Rightarrow> bool" where
  "tracks mapped m k \<longleftrightarrow> wf_free (freelist m) \<and> 0 \<notin> free_set (freelist m)
     \<and> free_set (freelist m) \<inter> mapped k = {}"

lemma page_aligned_round_page [simp]: "page_aligned (unat (round_page sz))"
  by (simp add: round_page_def unat_page_floor page_aligned_def)

lemma region_span:
  "0 < unat sz \<Longrightarrow> region a sz = span (ucast a) sz"
  by (auto simp: region_def span_def)

lemma span_u32:
  assumes "unat (a :: u64) < 4294967296"
  shows "span (ucast (ucast a :: u32)) sz = span a sz"
  using assms by (simp add: ucast_u64_u32_u64)

section \<open>The mapper keeps the free list in step with the kernel\<close>

lemma alloc_request_u64:
  assumes "page_aligned (unat a)" and "0 < unat sz" and "page_aligned (unat sz)"
    and "unat (a :: u64) + unat sz \<le> 4294967296"
  shows "alloc_request (ucast a) sz" and "region (ucast a) sz = span a sz"
    and "ucast (ucast a :: u32) = a" and "unat (ucast a :: u32) = unat a"
proof -
  have a: "unat a < 4294967296" using assms(2,4) by linarith
  then show ua: "unat (ucast a :: u32) = unat a" by (simp add: unat_ucast_u64_u32)
  show "ucast (ucast a :: u32) = a" using a by (rule ucast_u64_u32_u64)
  then show "region (ucast a) sz = span a sz" by (simp add: region_span assms(2))
  show "alloc_request (ucast a) sz" using assms ua by (simp add: alloc_request_def)
qed

lemma noreplace_set: "flag_set (f OR MAP_FIXED_NOREPLACE) MAP_FIXED_NOREPLACE"
proof -
  have "bit ((f OR MAP_FIXED_NOREPLACE) AND MAP_FIXED_NOREPLACE) 20"
    by (simp add: MAP_FIXED_NOREPLACE_def bit_simps)
  then show ?thesis by auto
qed

lemma mmap_success:
  assumes "mmap_spec K mapped" and "sys_mmap K a sz p f fd off k = (Inr r, k')"
    and "flag_set f MAP_FIXED \<or> flag_set f MAP_FIXED_NOREPLACE"
  shows "r = a \<and> page_aligned (unat a) \<and> 0 < unat sz \<and> mapped k' = mapped k \<union> span a sz"
  using assms unfolding mmap_spec_def by metis

lemma mmap_failure:
  "mmap_spec K mapped \<Longrightarrow> sys_mmap K a sz p f fd off k = (Inl e, k') \<Longrightarrow> mapped k' = mapped k"
  unfolding mmap_spec_def by metis

text \<open>A mapping without a fixed address, in every outcome of the system call.\<close>

lemma map32_any:
  assumes spec: "mmap_spec K mapped" and tr: "tracks mapped m k"
    and flags: "\<not> flag_set flags MAP_FIXED" "\<not> flag_set flags MAP_FIXED_NOREPLACE"
    and pos: "0 < unat (round_page sz)"
  shows "\<exists>r m' k'. map32 K addr sz prot flags fd off m k = Some (r, m', k') \<and> tracks mapped m' k'
     \<and> (mapped k' = mapped k
        \<or> span r (round_page sz) \<inter> mapped k = {} \<and> mapped k' = mapped k \<union> span r (round_page sz))"
proof -
  let ?sz = "round_page sz" and ?f = "flags OR MAP_FIXED_NOREPLACE"
  from tr have wf: "wf_free (freelist m)" and nz: "0 \<notin> free_set (freelist m)"
    and dis: "free_set (freelist m) \<inter> mapped k = {}" by (simp_all add: tracks_def)
  from fl.alloc_any [OF wf nz pos]
  consider (full) "allocate 0 ?sz (freelist m) = Some (- ENOMEM, freelist m)"
    | (got) a fl where "allocate 0 ?sz (freelist m) = Some (ucast a, fl)" "alloc_request a ?sz"
        "region a ?sz \<subseteq> free_set (freelist m)" "wf_free fl"
        "free_set fl = free_set (freelist m) - region a ?sz"
    by auto
  then show ?thesis
  proof cases
    case full
    have "sint (- ENOMEM) < 0" by (simp add: ENOMEM_def)
    with full flags tr show ?thesis by (simp add: map32_def Let_def tracks_def)
  next
    case got
    let ?m = "m\<lparr>freelist := fl\<rparr>"
    have reg: "region a ?sz = span (ucast a) ?sz" by (rule region_span [OF pos])
    obtain r k' where call: "sys_mmap K (ucast a) ?sz prot ?f fd off k = (r, k')" by force
    show ?thesis
    proof (cases r)
      case (Inl e)
      with call have "mapped k' = mapped k" using mmap_failure [OF spec] by simp
      with got dis nz have "tracks mapped ?m k'" by (auto simp: tracks_def)
      with got call Inl flags \<open>mapped k' = mapped k\<close> show ?thesis
        by (simp add: map32_def Let_def)
    next
      case (Inr x)
      with call mmap_success [OF spec _ disjI2 [OF noreplace_set]]
      have x: "x = ucast a" "mapped k' = mapped k \<union> span (ucast a) ?sz" by simp_all
      with got dis nz reg have "tracks mapped ?m k'" by (auto simp: tracks_def)
      moreover have "span (ucast a) ?sz \<inter> mapped k = {}" using got dis reg by auto
      ultimately show ?thesis using got call Inr x flags by (simp add: map32_def Let_def)
    qed
  qed
qed

text \<open>A fixed mapping over a range the free list can take back.\<close>

lemma map32_fixed_ok:
  assumes spec: "mmap_spec K mapped" and tr: "tracks mapped m k"
    and fixed: "flag_set flags MAP_FIXED" and addr: "addr < 0xFFFFFFFF" "addr \<noteq> 0"
    and rel: "releasable (ucast addr) (round_page sz) (freelist m)"
  shows "\<exists>r m' k'. map32 K addr sz prot flags fd off m k = Some (r, m', k') \<and> tracks mapped m' k'
     \<and> (mapped k' = mapped k \<or> r = addr \<and> mapped k' = mapped k \<union> span addr (round_page sz))"
proof -
  let ?sz = "round_page sz"
  from tr have wf: "wf_free (freelist m)" and nz: "0 \<notin> free_set (freelist m)"
    and dis: "free_set (freelist m) \<inter> mapped k = {}" by (simp_all add: tracks_def)
  obtain r k' where call: "sys_mmap K addr ?sz prot flags fd off k = (r, k')" by force
  show ?thesis
  proof (cases r)
    case (Inl e)
    with call have "mapped k' = mapped k" using mmap_failure [OF spec] by simp
    with tr call Inl fixed addr show ?thesis by (simp add: map32_def Let_def tracks_def)
  next
    case (Inr x)
    with call mmap_success [OF spec _ disjI1 [OF fixed]]
    have x: "x = addr" "0 < unat ?sz" "mapped k' = mapped k \<union> span addr ?sz" by simp_all
    have small: "unat addr < 4294967296" using addr(1) by (simp add: word_less_nat_alt)
    have up: "ucast (ucast addr :: u32) = addr" by (rule ucast_u64_u32_u64 [OF small])
    have reg: "region (ucast addr) ?sz = span addr ?sz" by (simp add: region_span x(2) up)
    have "(ucast addr :: u32) \<noteq> 0" using up addr(2) by auto
    from fl.release_then_alloc [OF wf rel this] obtain l1 l2 where
      l: "deallocate (ucast addr) ?sz (freelist m) = Some l1"
         "allocate (ucast addr) ?sz l1 = Some (addr, l2)" "wf_free l2"
         "free_set l2 = free_set (freelist m) - span addr ?sz"
      by (auto simp: up reg)
    then have "tracks mapped (m\<lparr>freelist := l2\<rparr>) k'"
      using dis nz x by (auto simp: tracks_def)
    with l call Inr x fixed addr show ?thesis by (simp add: map32_def Let_def)
  qed
qed

lemma unmap32_ok:
  assumes spec: "munmap_spec K mapped" and tr: "tracks mapped m k"
    and addr: "addr < 0xFFFFFFFF" "addr \<noteq> 0"
    and top: "unat addr + unat (round_page sz) < 4294967296"
  shows "\<exists>r m' k'. unmap32 K addr sz m k = Some (r, m', k') \<and> tracks mapped m' k'
     \<and> (if r = 0 \<and> mapped k' \<noteq> mapped k then mapped k' = mapped k - span addr (round_page sz)
        else mapped k' = mapped k)"
proof -
  let ?sz = "round_page sz"
  from tr have wf: "wf_free (freelist m)" and nz: "0 \<notin> free_set (freelist m)"
    and dis: "free_set (freelist m) \<inter> mapped k = {}" by (simp_all add: tracks_def)
  obtain r k' where call: "sys_munmap K addr ?sz k = (r, k')" by force
  show ?thesis
  proof (cases r)
    case (Inl e)
    with call spec have "mapped k' = mapped k" by (auto simp: munmap_spec_def)
    with tr call Inl addr show ?thesis by (simp add: unmap32_def Let_def tracks_def)
  next
    case (Inr u)
    with call spec have s: "page_aligned (unat addr)" "0 < unat ?sz" "mapped k' = mapped k - span addr ?sz"
      unfolding munmap_spec_def by blast+
    note rq = alloc_request_u64 [OF s(1,2) page_aligned_round_page less_imp_le [OF top]]
    from fl.release_sound [OF wf rq(1)] top rq(4) obtain l where
      l: "deallocate (ucast addr) ?sz (freelist m) = Some l" "wf_free l"
         "free_set l \<subseteq> free_set (freelist m) \<union> span addr ?sz"
      by (auto simp: rq(2))
    have "0 \<notin> span addr ?sz" using addr(2) by (simp add: span_def unat_0_iff)
    with l dis nz s(3) have "tracks mapped (m\<lparr>freelist := l\<rparr>) k'"
      by (auto simp: tracks_def)
    with l call Inr s(3) addr show ?thesis by (simp add: unmap32_def Let_def)
  qed
qed

text \<open>A movable \<^verbatim>\<open>mremap\<close>: the new place comes from the free list, the old one returns to it.\<close>

lemma mremap_flags:
  "\<not> flag_set f MREMAP_DONTUNMAP \<Longrightarrow> \<not> flag_set (f OR MREMAP_MAYMOVE OR MREMAP_FIXED) MREMAP_DONTUNMAP"
  "flag_set (f OR MREMAP_MAYMOVE OR MREMAP_FIXED) MREMAP_FIXED"
proof -
  have "bit ((f OR MREMAP_MAYMOVE OR MREMAP_FIXED) AND MREMAP_FIXED) 1"
    by (simp add: MREMAP_FIXED_def bit_simps)
  then show "flag_set (f OR MREMAP_MAYMOVE OR MREMAP_FIXED) MREMAP_FIXED" by auto
  show "\<not> flag_set (f OR MREMAP_MAYMOVE OR MREMAP_FIXED) MREMAP_DONTUNMAP"
    if "\<not> flag_set f MREMAP_DONTUNMAP"
    using that by (simp add: MREMAP_FIXED_def MREMAP_MAYMOVE_def MREMAP_DONTUNMAP_def
        bit.conj_disj_distrib2)
qed

lemma remap32_move:
  assumes spec: "mremap_spec K mapped" and tr: "tracks mapped m k"
    and flags: "\<not> flag_set flags MREMAP_FIXED" "flag_set flags MREMAP_MAYMOVE"
      "\<not> flag_set flags MREMAP_DONTUNMAP"
    and run: "remap32 K old osz nsz flags new m k = Some (r, m', k')" and ok: "0 < sint r"
    and pos: "0 < unat (round_page osz)" "0 < unat (round_page nsz)"
    and top: "unat old + unat (round_page osz) < 4294967296"
  shows "tracks mapped m' k' \<and> span r (round_page nsz) \<inter> mapped k = {}
     \<and> mapped k' = mapped k - span old (round_page osz) \<union> span r (round_page nsz)"
proof -
  let ?o = "round_page osz" and ?n = "round_page nsz"
  let ?f = "flags OR MREMAP_MAYMOVE OR MREMAP_FIXED"
  from tr have wf: "wf_free (freelist m)" and nz: "0 \<notin> free_set (freelist m)"
    and dis: "free_set (freelist m) \<inter> mapped k = {}" by (simp_all add: tracks_def)
  from run flags obtain na fl1 where na: "allocate 0 ?n (freelist m) = Some (na, fl1)"
    by (auto simp: remap32_def Let_def split: if_splits bind_splits)
  with run flags ok have step: "old \<noteq> 0" "na = r"
    "\<exists>k1 fl2. sys_mremap K old ?o ?n ?f na k = (Inr na, k1)
       \<and> deallocate (ucast old) ?o fl1 = Some fl2 \<and> m' = m\<lparr>freelist := fl2\<rparr> \<and> k' = k1"
    by (auto simp: remap32_def Let_def split: if_splits bind_splits prod.splits sum.splits)
  then obtain fl2 where call: "sys_mremap K old ?o ?n ?f r k = (Inr r, k')"
    and fl2: "deallocate (ucast old) ?o fl1 = Some fl2" and m': "m' = m\<lparr>freelist := fl2\<rparr>" by auto
  have "r \<noteq> - ENOMEM" using ok by (auto simp: ENOMEM_def)
  with fl.fresh_disjoint [OF wf nz pos(2) _ na [unfolded step(2)]] obtain a where
    a: "r = ucast a" "region a ?n \<subseteq> free_set (freelist m)" "wf_free fl1"
       "free_set fl1 = free_set (freelist m) - region a ?n" by auto
  then have reg: "region a ?n = span r ?n" by (simp add: region_span pos(2))
  from spec call mremap_flags flags(3)
  have k': "page_aligned (unat old)" "span old ?o \<subseteq> mapped k" "mapped k' = mapped k - span old ?o \<union> span r ?n"
    unfolding mremap_spec_def by metis+
  note rq = alloc_request_u64 [OF k'(1) pos(1) page_aligned_round_page less_imp_le [OF top]]
  from fl.release_sound [OF a(3) rq(1)] top rq(4) fl2 have
    l: "wf_free fl2" "free_set fl2 \<subseteq> free_set fl1 \<union> span old ?o" by (auto simp: rq(2))
  have "0 \<notin> span old ?o" using step(1) by (simp add: span_def unat_0_iff)
  moreover have new: "span r ?n \<inter> mapped k = {}" using a(2) dis reg by auto
  ultimately have "tracks mapped m' k'"
    using l a(4) nz dis reg k'(2,3) by (auto simp: tracks_def m')
  with new k'(3) show ?thesis by blast
qed

section \<open>Guest memory calls as a transition system\<close>

text \<open>
  The states a 32-bit guest can reach with \<^verbatim>\<open>mmap\<close>, \<^verbatim>\<open>munmap\<close> and \<^verbatim>\<open>mremap\<close>:
  mappings anywhere, fixed mappings and unmappings that the free list can represent
  (non-null, below the last page of the address space) and movable remappings.
\<close>

inductive mem_step :: "'k kernel \<Rightarrow> mapper \<times> 'k \<Rightarrow> mapper \<times> 'k \<Rightarrow> bool" for K where
  map_any: "\<not> flag_set flags MAP_FIXED \<Longrightarrow> \<not> flag_set flags MAP_FIXED_NOREPLACE \<Longrightarrow>
     0 < unat (round_page sz) \<Longrightarrow> map32 K addr sz prot flags fd off m k = Some (r, m', k') \<Longrightarrow>
     mem_step K (m, k) (m', k')"
| map_fixed: "flag_set flags MAP_FIXED \<Longrightarrow> addr < 0xFFFFFFFF \<Longrightarrow> addr \<noteq> 0 \<Longrightarrow>
     releasable (ucast addr) (round_page sz) (freelist m) \<Longrightarrow>
     map32 K addr sz prot flags fd off m k = Some (r, m', k') \<Longrightarrow> mem_step K (m, k) (m', k')"
| unmap: "addr < 0xFFFFFFFF \<Longrightarrow> addr \<noteq> 0 \<Longrightarrow> unat addr + unat (round_page sz) < 4294967296 \<Longrightarrow>
     unmap32 K addr sz m k = Some (i, m', k') \<Longrightarrow> mem_step K (m, k) (m', k')"
| remap: "\<not> flag_set flags MREMAP_FIXED \<Longrightarrow> flag_set flags MREMAP_MAYMOVE \<Longrightarrow>
     \<not> flag_set flags MREMAP_DONTUNMAP \<Longrightarrow> 0 < unat (round_page osz) \<Longrightarrow>
     0 < unat (round_page nsz) \<Longrightarrow> unat old + unat (round_page osz) < 4294967296 \<Longrightarrow>
     remap32 K old osz nsz flags new m k = Some (r, m', k') \<Longrightarrow> 0 < sint r \<Longrightarrow>
     mem_step K (m, k) (m', k')"

inductive mem_reach :: "'k kernel \<Rightarrow> mapper \<times> 'k \<Rightarrow> mapper \<times> 'k \<Rightarrow> bool" for K s where
  start: "mem_reach K s s"
| step: "mem_reach K s t \<Longrightarrow> mem_step K t u \<Longrightarrow> mem_reach K s u"

inductive_cases mem_stepE: "mem_step K (m, k) (m', k')"

lemma mem_step_tracks:
  assumes "kernel_spec K mapped" and "tracks mapped m k" and "mem_step K (m, k) (m', k')"
  shows "tracks mapped m' k'"
  using assms(3)
proof (cases rule: mem_step.cases)
  case (map_any flags sz addr prot fd off r)
  with map32_any [of K mapped m k flags sz addr prot fd off] assms show ?thesis
    by (auto simp: kernel_spec_def)
next
  case (map_fixed flags addr sz prot fd off r)
  with map32_fixed_ok [of K mapped m k flags addr sz prot fd off] assms show ?thesis
    by (auto simp: kernel_spec_def)
next
  case (unmap addr sz i)
  with unmap32_ok [of K mapped m k addr sz] assms show ?thesis
    by (auto simp: kernel_spec_def split: if_splits)
next
  case (remap flags osz nsz old new r)
  with remap32_move [of K mapped m k flags old osz nsz new r m' k'] assms show ?thesis
    by (simp add: kernel_spec_def)
qed

lemma mem_reach_tracks:
  assumes "mem_reach K s t" and "kernel_spec K mapped" and "tracks mapped (fst s) (snd s)"
  shows "tracks mapped (fst t) (snd t)"
  using assms
proof (induction rule: mem_reach.induct)
  case (step t u)
  then show ?case by (metis mem_step_tracks prod.collapse)
qed

definition mapper_init :: "u64 \<Rightarrow> mapper" where
  "mapper_init mmap_min = \<lparr>freelist = Freelist_init mmap_min, page_to_shmid = Map.empty\<rparr>"

text \<open>
  A concrete kernel: its state is the set of mapped addresses, every well-formed call
  succeeds.
\<close>

definition set_kernel :: "nat set kernel" where
  "set_kernel = \<lparr>
     sys_mmap = (\<lambda>a sz p f fd off k.
       if page_aligned (unat a) \<and> 0 < unat sz \<and> (flag_set f MAP_FIXED \<or> span a sz \<inter> k = {})
       then (Inr a, k \<union> span a sz) else (Inl 22, k)),
     sys_munmap = (\<lambda>a sz k.
       if page_aligned (unat a) \<and> 0 < unat sz then (Inr (), k - span a sz) else (Inl 22, k)),
     sys_mremap = (\<lambda>old osz nsz f new k.
       if page_aligned (unat old) \<and> span old osz \<subseteq> k
       then (if flag_set f MREMAP_FIXED then (Inr new, k - span old osz \<union> span new nsz)
             else if span old nsz \<inter> (k - span old osz) = {}
             then (Inr old, k - span old osz \<union> span old nsz) else (Inl 12, k))
       else (Inl 14, k)),
     sys_shm_segsz = (\<lambda>id k. Some 0x1000),
     sys_shmat = (\<lambda>id a f k. (Inr a, k \<union> span a 0x1000)),
     sys_shmdt = (\<lambda>a k. (Inl 22, k)) \<rparr>"

lemma set_kernel_spec: "kernel_spec set_kernel id"
  by (auto simp: kernel_spec_def mmap_spec_def munmap_spec_def mremap_spec_def set_kernel_def
      split: if_splits)

lemma tracks_init: "page_aligned (unat mm) \<Longrightarrow> 0 < unat mm \<Longrightarrow> unat mm < 4294967296 \<Longrightarrow>
    tracks mapped (mapper_init mm) k \<longleftrightarrow> {unat mm..0xFFFFFFFF} \<inter> mapped k = {}"
  by (auto simp: tracks_def mapper_init_def Freelist_init_def wf_free_Cons node_ok_def
      page_aligned_def node_set_def unat_ucast_u64_u32)

lemmas mapper_eval = mapper_init_def Freelist_init_def set_kernel_def map32_def unmap32_def remap32_def
  Let_def round_page_def allocate_def allocate_at_def deallocate_def consolidate.simps mergeable_def
  merge_nodes_def max_def MAP_FIXED_def MAP_FIXED_NOREPLACE_def MREMAP_FIXED_def
  MREMAP_MAYMOVE_def MREMAP_DONTUNMAP_def page_aligned_def span_def ENOMEM_def node_size_def

section \<open>Properties\<close>







section \<open>Where the mapper falls short\<close>

text \<open>A guest that maps the top 256 MiB and then replaces one page of it with
  \<^verbatim>\<open>MAP_FIXED\<close> aborts the emulator: the range follows the last free node, so
  \<^verbatim>\<open>deallocate\<close> does not free it and \<^verbatim>\<open>allocate\<close> fails.\<close>

lemma map32_fixed_top_aborts:
  "(do { (_, m, k) \<leftarrow> map32 set_kernel 0xF0000000 0x10000000 3 0x32 0 0 (mapper_init 0x10000) {};
         Some (map32 set_kernel 0xF0000000 0x1000 3 0x32 0 0 m k) }) = Some None"
  by (simp add: mapper_eval)

text \<open>Growing a mapping in place (neither \<^verbatim>\<open>MREMAP_MAYMOVE\<close> nor \<^verbatim>\<open>MREMAP_FIXED\<close>,
  no new address) aborts although the kernel succeeds: the result is compared with the
  unused fifth argument.\<close>

lemma remap32_in_place_aborts:
  "fst (sys_mremap set_kernel 0x8000 0x1000 0x2000 0 0 {0x8000..<0x9000}) = Inr 0x8000
   \<and> remap32 set_kernel 0x8000 0x1000 0x2000 0 0 (mapper_init 0x10000) {0x8000..<0x9000} = None"
  by (auto simp: mapper_eval)

text \<open>A failed \<^verbatim>\<open>mmap\<close> keeps the range it took from the free list: the kernel has
  something mapped at the chosen address, the guest sees an error, and the pages are not
  free any more.\<close>

lemma map32_leaks_on_failure:
  "map_option (\<lambda>(r, m, k). (r, getRegions (freelist m)))
     (map32 set_kernel 0 0x1000 3 0x22 0 0 (mapper_init 0x10000) {0x10000})
   = Some (- 22, [(0x11000, 0xFFFFFFFF)])"
  by (simp add: mapper_eval)

text \<open>\<^verbatim>\<open>shmdt32\<close> gives the pages back to the free list before the kernel has detached
  them: when the call fails they are listed as free and still mapped.\<close>

lemma shmdt32_frees_on_failure:
  "map_option (\<lambda>(r, m, k). (r, getRegions (freelist m), 0x20000 \<in> k))
     (do { (_, _, m, k) \<leftarrow> shmat32 set_kernel 7 0x20000 0 (mapper_init 0x10000) {};
           shmdt32 set_kernel 0x20000 m k })
   = Some (- 1, [(0x10000, 0xFFFFFFFF)], True)"
  by (simp add: mapper_eval shmat32_def shmdt32_def shm_size_def top_bits_ok_def libc_result_def)

end
