(* ===== verification/Brk.thy ===== *)
theory Brk
  imports Mapper
begin

text \<open>
  The guest's program break (\<^verbatim>\<open>hle/brk.cpp\<close>): a reserved range of
  \<^verbatim>\<open>g_max_brk_size\<close> bytes whose first \<^verbatim>\<open>g_current_brk_size\<close> bytes are committed,
  grown by doubling in \<^verbatim>\<open>BRK::set\<close>. The globals are the record \<open>brk\<close>; the memory
  calls go through the mapper (\<open>mapper_map\<close>).
\<close>

record brk =
  current_brk :: u64
  initial_brk :: u64
  current_brk_size :: u64
  max_brk_size :: u64

definition MAP_PRIVATE :: u32 where "MAP_PRIVATE = 2"
definition MAP_ANONYMOUS :: u32 where "MAP_ANONYMOUS = 0x20"
definition MAP_NORESERVE :: u32 where "MAP_NORESERVE = 0x4000"
definition PROT_NONE :: u32 where "PROT_NONE = 0"
definition PROT_RW :: u32 where "PROT_RW = 3"

definition size32 :: u64 where "size32 = 32 * 1024 * 1024"
definition size64 :: u64 where "size64 = 128 * 1024 * 1024"

definition brk_base :: "u64 \<Rightarrow> u64 \<Rightarrow> u64" where
  "brk_base config_base program_end =
     (if config_base \<noteq> 0 then config_base else program_end) AND NOT 0xFFF"

text \<open>The last step of both allocators: commit the first part and set the globals.\<close>

definition brk_commit :: "bool \<Rightarrow> 'k kernel \<Rightarrow> (u64 \<Rightarrow> bool) \<Rightarrow> u64 \<Rightarrow> u64 \<Rightarrow> u64 \<Rightarrow> mapper \<Rightarrow> 'k
    \<Rightarrow> (brk \<times> mapper \<times> 'k) option" where
  "brk_commit mode32 K ok base initial_size max_size m k = do {
     (cur, m, k) \<leftarrow> mapper_map mode32 K base initial_size PROT_RW
                     (MAP_PRIVATE OR MAP_ANONYMOUS OR MAP_FIXED) (- 1) 0 m k;
     ASSERT (ok cur);
     Some (\<lparr>current_brk = cur, initial_brk = cur, current_brk_size = initial_size,
            max_brk_size = max_size\<rparr>, m, k)
   }"

definition allocate32 :: "'k kernel \<Rightarrow> u64 \<Rightarrow> u64 \<Rightarrow> u64 \<Rightarrow> mapper \<Rightarrow> 'k
    \<Rightarrow> (brk \<times> mapper \<times> 'k) option" where
  "allocate32 K config_max config_base program_end m k = (
     let max_size = (if config_max = 0 then 1 * 1024 * 1024 * 1024 else config_max);
         initial_size = (if max_size < size32 then max_size else size32);
         base = brk_base config_base program_end;
         flags = MAP_ANONYMOUS OR MAP_PRIVATE in do {
       ASSERT (base \<le> 0xFFFFFFFF);
       (max_brk, m, k) \<leftarrow> mapper_map True K base max_size PROT_NONE
                          (flags OR MAP_FIXED_NOREPLACE) (- 1) 0 m k;
       (base, m, k) \<leftarrow>
         (if sint max_brk < 0 then do {
            (max_brk, m, k) \<leftarrow> mapper_map True K 0 max_size PROT_NONE flags (- 1) 0 m k;
            ASSERT (0 < sint max_brk);
            Some (max_brk, m, k)
          } else do {
            ASSERT (base = max_brk);
            Some (base, m, k)
          });
       brk_commit True K (\<lambda>cur. 0 \<le> sint cur) base initial_size max_size m k
     })"

text \<open>
  The retry loop of \<^verbatim>\<open>allocate64\<close>. \<^verbatim>\<open>brk_base += max_brk_size\<close> changes a variable
  that the next iteration overwrites, so every attempt asks for the same \<open>base\<close>.
\<close>

fun brk_reserve :: "nat \<Rightarrow> 'k kernel \<Rightarrow> u64 \<Rightarrow> u64 \<Rightarrow> mapper \<Rightarrow> 'k \<Rightarrow> (u64 \<times> mapper \<times> 'k) option" where
  "brk_reserve 0 K base max_size m k = None"
| "brk_reserve (Suc attempts) K base max_size m k = do {
     let flags = MAP_PRIVATE OR MAP_NORESERVE OR MAP_ANONYMOUS;
     (a, m, k) \<leftarrow> mapper_map False K base max_size PROT_NONE (flags OR MAP_FIXED_NOREPLACE) (- 1) 0 m k;
     if a \<noteq> MAP_FAILED then Some (a, m, k)
     else if attempts = 0 then do {
       (a, m, k) \<leftarrow> mapper_map False K 0 max_size PROT_NONE flags (- 1) 0 m k;
       ASSERT (a \<noteq> MAP_FAILED);
       Some (a, m, k)
     } else brk_reserve attempts K base max_size m k
   }"

definition allocate64 :: "'k kernel \<Rightarrow> u64 option \<Rightarrow> u64 \<Rightarrow> u64 \<Rightarrow> u64 \<Rightarrow> mapper \<Rightarrow> 'k
    \<Rightarrow> (brk \<times> mapper \<times> 'k) option" where
  "allocate64 K totalram config_max config_base program_end m k = (
     let max1 = (if config_max = 0
                 then (case totalram of Some r \<Rightarrow> drop_bit 1 r | None \<Rightarrow> 0) else config_max);
         max_size = (if max1 = 0 then 1 * 1024 * 1024 * 1024 else max1);
         initial_size = (if max_size < size64 then max_size else size64) in do {
       (base, m, k) \<leftarrow> brk_reserve 30 K (brk_base config_base program_end) max_size m k;
       brk_commit False K (\<lambda>cur. cur \<noteq> MAP_FAILED) base initial_size max_size m k
     })"

definition brk_allocate :: "bool \<Rightarrow> 'k kernel \<Rightarrow> u64 option \<Rightarrow> u64 \<Rightarrow> u64 \<Rightarrow> u64 \<Rightarrow> mapper \<Rightarrow> 'k
    \<Rightarrow> (brk \<times> mapper \<times> 'k) option" where
  "brk_allocate mode32 K totalram config_max config_base program_end m k =
     (if mode32 then allocate32 K config_max config_base program_end m k
      else allocate64 K totalram config_max config_base program_end m k)"

text \<open>\<^verbatim>\<open>BRK::set\<close>; \<open>grow_size\<close> is the size it commits.\<close>

definition grow_size :: "brk \<Rightarrow> u64" where
  "grow_size b = (
     let new_size = (current_brk b - initial_brk b) * 2 in
     if current_brk_size b < max_brk_size b \<and> new_size > max_brk_size b then max_brk_size b
     else new_size)"

definition brk_set :: "bool \<Rightarrow> 'k kernel \<Rightarrow> u64 \<Rightarrow> brk \<Rightarrow> mapper \<Rightarrow> 'k
    \<Rightarrow> (u64 \<times> brk \<times> mapper \<times> 'k) option" where
  "brk_set mode32 K new_brk b0 m k = (
     let b = (if new_brk = 0 then b0 else b0\<lparr>current_brk := new_brk\<rparr>);
         result = (if new_brk = 0 then current_brk b0 else new_brk) in
     if current_brk b > initial_brk b + current_brk_size b then do {
       let end_brk = initial_brk b + current_brk_size b;
       ASSERT (end_brk AND 0xFFF = 0);
       let new_size = grow_size b;
       let size_past_end = new_size - current_brk_size b;
       (new_map, m, k) \<leftarrow> mapper_map mode32 K end_brk size_past_end PROT_RW
                          (MAP_PRIVATE OR MAP_ANONYMOUS OR MAP_FIXED) (- 1) 0 m k;
       ASSERT (new_map = end_brk);
       Some (result, b\<lparr>current_brk_size := new_size\<rparr>, m, k)
     } else Some (result, b, m, k))"

section \<open>The invariant\<close>

definition brk_ok :: "brk \<Rightarrow> bool" where
  "brk_ok b \<longleftrightarrow> page_aligned (unat (initial_brk b)) \<and> page_aligned (unat (current_brk_size b))
     \<and> page_aligned (unat (max_brk_size b)) \<and> current_brk_size b \<le> max_brk_size b
     \<and> unat (initial_brk b) + unat (max_brk_size b) < 2 ^ 63
     \<and> initial_brk b \<le> current_brk b"

definition brk_committed :: "brk \<Rightarrow> bool" where
  "brk_committed b \<longleftrightarrow> unat (current_brk b) \<le> unat (initial_brk b) + unat (current_brk_size b)"

text \<open>System calls fail with an \<^verbatim>\<open>errno\<close> below 4096.\<close>

definition errno_spec :: "'k kernel \<Rightarrow> bool" where
  "errno_spec K \<longleftrightarrow> (\<forall>a sz p f fd off k e k'.
     sys_mmap K a sz p f fd off k = (Inl e, k') \<longrightarrow> 0 < unat e \<and> unat e < 4096)"

lemma page_aligned_iff: "a AND 0xFFF = (0 :: u64) \<longleftrightarrow> page_aligned (unat a)"
proof -
  have "a AND 0xFFF = take_bit 12 a" by (simp add: take_bit_eq_mask mask_numeral)
  then show ?thesis
    by (simp add: page_aligned_def take_bit_eq_mod unat_mod_distrib word_unat_eq_iff)
qed



lemma page_aligned_diff: "page_aligned a \<Longrightarrow> page_aligned b \<Longrightarrow> page_aligned (a - b)"
  by (simp add: page_aligned_def dvd_diff_nat flip: dvd_eq_mod_eq_0)

lemma round_page_aligned:
  assumes al: "page_aligned (unat sz)"
  shows "round_page sz = sz"
proof -
  from al obtain q where q: "unat sz = 4096 * q" by (auto simp: page_aligned_def)
  have "4096 * q < 4096 * 4503599627370496" using q unat_u64_less [of sz] by linarith
  then have "unat sz + 4095 < 2 ^ 64" using q by simp
  then have "unat (sz + 0xFFF) = unat sz + 4095" by (simp add: unat_word_ariths)
  then show ?thesis using q by (simp add: round_page_def word_unat_eq_iff unat_page_floor)
qed

lemma map_fixed_flags:
  "flag_set (MAP_PRIVATE OR MAP_ANONYMOUS OR MAP_FIXED) MAP_FIXED"
  by (simp add: MAP_PRIVATE_def MAP_ANONYMOUS_def MAP_FIXED_def)

lemma mapper_map_fixed:
  assumes spec: "mmap_spec K mapped" and errno: "errno_spec K" and fixed: "flag_set f MAP_FIXED"
    and run: "mapper_map mode32 K a sz p f fd off m k = Some (a, m', k')"
    and a: "page_aligned (unat a)"
  shows "mapped k' = mapped k \<union> span a (if mode32 then round_page sz else sz)"
proof -
  let ?sz = "if mode32 then round_page sz else sz"
  obtain r k1 where call: "sys_mmap K a ?sz p f fd off k = (r, k1)" by force
  show ?thesis
  proof (cases r)
    case (Inr x)
    with mmap_success [OF spec _ disjI1 [OF fixed]] call
    have "mapped k1 = mapped k \<union> span a ?sz" by blast
    moreover have "k' = k1" using run call Inr fixed
      by (auto simp: mapper_map_def map32_def Let_def split: if_splits bind_splits)
    ultimately show ?thesis by simp
  next
    case (Inl e)
    with call errno have e: "0 < unat e" "unat e < 4096" unfolding errno_spec_def by blast+
    have "a \<noteq> MAP_FAILED" using a by (auto simp: MAP_FAILED_def page_aligned_def unsigned_minus_1_eq_mask mask_numeral)
    with run call Inl fixed have "a = - e" "a < 0xFFFFFFFF"
      by (auto simp: mapper_map_def map32_def Let_def libc_result_def split: if_splits bind_splits)
    then have "unat (a + e) = 0" "unat a < 4294967296" by (simp_all add: word_less_nat_alt)
    then have False using e by (simp add: unat_word_ariths)
    then show ?thesis ..
  qed
qed

lemma unat_double: "unat x * 2 < 2 ^ 64 \<Longrightarrow> unat (x * 2) = 2 * unat x" for x :: u64
  by (simp add: unat_word_ariths)

lemma grow_size_ok:
  assumes ok: "brk_ok b" and cur: "page_aligned (unat (current_brk b))"
    and top: "unat (current_brk b) \<le> unat (initial_brk b) + unat (max_brk_size b)"
    and grow: "unat (initial_brk b) + unat (current_brk_size b) < unat (current_brk b)"
  shows "page_aligned (unat (grow_size b))" and "unat (current_brk_size b) < unat (grow_size b)"
    and "grow_size b \<le> max_brk_size b"
    and "unat (current_brk b) \<le> unat (initial_brk b) + unat (grow_size b)"
proof -
  let ?d = "current_brk b - initial_brk b"
  from ok have le: "unat (initial_brk b) \<le> unat (current_brk b)"
    and al: "page_aligned (unat (initial_brk b))" "page_aligned (unat (max_brk_size b))"
    and top63: "unat (initial_brk b) + unat (max_brk_size b) < 2 ^ 63"
    by (simp_all add: brk_ok_def word_le_nat_alt)
  from le have d: "unat ?d = unat (current_brk b) - unat (initial_brk b)"
    by (simp add: unat_sub word_le_nat_alt)
  then have "unat ?d * 2 < 2 ^ 64" using top top63 by simp
  then have d2: "unat (?d * 2) = 2 * unat ?d" by (rule unat_double)
  have pd: "page_aligned (unat ?d * 2)"
    using cur al(1) le d by (simp add: page_aligned_def mod_diff_eq [symmetric] dvd_eq_mod_eq_0 [symmetric])
  have sz: "unat (current_brk_size b) < unat ?d" "unat ?d \<le> unat (max_brk_size b)"
    using d grow top by linarith+
  show "page_aligned (unat (grow_size b))" using al(2) pd d2 by (simp add: grow_size_def Let_def mult.commute)
  show "unat (current_brk_size b) < unat (grow_size b)" "grow_size b \<le> max_brk_size b"
    "unat (current_brk b) \<le> unat (initial_brk b) + unat (grow_size b)"
    using sz d2 d by (auto simp: grow_size_def Let_def word_less_nat_alt word_le_nat_alt)
qed

lemma brk_set_keeps:
  assumes spec: "mmap_spec K mapped" and errno: "errno_spec K"
    and ok: "brk_ok b" "brk_committed b"
    and heap: "span (initial_brk b) (current_brk_size b) \<subseteq> mapped k"
    and new: "new = 0 \<or> page_aligned (unat new) \<and> initial_brk b \<le> new
       \<and> unat new \<le> unat (initial_brk b) + unat (max_brk_size b)"
  shows "case brk_set mode32 K new b m k of
      None \<Rightarrow> (\<exists>sz. \<forall>m' k'. mapper_map mode32 K (initial_brk b + current_brk_size b) sz PROT_RW
          (MAP_PRIVATE OR MAP_ANONYMOUS OR MAP_FIXED) (- 1) 0 m k
            \<noteq> Some (initial_brk b + current_brk_size b, m', k'))
    | Some (r, b', m', k') \<Rightarrow> r = (if new = 0 then current_brk b else new) \<and> current_brk b' = r
        \<and> initial_brk b' = initial_brk b \<and> max_brk_size b' = max_brk_size b
        \<and> brk_ok b' \<and> brk_committed b' \<and> span (initial_brk b) (current_brk_size b') \<subseteq> mapped k'"
proof -
  let ?b = "if new = 0 then b else b\<lparr>current_brk := new\<rparr>"
  let ?stop = "initial_brk b + current_brk_size b"
  from ok have lt: "unat (initial_brk b) + unat (current_brk_size b) < 2 ^ 63"
    by (auto simp: brk_ok_def word_le_nat_alt)
  then have uend: "unat ?stop = unat (initial_brk b) + unat (current_brk_size b)"
    by (simp add: unat_word_ariths)
  have al: "page_aligned (unat ?stop)" using ok uend by (simp add: brk_ok_def page_aligned_add)
  have bok: "brk_ok ?b" using ok new by (auto simp: brk_ok_def)
  show ?thesis
  proof (cases "current_brk ?b > ?stop")
    case False
    then show ?thesis using bok heap ok uend
      by (auto simp: brk_set_def Let_def brk_committed_def word_less_nat_alt)
  next
    case True
    then have grow: "unat (initial_brk ?b) + unat (current_brk_size ?b) < unat (current_brk ?b)"
      using uend by (auto simp: word_less_nat_alt)
    then have new': "new \<noteq> 0" using ok(2) by (auto simp: brk_committed_def)
    note g = grow_size_ok [OF bok _ _ grow]
    let ?n = "grow_size ?b" and ?f = "MAP_PRIVATE OR MAP_ANONYMOUS OR MAP_FIXED"
    let ?past = "?n - current_brk_size b"
    have past: "unat ?past = unat ?n - unat (current_brk_size b)"
      using g(2) new new' by (simp add: unat_sub word_le_nat_alt less_imp_le)
    have pal: "page_aligned (unat ?past)" using g(1,2) new new' past ok
      by (simp add: brk_ok_def page_aligned_diff)
    show ?thesis
    proof (cases "\<exists>m' k'. mapper_map mode32 K ?stop ?past PROT_RW ?f (- 1) 0 m k = Some (?stop, m', k')")
      case False
      then have "brk_set mode32 K new b m k = None" using True new'
        by (auto simp: brk_set_def Let_def split: bind_splits)
      with False show ?thesis by auto
    next
      case ex: True
      then obtain m' k' where run: "mapper_map mode32 K ?stop ?past PROT_RW ?f (- 1) 0 m k = Some (?stop, m', k')"
        by blast
      have "mapped k' = mapped k \<union> span ?stop ?past"
        using mapper_map_fixed [OF spec errno map_fixed_flags run al] pal
        by (simp add: round_page_aligned)
      moreover have "span (initial_brk b) ?n \<subseteq> span (initial_brk b) (current_brk_size b) \<union> span ?stop ?past"
        using uend past g(2) new new' by (auto simp: span_def)
      ultimately have sub: "span (initial_brk b) ?n \<subseteq> mapped k'" using heap by blast
      have "brk_set mode32 K new b m k = Some (new, ?b\<lparr>current_brk_size := ?n\<rparr>, m', k')"
        using True new' run al by (simp add: brk_set_def Let_def page_aligned_iff)
      moreover have "brk_ok (?b\<lparr>current_brk_size := ?n\<rparr>)" "brk_committed (?b\<lparr>current_brk_size := ?n\<rparr>)"
        using bok g new new' by (auto simp: brk_ok_def brk_committed_def)
      ultimately show ?thesis using sub new' by simp
    qed
  qed
qed

section \<open>Properties\<close>


lemma set_kernel_errno: "errno_spec set_kernel"
  by (auto simp: errno_spec_def set_kernel_def split: if_splits)

definition example_brk :: brk where
  "example_brk = \<lparr>current_brk = 0x10000000, initial_brk = 0x10000000,
     current_brk_size = 0x2000000, max_brk_size = 0x40000000\<rparr>"

lemmas brk_eval = brk_set_def grow_size_def example_brk_def mapper_map_def libc_result_def Let_def
  MAP_PRIVATE_def MAP_ANONYMOUS_def MAP_FIXED_def PROT_RW_def MAP_FAILED_def


section \<open>Where the break falls short\<close>

text \<open>A break that is not page aligned makes the committed size unaligned; the next
  growth then fails the assertion on \<^verbatim>\<open>end_brk\<close> and the emulator exits.\<close>

lemma brk_unaligned_aborts:
  "(do { (_, b, m, k) \<leftarrow> brk_set False set_kernel 0x12000001 example_brk (mapper_init 0x10000) {};
         Some (current_brk_size b, brk_set False set_kernel 0x14000003 b m k) })
   = Some (0x4000002, None)"
  by (simp add: brk_eval set_kernel_def page_aligned_def)

text \<open>A break below the start of the heap is accepted and becomes the current break.\<close>

lemma brk_below_start_accepted:
  "map_option (\<lambda>(r, b, _). (r, current_brk b))
     (brk_set False set_kernel 0x1000 example_brk (mapper_init 0x10000) {}) = Some (0x1000, 0x1000)"
  by (simp add: brk_eval)

text \<open>All 30 attempts of \<^verbatim>\<open>allocate64\<close> ask for the same address: on a kernel that
  answers the same way each time the loop is one attempt followed by the fallback.\<close>

lemma brk_reserve_same_base:
  assumes "\<And>k. \<exists>e. sys_mmap K base sz PROT_NONE
     ((MAP_PRIVATE OR MAP_NORESERVE OR MAP_ANONYMOUS) OR MAP_FIXED_NOREPLACE) (- 1) 0 k = (Inl e, k)"
  shows "brk_reserve (Suc n) K base sz m k = brk_reserve 1 K base sz m k"
proof (induction n)
  case (Suc n)
  from assms [of k] obtain e where "sys_mmap K base sz PROT_NONE
     ((MAP_PRIVATE OR MAP_NORESERVE OR MAP_ANONYMOUS) OR MAP_FIXED_NOREPLACE) (- 1) 0 k = (Inl e, k)" ..
  then have "brk_reserve (Suc (Suc n)) K base sz m k = brk_reserve (Suc n) K base sz m k"
    by (simp add: mapper_map_def libc_result_def Let_def)
  with Suc show ?case by simp
qed simp

end
