(* ===== verification/SignalQueue.thy ===== *)
theory SignalQueue
  imports Felix_Prelude "HOL-Library.Multiset"
begin

text \<open>
  The queue of pending realtime signals (\<^verbatim>\<open>common/signal_queue.hpp\<close>): 32 bounded
  stacks of ten entries each, one per realtime signal, and a count of all entries.
  \<open>None\<close> is a failed assertion, an \<^verbatim>\<open>ERROR\<close> (both exit the process) or an array access out of
  bounds. The abstract specification is a multiset of pending signals.
\<close>

section \<open>Data\<close>

record 'i pending_signal =
  sig :: int
  info :: 'i

record 'i signal_single =
  index :: nat
  data :: "'i pending_signal list"

record 'i signal_queue =
  total_signals :: nat
  signal_queues :: "'i signal_single list"

definition single_init :: "'i pending_signal \<Rightarrow> 'i signal_single" where
  "single_init d = \<lparr>index = 0, data = replicate 10 d\<rparr>"

definition signal_queue_init :: "'i pending_signal \<Rightarrow> 'i signal_queue" where
  "signal_queue_init d = \<lparr>total_signals = 0, signal_queues = replicate 32 (single_init d)\<rparr>"

section \<open>Operations\<close>

definition single_push :: "'i pending_signal \<Rightarrow> 'i signal_single \<Rightarrow> bool \<times> 'i signal_single" where
  "single_push s q = (
     if index q = length (data q) then (False, q)
     else (True, q\<lparr>data := (data q)[index q := s], index := index q + 1\<rparr>))"

definition single_pop :: "'i signal_single \<Rightarrow> ('i pending_signal \<times> 'i signal_single) option" where
  "single_pop q = do {
     ASSERT (int (index q) - 1 \<ge> 0);
     let s = data q ! (index q - 1);
     Some (s, q\<lparr>index := index q - 1\<rparr>)
   }"

definition single_empty :: "'i signal_single \<Rightarrow> bool" where
  "single_empty q \<longleftrightarrow> index q = 0"

definition queue_push :: "'i pending_signal \<Rightarrow> 'i signal_queue \<Rightarrow> 'i signal_queue option" where
  "queue_push s q = do {
     ASSERT (sig s \<ge> 32 \<and> sig s \<le> 64);
     let i = sig s - 32 - 1;
     ASSERT (0 \<le> i \<and> nat i < length (signal_queues q));
     let (ok, single) = single_push s (signal_queues q ! nat i);
     ASSERT ok;
     Some (q\<lparr>signal_queues := (signal_queues q)[nat i := single],
             total_signals := total_signals q + 1\<rparr>)
   }"

text \<open>The loop of \<^verbatim>\<open>pop\<close> over the queues from the lowest signal up.\<close>

fun pop_scan :: "'i signal_single list \<Rightarrow> ('i pending_signal \<times> 'i signal_single list) option" where
  "pop_scan [] = None"
| "pop_scan (q # qs) =
     (if \<not> single_empty q then do { (s, q') \<leftarrow> single_pop q; Some (s, q' # qs) }
      else do { (s, qs') \<leftarrow> pop_scan qs; Some (s, q # qs') })"

definition queue_pop :: "'i signal_queue \<Rightarrow> ('i pending_signal \<times> 'i signal_queue) option" where
  "queue_pop q = do {
     (s, qs) \<leftarrow> pop_scan (signal_queues q);
     Some (s, q\<lparr>total_signals := total_signals q - 1, signal_queues := qs\<rparr>)
   }"

definition queue_empty :: "'i signal_queue \<Rightarrow> bool" where
  "queue_empty q \<longleftrightarrow> total_signals q = 0"

section \<open>Abstraction and invariant\<close>

text \<open>The entries of one signal's queue, most recent first.\<close>

definition stack :: "'i signal_single \<Rightarrow> 'i pending_signal list" where
  "stack q = rev (take (index q) (data q))"

definition single_ok :: "int \<Rightarrow> 'i signal_single \<Rightarrow> bool" where
  "single_ok n q \<longleftrightarrow> length (data q) = 10 \<and> index q \<le> 10 \<and> (\<forall>s\<in>set (stack q). sig s = n)"

definition bag :: "'i signal_queue \<Rightarrow> 'i pending_signal multiset" where
  "bag q = mset (concat (map stack (signal_queues q)))"

definition queue_ok :: "'i signal_queue \<Rightarrow> bool" where
  "queue_ok q \<longleftrightarrow> length (signal_queues q) = 32
     \<and> (\<forall>i<32. single_ok (33 + int i) (signal_queues q ! i))
     \<and> total_signals q = size (bag q)"

text \<open>How many entries of one signal are pending.\<close>

definition pending :: "int \<Rightarrow> 'i signal_queue \<Rightarrow> nat" where
  "pending n q = length (stack (signal_queues q ! nat (n - 33)))"

lemma length_stack: "single_ok n q \<Longrightarrow> length (stack q) = index q"
  by (simp add: stack_def single_ok_def)

lemma single_push_stack:
  assumes "single_ok n q" and "sig s = n"
  shows "single_push s q = (if length (stack q) = 10 then (False, q)
           else (True, q\<lparr>data := (data q)[index q := s], index := index q + 1\<rparr>))"
    and "index q < 10 \<Longrightarrow> stack (snd (single_push s q)) = s # stack q"
    and "index q < 10 \<Longrightarrow> single_ok n (snd (single_push s q))"
proof -
  have l: "length (data q) = 10" "index q \<le> 10" using assms by (simp_all add: single_ok_def)
  show "single_push s q = (if length (stack q) = 10 then (False, q)
           else (True, q\<lparr>data := (data q)[index q := s], index := index q + 1\<rparr>))"
    using l by (simp add: single_push_def length_stack [OF assms(1)])
  show st: "stack (snd (single_push s q)) = s # stack q" if "index q < 10"
    using that l by (simp add: single_push_def stack_def take_Suc_conv_app_nth)
  show "single_ok n (snd (single_push s q))" if "index q < 10"
    using that l assms st [OF that] by (auto simp: single_ok_def single_push_def)
qed

lemma single_pop_stack:
  assumes "single_ok n q" and "\<not> single_empty q"
  shows "\<exists>s q'. single_pop q = Some (s, q') \<and> stack q = s # stack q' \<and> single_ok n q' \<and> sig s = n"
proof -
  from assms obtain i where i: "index q = Suc i" by (cases "index q") (auto simp: single_empty_def)
  have "stack q = data q ! i # rev (take i (data q))"
    using assms(1) i by (simp add: stack_def single_ok_def take_Suc_conv_app_nth)
  with assms(1) i show ?thesis by (simp add: single_pop_def stack_def single_ok_def)
qed

lemma stack_empty: "single_ok n q \<Longrightarrow> single_empty q \<longleftrightarrow> stack q = []"
  by (auto simp: single_empty_def stack_def single_ok_def)

lemma bag_update:
  assumes "i < length qs"
  shows "mset (concat (map stack (qs[i := q]))) + mset (stack (qs ! i))
       = mset (concat (map stack qs)) + mset (stack q)"
  using assms
proof (induction qs arbitrary: i)
  case (Cons a qs)
  then show ?case by (cases i) (auto simp: union_ac)
qed simp

section \<open>Queue operations against the multiset\<close>

lemma queue_push_bag:
  assumes ok: "queue_ok q" and sig: "33 \<le> sig s" "sig s \<le> 64"
  shows "if pending (sig s) q < 10
         then \<exists>q'. queue_push s q = Some q' \<and> queue_ok q' \<and> bag q' = add_mset s (bag q)
         else queue_push s q = None"
proof -
  let ?i = "nat (sig s - 33)"
  let ?q = "signal_queues q ! ?i"
  from ok have len: "length (signal_queues q) = 32"
    and each: "\<forall>i<32. single_ok (33 + int i) (signal_queues q ! i)"
    and total: "total_signals q = size (bag q)" by (simp_all add: queue_ok_def)
  have i: "?i < 32" "33 + int ?i = sig s" using sig by linarith+
  with each have q: "single_ok (sig s) ?q" by metis
  note pushed = single_push_stack [OF q refl]
  have idx: "0 \<le> sig s - 33" "nat (sig s - 33) < length (signal_queues q)" using sig len by auto
  show ?thesis
  proof (cases "pending (sig s) q < 10")
    case False
    moreover have "length (stack ?q) \<le> 10"
      using q unfolding length_stack [OF q] single_ok_def by blast
    ultimately have "length (stack ?q) = 10" by (simp add: pending_def)
    then show ?thesis using False idx sig by (simp add: queue_push_def pushed(1) pending_def)
  next
    case True
    then have lt: "index ?q < 10" using q by (simp add: pending_def length_stack)
    let ?q' = "snd (single_push s ?q)"
    have run: "queue_push s q = Some (q\<lparr>signal_queues := (signal_queues q)[?i := ?q'],
        total_signals := total_signals q + 1\<rparr>)" (is "_ = Some ?r")
      using idx sig lt q by (simp add: queue_push_def pushed(1) length_stack Let_def)
    have bag: "bag ?r = add_mset s (bag q)"
      using bag_update [OF idx(2), of ?q'] pushed(2) [OF lt] by (simp add: bag_def)
    have "queue_ok ?r"
      using len total bag each pushed(3) [OF lt] i
      by (auto simp: queue_ok_def nth_list_update)
    with run bag True show ?thesis by simp
  qed
qed

lemma pop_scan_none:
  "\<forall>q\<in>set qs. \<exists>n. single_ok n q \<Longrightarrow> pop_scan qs = None \<longleftrightarrow> concat (map stack qs) = []"
proof (induction qs)
  case (Cons q qs)
  then obtain n where n: "single_ok n q" by auto
  have "pop_scan qs = None \<longleftrightarrow> concat (map stack qs) = []" using Cons by simp
  then show ?case
    using single_pop_stack [OF n] stack_empty [OF n]
    by (cases "single_empty q"; cases "pop_scan qs") auto
qed simp

lemma pop_scan_some:
  assumes "pop_scan qs = Some (s, qs')" and "\<forall>i<length qs. single_ok (b + int i) (qs ! i)"
  shows "length qs' = length qs \<and> (\<forall>i<length qs. single_ok (b + int i) (qs' ! i))
     \<and> concat (map stack qs) = s # concat (map stack qs')
     \<and> (\<forall>t\<in>set (concat (map stack qs)). sig s \<le> sig t)"
  using assms
proof (induction qs arbitrary: b qs')
  case (Cons q qs)
  have q: "single_ok b q" using Cons.prems(2) [rule_format, of 0] by simp
  have rest: "\<forall>i<length qs. single_ok (b + 1 + int i) (qs ! i)"
  proof (intro allI impI)
    fix i
    assume "i < length qs"
    then show "single_ok (b + 1 + int i) (qs ! i)"
      using Cons.prems(2) [rule_format, of "Suc i"] by (simp add: algebra_simps)
  qed
  have ge: "b \<le> sig t" if "t \<in> set (concat (map stack qs))" for t
  proof -
    from that obtain i where i: "i < length qs" "t \<in> set (stack (qs ! i))"
      by (auto simp: in_set_conv_nth [of _ qs])
    with rest have "sig t = b + 1 + int i" by (simp add: single_ok_def)
    then show ?thesis by simp
  qed
  show ?case
  proof (cases "single_empty q")
    case False
    from single_pop_stack [OF q False] obtain s0 q' where
      p: "single_pop q = Some (s0, q')" "stack q = s0 # stack q'" "single_ok b q'" "sig s0 = b"
      by blast
    have "s0 = s" "qs' = q' # qs" using Cons.prems(1) False p(1) by simp_all
    with p have q': "stack q = s # stack q'" "single_ok b q'" "sig s = b" "qs' = q' # qs" by simp_all
    have "\<forall>i<length (q # qs). single_ok (b + int i) (qs' ! i)"
      using q' Cons.prems(2) by (auto simp: nth_Cons split: nat.splits)
    moreover have "\<forall>t\<in>set (concat (map stack (q # qs))). sig s \<le> sig t"
    proof
      fix t
      assume "t \<in> set (concat (map stack (q # qs)))"
      then consider "t \<in> set (stack q)" | "t \<in> set (concat (map stack qs))" by auto
      then show "sig s \<le> sig t"
        using q ge q'(3) unfolding single_ok_def by cases force+
    qed
    ultimately show ?thesis using q' by simp
  next
    case True
    with Cons.prems(1) obtain r where r: "pop_scan qs = Some (s, r)" "qs' = q # r"
      by (auto split: bind_splits)
    have e: "stack q = []" using True stack_empty [OF q] by simp
    from Cons.IH [OF r(1) rest] have ih: "length r = length qs"
      "\<forall>i<length qs. single_ok (b + 1 + int i) (r ! i)"
      "concat (map stack qs) = s # concat (map stack r)"
      "\<forall>t\<in>set (concat (map stack qs)). sig s \<le> sig t" by blast+
    have "\<forall>i<length (q # qs). single_ok (b + int i) (qs' ! i)"
      using ih(2) q r(2) by (auto simp: nth_Cons algebra_simps split: nat.splits)
    moreover have "concat (map stack (q # qs)) = concat (map stack qs)"
      "concat (map stack qs') = concat (map stack r)" "length qs' = length (q # qs)"
      by (simp_all add: e r(2) ih(1))
    ultimately show ?thesis using ih(3,4) by metis
  qed
qed simp

lemma queue_pop_bag:
  assumes ok: "queue_ok q"
  shows "if bag q = {#} then queue_pop q = None
         else \<exists>s q'. queue_pop q = Some (s, q') \<and> queue_ok q' \<and> bag q = add_mset s (bag q')
                \<and> (\<forall>t\<in>#bag q. sig s \<le> sig t)"
proof -
  from ok have len: "length (signal_queues q) = 32"
    and each: "\<forall>i<length (signal_queues q). single_ok (33 + int i) (signal_queues q ! i)"
    and total: "total_signals q = size (bag q)" by (simp_all add: queue_ok_def)
  have all: "\<forall>x\<in>set (signal_queues q). \<exists>n. single_ok n x"
  proof
    fix x
    assume "x \<in> set (signal_queues q)"
    with each show "\<exists>n. single_ok n x" unfolding in_set_conv_nth by metis
  qed
  show ?thesis
  proof (cases "pop_scan (signal_queues q)")
    case None
    with pop_scan_none [OF all] show ?thesis by (simp add: queue_pop_def bag_def)
  next
    case (Some p)
    then obtain s qs where p: "pop_scan (signal_queues q) = Some (s, qs)" by (cases p) auto
    note f = pop_scan_some [OF p each]
    let ?q = "q\<lparr>total_signals := total_signals q - 1, signal_queues := qs\<rparr>"
    have bag: "bag q = add_mset s (bag ?q)" using f by (simp add: bag_def)
    then have "size (bag q) = Suc (size (bag ?q))" by simp
    then have "queue_ok ?q" using f len total by (simp add: queue_ok_def)
    moreover have "\<forall>t\<in>#bag q. sig s \<le> sig t"
      using f unfolding bag_def set_mset_mset by blast
    ultimately show ?thesis using p bag by (auto simp: queue_pop_def)
  qed
qed

lemma queue_empty_bag: "queue_ok q \<Longrightarrow> queue_empty q \<longleftrightarrow> bag q = {#}"
  by (auto simp: queue_empty_def queue_ok_def)

section \<open>The interface of a pending-signal store\<close>

text \<open>
  What a consumer relies on: a multiset of signals, from which the lowest signal number
  is delivered first.
\<close>

fun drain :: "('q \<Rightarrow> bool) \<Rightarrow> ('q \<Rightarrow> ('s \<times> 'q) option) \<Rightarrow> nat \<Rightarrow> 'q \<Rightarrow> 's list option" where
  "drain emp pop 0 q = (if emp q then Some [] else None)"
| "drain emp pop (Suc n) q = (if emp q then Some [] else do {
     (s, q') \<leftarrow> pop q; ss \<leftarrow> drain emp pop n q'; Some (s # ss) })"

locale signal_store =
  fixes push :: "'s \<Rightarrow> 'q \<Rightarrow> 'q option" and pop :: "'q \<Rightarrow> ('s \<times> 'q) option" and emp :: "'q \<Rightarrow> bool"
    and contents :: "'q \<Rightarrow> 's multiset" and ok :: "'q \<Rightarrow> bool"
    and accepts :: "'s \<Rightarrow> 'q \<Rightarrow> bool" and prio :: "'s \<Rightarrow> int"
  assumes push_adds: "ok q \<Longrightarrow> accepts s q \<Longrightarrow>
      \<exists>q'. push s q = Some q' \<and> ok q' \<and> contents q' = add_mset s (contents q)"
    and pop_least: "ok q \<Longrightarrow> contents q \<noteq> {#} \<Longrightarrow>
      \<exists>s q'. pop q = Some (s, q') \<and> ok q' \<and> contents q = add_mset s (contents q')
             \<and> (\<forall>t\<in>#contents q. prio s \<le> prio t)"
    and emp_iff: "ok q \<Longrightarrow> emp q \<longleftrightarrow> contents q = {#}"
begin

lemma drain_sorted:
  "ok q \<Longrightarrow> n = size (contents q) \<Longrightarrow>
   \<exists>ss. drain emp pop n q = Some ss \<and> mset ss = contents q \<and> sorted (map prio ss)"
proof (induction n arbitrary: q)
  case 0
  then show ?case by (simp add: emp_iff)
next
  case (Suc n)
  then have ne: "contents q \<noteq> {#}" by auto
  from pop_least [OF Suc.prems(1) ne] obtain s q' where s: "pop q = Some (s, q')" "ok q'"
    "contents q = add_mset s (contents q')" "\<forall>t\<in>#contents q. prio s \<le> prio t" by blast
  with Suc.prems have "n = size (contents q')" by simp
  from Suc.IH [OF s(2) this] obtain ss where ss: "drain emp pop n q' = Some ss"
    "mset ss = contents q'" "sorted (map prio ss)" by blast
  moreover have "\<forall>t\<in>set ss. prio s \<le> prio t" using s(3,4) ss(2) by (metis set_mset_mset union_single_eq_member
        insert_DiffM insert_noteq_member mset_add set_mset_add_mset_insert insert_iff)
  ultimately show ?case using s ne Suc.prems(1) by (auto simp: emp_iff)
qed

end

interpretation sq: signal_store queue_push queue_pop queue_empty bag queue_ok
  "\<lambda>(s :: 'i pending_signal) q. 33 \<le> sig s \<and> sig s \<le> 64 \<and> pending (sig s) q < 10" sig
proof unfold_locales
  fix q :: "'i signal_queue" and s :: "'i pending_signal"
  assume "queue_ok q" and "33 \<le> sig s \<and> sig s \<le> 64 \<and> pending (sig s) q < 10"
  then show "\<exists>q'. queue_push s q = Some q' \<and> queue_ok q' \<and> bag q' = add_mset s (bag q)"
    using queue_push_bag [of q s] by simp
next
  fix q :: "'i signal_queue"
  assume "queue_ok q" and "bag q \<noteq> {#}"
  then show "\<exists>s q'. queue_pop q = Some (s, q') \<and> queue_ok q' \<and> bag q = add_mset s (bag q')
      \<and> (\<forall>t\<in>#bag q. sig s \<le> sig t)"
    using queue_pop_bag [of q] by simp
qed (rule queue_empty_bag)

lemma queue_ok_init: "queue_ok (signal_queue_init d)" "bag (signal_queue_init d) = {#}"
proof -
  have "stack (single_init d) = []" by (simp add: stack_def single_init_def)
  then show "bag (signal_queue_init d) = {#}" by (simp add: bag_def signal_queue_init_def)
  then show "queue_ok (signal_queue_init d)"
    using \<open>stack (single_init d) = []\<close>
    by (simp add: queue_ok_def single_ok_def) (simp add: signal_queue_init_def single_init_def)
qed

section \<open>Properties\<close>

text \<open>C20: popping until the queue is empty delivers every pending signal exactly once,
  in ascending order of signal number, and never fails an assertion: the count
  \<^verbatim>\<open>total_signals\<close> and the 32 stacks agree.\<close>

theorem signal_queue_drain:
  assumes "queue_ok q"
  shows "\<exists>ss. drain queue_empty queue_pop (total_signals q) q = Some ss
              \<and> mset ss = bag q \<and> sorted (map sig ss)"
proof -
  have "total_signals q = size (bag q)" using assms by (simp add: queue_ok_def)
  with sq.drain_sorted [OF assms] show ?thesis by simp
qed

theorem signal_queue_drain_witness:
  "\<exists>q' ss. queue_push \<lparr>sig = 40, info = ()\<rparr> (signal_queue_init \<lparr>sig = 0, info = ()\<rparr>) = Some q'
     \<and> drain queue_empty queue_pop (total_signals q') q' = Some ss
     \<and> mset ss = {#\<lparr>sig = 40, info = ()\<rparr>#}"
proof -
  let ?q = "signal_queue_init \<lparr>sig = 0, info = ()\<rparr> :: unit signal_queue"
  have "pending 40 ?q < 10"
    by (simp add: pending_def signal_queue_init_def stack_def single_init_def)
  with queue_push_bag [OF queue_ok_init(1), of "\<lparr>sig = 40, info = ()\<rparr>" "\<lparr>sig = 0, info = ()\<rparr>"] obtain q' where
    q': "queue_push \<lparr>sig = 40, info = ()\<rparr> ?q = Some q'" "queue_ok q'"
      "bag q' = add_mset \<lparr>sig = 40, info = ()\<rparr> (bag ?q)" by fastforce
  from signal_queue_drain [OF q'(2)] q' show ?thesis by (auto simp: queue_ok_init)
qed

text \<open>C21: a push of a signal from 33 to 64 adds it to the pending multiset when fewer
  than ten instances of that signal are pending, and exits the process otherwise.\<close>

theorem signal_queue_push:
  assumes "queue_ok q" and "33 \<le> sig s" and "sig s \<le> 64"
  shows "if pending (sig s) q < 10
         then \<exists>q'. queue_push s q = Some q' \<and> queue_ok q' \<and> bag q' = add_mset s (bag q)
         else queue_push s q = None"
  by (rule queue_push_bag [OF assms])

theorem signal_queue_push_witness:
  "\<exists>q'. queue_push \<lparr>sig = 33, info = ()\<rparr> (signal_queue_init \<lparr>sig = 0, info = ()\<rparr>) = Some q' \<and> queue_ok q'"
proof -
  have "pending 33 (signal_queue_init \<lparr>sig = 0, info = ()\<rparr>) < 10"
    by (simp add: pending_def signal_queue_init_def stack_def single_init_def)
  then show ?thesis
    using signal_queue_push [OF queue_ok_init(1), of "\<lparr>sig = 33, info = ()\<rparr>" "\<lparr>sig = 0, info = ()\<rparr>"]
    by fastforce
qed

section \<open>Where the queue falls short\<close>

text \<open>The assertion of \<^verbatim>\<open>push\<close> lets signal 32 through, whose queue index is -1.\<close>

lemma signal_32_out_of_bounds:
  "ASSERT ((32 :: int) \<ge> 32 \<and> (32 :: int) \<le> 64) = Some () \<and> queue_push \<lparr>sig = 32, info = i\<rparr> q = None"
  by (simp add: queue_push_def ASSERT_def)

text \<open>Two instances of one realtime signal are delivered in reverse order, while
  \<^verbatim>\<open>signal(7)\<close> delivers multiple instances in the order they were sent.\<close>

lemma signal_queue_lifo:
  "(do { q1 \<leftarrow> queue_push \<lparr>sig = 34, info = ''first''\<rparr> (signal_queue_init \<lparr>sig = 0, info = ''none''\<rparr>);
         q2 \<leftarrow> queue_push \<lparr>sig = 34, info = ''second''\<rparr> q1;
         (a, q3) \<leftarrow> queue_pop q2;
         (b, _) \<leftarrow> queue_pop q3;
         Some (info a, info b) }) = Some (''second'', ''first'')"
  by (simp add: signal_queue_init_def single_init_def queue_push_def single_push_def queue_pop_def
      single_empty_def single_pop_def eval_nat_numeral)

end
