(* ===== verification/ThreadState.thy ===== *)
theory ThreadState
  imports Felix_Prelude
begin

text \<open>
  The guest's architectural state (\<^verbatim>\<open>common/state.hpp\<close>, \<^verbatim>\<open>common/state.cpp\<close>) with
  its accessors, the 32-bit thread-local-storage descriptors, and the segment and
  \<^verbatim>\<open>iret\<close> helpers of \<^verbatim>\<open>common/utility.cpp\<close>. \<open>None\<close> is an \<^verbatim>\<open>ERROR\<close>, a failed
  \<^verbatim>\<open>ASSERT\<close> or an array access out of bounds.
\<close>

section \<open>Register references and operand sizes\<close>

text \<open>\<^verbatim>\<open>x86_ref_e\<close> is an enumeration over \<^verbatim>\<open>u8\<close>; the accessors compare and
  subtract its values.\<close>

type_synonym x86_ref = nat

abbreviation (input) X86_REF_RAX :: x86_ref where "X86_REF_RAX \<equiv> 0"
abbreviation (input) X86_REF_RCX :: x86_ref where "X86_REF_RCX \<equiv> 1"
abbreviation (input) X86_REF_RDX :: x86_ref where "X86_REF_RDX \<equiv> 2"
abbreviation (input) X86_REF_RBX :: x86_ref where "X86_REF_RBX \<equiv> 3"
abbreviation (input) X86_REF_RSP :: x86_ref where "X86_REF_RSP \<equiv> 4"
abbreviation (input) X86_REF_RBP :: x86_ref where "X86_REF_RBP \<equiv> 5"
abbreviation (input) X86_REF_RSI :: x86_ref where "X86_REF_RSI \<equiv> 6"
abbreviation (input) X86_REF_RDI :: x86_ref where "X86_REF_RDI \<equiv> 7"
abbreviation (input) X86_REF_R15 :: x86_ref where "X86_REF_R15 \<equiv> 15"
abbreviation (input) X86_REF_ST0 :: x86_ref where "X86_REF_ST0 \<equiv> 16"
abbreviation (input) X86_REF_ST7 :: x86_ref where "X86_REF_ST7 \<equiv> 23"
abbreviation (input) X86_REF_MM0 :: x86_ref where "X86_REF_MM0 \<equiv> 24"
abbreviation (input) X86_REF_MM7 :: x86_ref where "X86_REF_MM7 \<equiv> 31"
abbreviation (input) X86_REF_XMM0 :: x86_ref where "X86_REF_XMM0 \<equiv> 32"
abbreviation (input) X86_REF_XMM15 :: x86_ref where "X86_REF_XMM15 \<equiv> 47"
abbreviation (input) X86_REF_YMM0 :: x86_ref where "X86_REF_YMM0 \<equiv> 48"
abbreviation (input) X86_REF_YMM15 :: x86_ref where "X86_REF_YMM15 \<equiv> 63"
abbreviation (input) X86_REF_RIP :: x86_ref where "X86_REF_RIP \<equiv> 64"
abbreviation (input) X86_REF_CF :: x86_ref where "X86_REF_CF \<equiv> 65"
abbreviation (input) X86_REF_PF :: x86_ref where "X86_REF_PF \<equiv> 66"
abbreviation (input) X86_REF_AF :: x86_ref where "X86_REF_AF \<equiv> 67"
abbreviation (input) X86_REF_ZF :: x86_ref where "X86_REF_ZF \<equiv> 68"
abbreviation (input) X86_REF_SF :: x86_ref where "X86_REF_SF \<equiv> 69"
abbreviation (input) X86_REF_DF :: x86_ref where "X86_REF_DF \<equiv> 70"
abbreviation (input) X86_REF_OF :: x86_ref where "X86_REF_OF \<equiv> 71"
abbreviation (input) X86_REF_GS :: x86_ref where "X86_REF_GS \<equiv> 72"
abbreviation (input) X86_REF_FS :: x86_ref where "X86_REF_FS \<equiv> 73"
abbreviation (input) X86_REF_CS :: x86_ref where "X86_REF_CS \<equiv> 74"
abbreviation (input) X86_REF_SS :: x86_ref where "X86_REF_SS \<equiv> 75"
abbreviation (input) X86_REF_DS :: x86_ref where "X86_REF_DS \<equiv> 76"
abbreviation (input) X86_REF_ES :: x86_ref where "X86_REF_ES \<equiv> 77"

datatype x86_size = X86_SIZE_BYTE | X86_SIZE_WORD | X86_SIZE_DWORD | X86_SIZE_QWORD
  | X86_SIZE_XMM | X86_SIZE_YMM | X86_SIZE_BYTE_HIGH | X86_SIZE_ST

datatype x87State = Unknown | x87 | MMX

datatype RMode = RNE | RTZ | RDN | RUP

section \<open>The state\<close>

text \<open>An \<^verbatim>\<open>XmmReg\<close> is its two quadwords, \<^verbatim>\<open>data[0]\<close> first.\<close>

type_synonym XmmReg = "u64 \<times> u64"

record thread_state =
  gprs :: "u64 list"
  rip :: u64
  fp :: "u64 list"
  xmm :: "XmmReg list"
  cf :: bool
  pf :: bool
  af :: bool
  zf :: bool
  sf :: bool
  oflag :: bool
  df :: bool
  gs :: u16
  fs :: u16
  cs :: u16
  ds :: u16
  ss :: u16
  es :: u16
  gsbase :: u64
  fsbase :: u64
  csbase :: u64
  dsbase :: u64
  ssbase :: u64
  esbase :: u64
  mxcsr :: u32
  rmode_sse :: RMode
  rmode_x87 :: RMode
  fpu_cw :: u16
  fpu_tw :: u16
  fpu_sw :: u16
  fpu_top :: u8
  x87_state :: x87State
  gdt :: "u32 list"

definition ThreadState_default :: thread_state where
  "ThreadState_default = \<lparr>
     gprs = replicate 16 0, rip = 0, fp = replicate 8 0, xmm = replicate 16 (0, 0),
     cf = False, pf = False, af = False, zf = False, sf = False, oflag = False, df = False,
     gs = 0, fs = 0, cs = 0, ds = 0, ss = 0, es = 0,
     gsbase = 0, fsbase = 0, csbase = 0, dsbase = 0, ssbase = 0, esbase = 0,
     mxcsr = 0x1F80, rmode_sse = RNE, rmode_x87 = RNE,
     fpu_cw = 0, fpu_tw = 0, fpu_sw = 0, fpu_top = 0, x87_state = MMX, gdt = replicate 32 0\<rparr>"

definition state_wf :: "thread_state \<Rightarrow> bool" where
  "state_wf st \<longleftrightarrow> length (gprs st) = 16 \<and> length (fp st) = 8 \<and> length (xmm st) = 16
     \<and> length (gdt st) = 32"

section \<open>Accessors\<close>

definition GetGpr :: "x86_ref \<Rightarrow> thread_state \<Rightarrow> u64 option" where
  "GetGpr ref st = do {
     ASSERT (\<not> (ref < X86_REF_RAX \<or> ref > X86_REF_R15));
     Some (gprs st ! (ref - X86_REF_RAX))
   }"

definition SetGpr :: "x86_ref \<Rightarrow> u64 \<Rightarrow> thread_state \<Rightarrow> thread_state option" where
  "SetGpr ref val st = do {
     ASSERT (\<not> (ref < X86_REF_RAX \<or> ref > X86_REF_R15));
     Some (st\<lparr>gprs := (gprs st)[ref - X86_REF_RAX := val]\<rparr>)
   }"

definition GetFlag :: "x86_ref \<Rightarrow> thread_state \<Rightarrow> bool option" where
  "GetFlag flag st =
     (if flag = X86_REF_CF then Some (cf st)
      else if flag = X86_REF_PF then Some (pf st)
      else if flag = X86_REF_AF then Some (af st)
      else if flag = X86_REF_ZF then Some (zf st)
      else if flag = X86_REF_SF then Some (sf st)
      else if flag = X86_REF_DF then Some (df st)
      else if flag = X86_REF_OF then Some (oflag st)
      else None)"

definition SetFlag :: "x86_ref \<Rightarrow> bool \<Rightarrow> thread_state \<Rightarrow> thread_state option" where
  "SetFlag flag v st =
     (if flag = X86_REF_CF then Some (st\<lparr>cf := v\<rparr>)
      else if flag = X86_REF_PF then Some (st\<lparr>pf := v\<rparr>)
      else if flag = X86_REF_AF then Some (st\<lparr>af := v\<rparr>)
      else if flag = X86_REF_ZF then Some (st\<lparr>zf := v\<rparr>)
      else if flag = X86_REF_SF then Some (st\<lparr>sf := v\<rparr>)
      else if flag = X86_REF_DF then Some (st\<lparr>df := v\<rparr>)
      else if flag = X86_REF_OF then Some (st\<lparr>oflag := v\<rparr>)
      else None)"

definition GetXmm :: "x86_ref \<Rightarrow> thread_state \<Rightarrow> XmmReg option" where
  "GetXmm ref st = do {
     ASSERT (\<not> (ref < X86_REF_XMM0 \<or> ref > X86_REF_XMM15));
     Some (xmm st ! (ref - X86_REF_XMM0))
   }"

definition SetXmm :: "x86_ref \<Rightarrow> XmmReg \<Rightarrow> thread_state \<Rightarrow> thread_state option" where
  "SetXmm ref val st = do {
     ASSERT (\<not> (ref < X86_REF_XMM0 \<or> ref > X86_REF_XMM15));
     Some (st\<lparr>xmm := (xmm st)[ref - X86_REF_XMM0 := val]\<rparr>)
   }"

definition GetMm :: "x86_ref \<Rightarrow> thread_state \<Rightarrow> u64 option" where
  "GetMm ref st = do {
     ASSERT (\<not> (ref < X86_REF_MM0 \<or> ref > X86_REF_MM7));
     Some (fp st ! (ref - X86_REF_MM0))
   }"

text \<open>The second overload of \<^verbatim>\<open>SetXmm\<close>, whose guard admits the MMX registers and whose
  array index is relative to \<^verbatim>\<open>X86_REF_XMM0\<close>.\<close>

definition SetXmm_u64 :: "x86_ref \<Rightarrow> u64 \<Rightarrow> thread_state \<Rightarrow> thread_state option" where
  "SetXmm_u64 ref val st = do {
     ASSERT (\<not> (ref < X86_REF_MM0 \<or> ref > X86_REF_MM7));
     let i = int ref - int X86_REF_XMM0;
     ASSERT (0 \<le> i \<and> i < 8);
     Some (st\<lparr>fp := (fp st)[nat i := val]\<rparr>)
   }"

definition GetRip :: "thread_state \<Rightarrow> u64" where "GetRip st = rip st"

definition SetRip :: "u64 \<Rightarrow> thread_state \<Rightarrow> thread_state" where "SetRip val st = st\<lparr>rip := val\<rparr>"

definition GetFlags :: "thread_state \<Rightarrow> u64" where
  "GetFlags st = of_bool (cf st) OR push_bit 2 (of_bool (pf st)) OR push_bit 4 (of_bool (af st))
     OR push_bit 6 (of_bool (zf st)) OR push_bit 7 (of_bool (sf st))
     OR push_bit 10 (of_bool (df st)) OR push_bit 11 (of_bool (oflag st))"

section \<open>Thread-local storage and segments\<close>

text \<open>The fields of \<^verbatim>\<open>x86_user_desc\<close> the code uses; an entry number of -1 asks for a
  free slot.\<close>

record user_desc =
  entry_number :: int
  base_addr :: u32

fun find_slot :: "u32 list \<Rightarrow> nat list \<Rightarrow> int" where
  "find_slot g [] = -1"
| "find_slot g (i # is) = (if g ! i = 0 then int i else find_slot g is)"

definition check_seg :: "int \<Rightarrow> u32 \<Rightarrow> u16 \<Rightarrow> u64 \<Rightarrow> u64" where
  "check_seg index addr sel old = (if uint (drop_bit 3 sel) = index then ucast addr else old)"

definition ESRCH :: int where "ESRCH = 3"

definition SetUserDesc :: "user_desc \<Rightarrow> thread_state \<Rightarrow> (int \<times> user_desc \<times> thread_state) option" where
  "SetUserDesc udesc st = (
     let index0 = entry_number udesc;
         index = (if index0 = -1 then find_slot (gdt st) [12, 13, 14] else index0);
         b = base_addr udesc in
     if index = -1 then Some (- ESRCH, udesc, st)
     else do {
       ASSERT (0 \<le> index \<and> index < 32);
       Some (0, udesc\<lparr>entry_number := index\<rparr>,
         st\<lparr>gdt := (gdt st)[nat index := b],
            fsbase := check_seg index b (fs st) (fsbase st),
            gsbase := check_seg index b (gs st) (gsbase st),
            esbase := check_seg index b (es st) (esbase st),
            ssbase := check_seg index b (ss st) (ssbase st),
            csbase := check_seg index b (cs st) (csbase st),
            dsbase := check_seg index b (ds st) (dsbase st)\<rparr>)
     })"

definition SetTLS :: "bool \<Rightarrow> u64 \<Rightarrow> user_desc \<Rightarrow> thread_state \<Rightarrow> thread_state option" where
  "SetTLS mode32 address udesc st =
     (if mode32 then do {
        (r, _, st') \<leftarrow> SetUserDesc udesc st;
        ASSERT (r = 0);
        Some st'
      } else Some (st\<lparr>fsbase := address\<rparr>))"

datatype segment = CS | DS | SS | ES | FS | GS

definition felix86_set_segment :: "u64 \<Rightarrow> segment \<Rightarrow> thread_state \<Rightarrow> thread_state option" where
  "felix86_set_segment val seg st = (
     let index = sint (ucast (drop_bit 3 val) :: u32) in do {
       ASSERT (0 \<le> index \<and> index < 32);
       let base = ucast (gdt st ! nat index);
       Some (case seg of
         CS \<Rightarrow> st\<lparr>cs := ucast val, csbase := base\<rparr>
       | DS \<Rightarrow> st\<lparr>ds := ucast val, dsbase := base\<rparr>
       | SS \<Rightarrow> st\<lparr>ss := ucast val, ssbase := base\<rparr>
       | ES \<Rightarrow> st\<lparr>es := ucast val, esbase := base\<rparr>
       | FS \<Rightarrow> st\<lparr>fs := ucast val, fsbase := base\<rparr>
       | GS \<Rightarrow> st\<lparr>gs := ucast val, gsbase := base\<rparr>)
     })"

text \<open>Guest memory, byte addressed; \<open>load n\<close> reads \<open>n\<close> bytes little-endian.\<close>

type_synonym memory = "u64 \<Rightarrow> u8"

fun load :: "nat \<Rightarrow> memory \<Rightarrow> u64 \<Rightarrow> u64" where
  "load 0 mem a = 0"
| "load (Suc n) mem a = ucast (mem a) OR push_bit 8 (load n mem (a + 1))"

definition felix86_iret :: "bool \<Rightarrow> memory \<Rightarrow> thread_state \<Rightarrow> thread_state option" where
  "felix86_iret mode32 mem st = (
     let sz = (if mode32 then 4 else 8 :: nat);
         rsp = gprs st ! X86_REF_RSP;
         new_rip = load sz mem rsp;
         new_cs = load sz mem (rsp + of_nat sz) in
     if mode32 then do {
       st1 \<leftarrow> felix86_set_segment new_cs CS (SetRip new_rip st);
       SetGpr X86_REF_RSP (rsp + 3 * 4) st1
     } else do {
       st1 \<leftarrow> SetGpr X86_REF_RSP (load sz mem (rsp + of_nat (sz * 3))) st;
       Some (SetRip new_rip st1)
     })"

text \<open>\<^verbatim>\<open>ThreadState::Create\<close>: the fields a new thread takes from its parent.\<close>

definition Create :: "thread_state option \<Rightarrow> thread_state" where
  "Create copy_state = (case copy_state of
     None \<Rightarrow> ThreadState_default
   | Some c \<Rightarrow> ThreadState_default\<lparr>
       gprs := gprs c, xmm := xmm c, fp := fp c,
       cf := cf c, zf := zf c, sf := sf c, oflag := oflag c, pf := pf c, af := af c,
       fsbase := fsbase c, gsbase := gsbase c, dsbase := dsbase c, csbase := csbase c,
       ssbase := ssbase c, esbase := esbase c,
       fs := fs c, gs := gs c, ds := ds c, cs := cs c, ss := ss c, es := es c\<rparr>)"

section \<open>Well-formedness and the coherence of segment bases\<close>

text \<open>
  The cached bases agree with the descriptor table: each base is the table entry its
  selector names.
\<close>

definition seg_agrees :: "u32 list \<Rightarrow> u16 \<Rightarrow> u64 \<Rightarrow> bool" where
  "seg_agrees g sel base \<longleftrightarrow> unat (drop_bit 3 sel) < 32 \<and> base = ucast (g ! unat (drop_bit 3 sel))"

definition seg_coherent :: "thread_state \<Rightarrow> bool" where
  "seg_coherent st \<longleftrightarrow> length (gdt st) = 32
     \<and> seg_agrees (gdt st) (fs st) (fsbase st) \<and> seg_agrees (gdt st) (gs st) (gsbase st)
     \<and> seg_agrees (gdt st) (es st) (esbase st) \<and> seg_agrees (gdt st) (ss st) (ssbase st)
     \<and> seg_agrees (gdt st) (cs st) (csbase st) \<and> seg_agrees (gdt st) (ds st) (dsbase st)"

lemma find_slot_cases:
  "find_slot g is = -1 \<and> (\<forall>i\<in>set is. g ! i \<noteq> 0)
   \<or> (\<exists>i\<in>set is. find_slot g is = int i \<and> g ! i = 0)"
  by (induction "is") auto

lemma seg_agrees_update:
  assumes "seg_agrees g sel base" and "length g = 32" and "0 \<le> index" and "index < 32"
  shows "seg_agrees (g[nat index := b]) sel (check_seg index b sel base)"
proof -
  have "uint (drop_bit 3 sel) = index \<longleftrightarrow> unat (drop_bit 3 sel) = nat index"
    using assms(3) by (subst uint_nat) linarith
  then show ?thesis using assms by (auto simp: seg_agrees_def check_seg_def nth_list_update)
qed

lemma SetUserDesc_run:
  assumes coh: "seg_coherent st" and run: "SetUserDesc u st = Some (0, u', st')"
  shows "seg_coherent st'"
proof -
  define index where "index = (if entry_number u = -1 then find_slot (gdt st) [12, 13, 14] else entry_number u)"
  from run have "index \<noteq> -1"
    by (auto simp: SetUserDesc_def ESRCH_def index_def [symmetric] simp del: find_slot.simps)
  with run have "0 \<le> index" "index < 32"
    and st': "st' = st\<lparr>gdt := (gdt st)[nat index := base_addr u],
            fsbase := check_seg index (base_addr u) (fs st) (fsbase st),
            gsbase := check_seg index (base_addr u) (gs st) (gsbase st),
            esbase := check_seg index (base_addr u) (es st) (esbase st),
            ssbase := check_seg index (base_addr u) (ss st) (ssbase st),
            csbase := check_seg index (base_addr u) (cs st) (csbase st),
            dsbase := check_seg index (base_addr u) (ds st) (dsbase st)\<rparr>"
    by (simp_all add: SetUserDesc_def index_def [symmetric] Let_def [of "base_addr u"] del: find_slot.simps)
  with coh show ?thesis by (simp add: seg_coherent_def seg_agrees_update)
qed

lemma selector_index:
  assumes "0 \<le> sint (ucast (drop_bit 3 val) :: u32)" and "sint (ucast (drop_bit 3 val) :: u32) < 32"
    and "unat (val :: u64) < 2 ^ 16"
  shows "nat (sint (ucast (drop_bit 3 val) :: u32)) = unat (drop_bit 3 (ucast val :: u16))"
    and "unat (drop_bit 3 (ucast val :: u16)) < 32"
proof -
  have u16: "unat (ucast val :: u16) = unat val"
    using assms(3) by (simp add: unsigned_ucast_eq take_bit_nat_eq_self)
  have d: "unat (drop_bit 3 val) = unat val div 8" "unat (drop_bit 3 (ucast val :: u16)) = unat val div 8"
    by (simp_all add: drop_bit_eq_div unat_div_distrib u16)
  have "unat val div 8 < 2 ^ 31" using assms(3) by simp
  then have s: "sint (ucast (drop_bit 3 val) :: u32) = int (unat val div 8)"
    by (simp add: sint_uint uint_nat unsigned_ucast_eq take_bit_nat_eq_self d(1)
        signed_take_bit_int_eq_self)
  show "nat (sint (ucast (drop_bit 3 val) :: u32)) = unat (drop_bit 3 (ucast val :: u16))"
    using s d(2) by simp
  show "unat (drop_bit 3 (ucast val :: u16)) < 32" using s d(2) assms(2) by simp
qed

lemma felix86_set_segment_coherent:
  assumes coh: "seg_coherent st" and small: "unat val < 2 ^ 16"
    and run: "felix86_set_segment val seg st = Some st'"
  shows "seg_coherent st'"
proof -
  define index where "index = sint (ucast (drop_bit 3 val) :: u32)"
  from run have r: "0 \<le> index" "index < 32"
    by (simp_all add: felix86_set_segment_def index_def Let_def)
  note i = selector_index [OF r [unfolded index_def] small, folded index_def]
  define base where "base = (ucast (gdt st ! nat index) :: u64)"
  have agrees: "seg_agrees (gdt st) (ucast val) base" using i by (simp add: seg_agrees_def base_def)
  have run': "felix86_set_segment val seg st = Some (case seg of
         CS \<Rightarrow> st\<lparr>cs := ucast val, csbase := base\<rparr>
       | DS \<Rightarrow> st\<lparr>ds := ucast val, dsbase := base\<rparr>
       | SS \<Rightarrow> st\<lparr>ss := ucast val, ssbase := base\<rparr>
       | ES \<Rightarrow> st\<lparr>es := ucast val, esbase := base\<rparr>
       | FS \<Rightarrow> st\<lparr>fs := ucast val, fsbase := base\<rparr>
       | GS \<Rightarrow> st\<lparr>gs := ucast val, gsbase := base\<rparr>)" (is "_ = Some ?st")
    using r unfolding felix86_set_segment_def base_def Let_def index_def [symmetric] by simp
  have "seg_coherent ?st" using coh agrees by (cases seg) (simp_all add: seg_coherent_def)
  with run run' show ?thesis by (metis option.inject)
qed

lemma state_wf_default: "state_wf ThreadState_default"
  by (simp add: state_wf_def ThreadState_default_def)

lemma seg_coherent_default: "seg_coherent ThreadState_default"
  by (simp add: seg_coherent_def seg_agrees_def ThreadState_default_def nth_append)

section \<open>Register files\<close>

text \<open>
  The contract the handlers rely on for each group of registers: a set of valid
  references, on which a write succeeds, is read back and leaves the others alone.
\<close>

locale register_file =
  fixes get :: "x86_ref \<Rightarrow> 's \<Rightarrow> 'v option" and put :: "x86_ref \<Rightarrow> 'v \<Rightarrow> 's \<Rightarrow> 's option"
    and valid :: "x86_ref set" and ok :: "'s \<Rightarrow> bool"
  assumes get_valid: "r \<in> valid \<Longrightarrow> \<exists>v. get r s = Some v"
    and get_invalid: "r \<notin> valid \<Longrightarrow> get r s = None"
    and put_valid: "ok s \<Longrightarrow> r \<in> valid \<Longrightarrow> \<exists>s'. put r v s = Some s' \<and> ok s'"
    and put_invalid: "r \<notin> valid \<Longrightarrow> put r v s = None"
    and get_put: "ok s \<Longrightarrow> put r v s = Some s' \<Longrightarrow> get q s' = (if q = r then Some v else get q s)"
begin

text \<open>Exchanging two registers, as \<^verbatim>\<open>XCHG\<close> does.\<close>

definition exchange :: "x86_ref \<Rightarrow> x86_ref \<Rightarrow> 's \<Rightarrow> 's option" where
  "exchange a b s = do { x \<leftarrow> get a s; y \<leftarrow> get b s; s1 \<leftarrow> put a y s; put b x s1 }"

lemma exchange_swaps:
  assumes "ok s" and "a \<in> valid" and "b \<in> valid"
  shows "\<exists>s'. exchange a b s = Some s' \<and> ok s' \<and> get a s' = get b s \<and> get b s' = get a s
            \<and> (\<forall>q. q \<noteq> a \<and> q \<noteq> b \<longrightarrow> get q s' = get q s)"
proof -
  obtain x y where xy: "get a s = Some x" "get b s = Some y"
    using get_valid assms(2,3) by blast
  obtain s1 where s1: "put a y s = Some s1" "ok s1" using put_valid assms by blast
  obtain s2 where s2: "put b x s1 = Some s2" "ok s2" using put_valid assms(3) s1(2) by blast
  from xy s1(1) s2(1) have "exchange a b s = Some s2" by (simp add: exchange_def)
  with get_put [OF assms(1) s1(1)] get_put [OF s1(2) s2(1)] xy s2(2) show ?thesis
    by (intro exI [of _ s2]) (cases "a = b"; simp)
qed

lemma put_overwrite:
  assumes "ok s" and "put r v s = Some s1" and "put r w s1 = Some s2" and "ok s1"
  shows "get q s2 = (if q = r then Some w else get q s)"
  using get_put [OF assms(1,2)] get_put [OF assms(4,3)] by simp

end

interpretation gpr: register_file GetGpr SetGpr "{X86_REF_RAX..X86_REF_R15}" state_wf
  by unfold_locales (auto simp: GetGpr_def SetGpr_def state_wf_def nth_list_update ASSERT_def
      split: if_splits)

interpretation xmmr: register_file GetXmm SetXmm "{X86_REF_XMM0..X86_REF_XMM15}" state_wf
  by unfold_locales (auto simp: GetXmm_def SetXmm_def state_wf_def nth_list_update ASSERT_def
      split: if_splits)

interpretation flagr: register_file GetFlag SetFlag "{X86_REF_CF..X86_REF_OF}" state_wf
  by unfold_locales (auto simp: GetFlag_def SetFlag_def state_wf_def split: if_splits)

section \<open>Properties\<close>

text \<open>C22: \<^verbatim>\<open>SetUserDesc\<close> and \<^verbatim>\<open>felix86_set_segment\<close> keep every cached segment base
  equal to the descriptor-table entry its selector names.\<close>

theorem segments_stay_coherent:
  assumes "seg_coherent st"
  shows "(SetUserDesc u st = Some (0, u', st1) \<longrightarrow> seg_coherent st1)
     \<and> (unat val < 2 ^ 16 \<and> felix86_set_segment val seg st = Some st2 \<longrightarrow> seg_coherent st2)"
  using SetUserDesc_run [OF assms] felix86_set_segment_coherent [OF assms] by blast

theorem segments_stay_coherent_witness:
  "\<exists>u' st1 st2. SetUserDesc \<lparr>entry_number = -1, base_addr = 0x1000\<rparr> ThreadState_default = Some (0, u', st1)
     \<and> entry_number u' = 12 \<and> felix86_set_segment 0x63 GS st1 = Some st2
     \<and> gsbase st2 = 0x1000 \<and> seg_coherent st2"
proof -
  let ?u = "\<lparr>entry_number = -1, base_addr = 0x1000\<rparr> :: user_desc"
  obtain u' st1 where 1: "SetUserDesc ?u ThreadState_default = Some (0, u', st1)"
    "entry_number u' = 12" "gdt st1 = (replicate 32 0)[12 := 0x1000]"
    by (simp add: SetUserDesc_def ThreadState_default_def Let_def nth_append)
  obtain st2 where 2: "felix86_set_segment 0x63 GS st1 = Some st2" "gsbase st2 = 0x1000"
    by (simp add: felix86_set_segment_def 1(3) Let_def ASSERT_def)
  have "seg_coherent st1" using segments_stay_coherent [OF seg_coherent_default] 1(1) by blast
  moreover have "unat (0x63 :: u64) < 2 ^ 16" by simp
  ultimately have "seg_coherent st2" using segments_stay_coherent 2(1) by blast
  with 1 2 show ?thesis by blast
qed

text \<open>C23: \<^verbatim>\<open>SetUserDesc\<close> with entry number -1 takes the first free slot among 12, 13
  and 14 and reports it; with none free it returns \<^verbatim>\<open>-ESRCH\<close> and changes nothing.\<close>

theorem SetUserDesc_slot:
  assumes "length (gdt st) = 32" and "entry_number u = -1"
  shows "if gdt st ! 12 \<noteq> 0 \<and> gdt st ! 13 \<noteq> 0 \<and> gdt st ! 14 \<noteq> 0
         then SetUserDesc u st = Some (- ESRCH, u, st)
         else \<exists>i u' st'. SetUserDesc u st = Some (0, u', st') \<and> 12 \<le> i \<and> i \<le> 14
                \<and> gdt st ! i = 0 \<and> (\<forall>j. 12 \<le> j \<and> j < i \<longrightarrow> gdt st ! j \<noteq> 0)
                \<and> entry_number u' = int i \<and> gdt st' = (gdt st)[i := base_addr u]"
proof -
  consider "gdt st ! 12 = 0" | "gdt st ! 12 \<noteq> 0" "gdt st ! 13 = 0"
    | "gdt st ! 12 \<noteq> 0" "gdt st ! 13 \<noteq> 0" "gdt st ! 14 = 0"
    | "gdt st ! 12 \<noteq> 0" "gdt st ! 13 \<noteq> 0" "gdt st ! 14 \<noteq> 0" by blast
  then show ?thesis
  proof cases
    case 1
    then show ?thesis using assms by (auto simp: SetUserDesc_def Let_def intro!: exI [of _ 12])
  next
    case 2
    then show ?thesis using assms
      by (auto simp: SetUserDesc_def Let_def less_Suc_eq eval_nat_numeral intro!: exI [of _ 13])
  next
    case 3
    then show ?thesis using assms
      by (auto simp: SetUserDesc_def Let_def less_Suc_eq eval_nat_numeral intro!: exI [of _ 14])
  qed (use assms in \<open>simp add: SetUserDesc_def Let_def\<close>)
qed

theorem SetUserDesc_slot_witness:
  "\<exists>u' st'. SetUserDesc \<lparr>entry_number = -1, base_addr = 7\<rparr> ThreadState_default = Some (0, u', st')"
  using SetUserDesc_slot [of ThreadState_default "\<lparr>entry_number = -1, base_addr = 7\<rparr>"]
  by (auto simp: ThreadState_default_def nth_append)

text \<open>Exchanging two general-purpose registers through \<^verbatim>\<open>GetGpr\<close> and \<^verbatim>\<open>SetGpr\<close> swaps exactly these
  two and keeps the state well formed.\<close>

lemma gpr_exchange:
  assumes "state_wf st" and "a \<le> X86_REF_R15" and "b \<le> X86_REF_R15"
  shows "\<exists>x y st1 st2. GetGpr a st = Some x \<and> GetGpr b st = Some y
     \<and> SetGpr a y st = Some st1 \<and> SetGpr b x st1 = Some st2 \<and> state_wf st2
     \<and> GetGpr a st2 = Some y \<and> GetGpr b st2 = Some x
     \<and> (\<forall>q. q \<noteq> a \<and> q \<noteq> b \<longrightarrow> GetGpr q st2 = GetGpr q st)"
  using gpr.exchange_swaps [OF assms(1), of a b] assms(2,3) gpr.get_valid [of a st] gpr.get_valid [of b st]
  by (auto simp: gpr.exchange_def split: bind_splits)

section \<open>Where the state falls short\<close>

text \<open>The \<^verbatim>\<open>u64\<close> overload of \<^verbatim>\<open>SetXmm\<close> can never succeed: every register its guard
  admits has a negative array index.\<close>

lemma SetXmm_u64_never: "SetXmm_u64 ref v st = None"
  by (auto simp: SetXmm_u64_def ASSERT_def)

text \<open>A new thread copies the segment bases but not the descriptor table (nor the
  direction flag), so reloading the parent's own selector gives another base.\<close>

lemma Create_drops_gdt:
  "\<exists>p. state_wf p \<and> seg_coherent p \<and> df p \<and> \<not> seg_coherent (Create (Some p)) \<and> \<not> df (Create (Some p))
     \<and> gsbase (Create (Some p)) = gsbase p
     \<and> map_option gsbase (felix86_set_segment (ucast (gs p)) GS p) = Some 0x1000
     \<and> map_option gsbase (felix86_set_segment (ucast (gs p)) GS (Create (Some p))) = Some 0"
  by (intro exI [of _ "ThreadState_default\<lparr>df := True, gs := 0x63, gsbase := 0x1000,
        gdt := (replicate 32 0)[12 := 0x1000]\<rparr>"])
    (simp add: state_wf_def seg_coherent_def seg_agrees_def Create_def ThreadState_default_def
      felix86_set_segment_def Let_def ASSERT_def nth_append nth_list_update)

end
