(* ===== verification/X87.thy ===== *)
theory X87
  imports ThreadState
begin

text \<open>
  The x87 and MMX helpers of \<^verbatim>\<open>common/utility.cpp\<close>: the conversion between 64-bit and
  80-bit floating-point formats, and the save and restore instructions
  (\<^verbatim>\<open>fsave\<close>, \<^verbatim>\<open>frstor\<close>, \<^verbatim>\<open>fxsave\<close>, \<^verbatim>\<open>fxrstor\<close>, \<^verbatim>\<open>fstenv\<close>, \<^verbatim>\<open>fldenv\<close>) over
  the structures they fill. A \<^verbatim>\<open>double\<close> is its 64-bit pattern.
\<close>

section \<open>Formats\<close>

record Float80 =
  significand :: u64
  signExp :: u16

definition f64_to_80 :: "u64 \<Rightarrow> Float80" where
  "f64_to_80 u = (
     let sgn = ucast (drop_bit 63 u AND 1) :: u16;
         exponent = ucast (drop_bit 52 u AND 0x7FF) :: u16;
         sig = u AND 0xFFFFFFFFFFFFF in
     if exponent = 0 then \<lparr>significand = sig, signExp = push_bit 15 sgn\<rparr>
     else if exponent = 0x7FF then
       \<lparr>significand = (if sig \<noteq> 0 then push_bit 63 1 OR sig else 0), signExp = push_bit 15 sgn OR 0x7FFF\<rparr>
     else
       \<lparr>significand = push_bit 11 (sig OR push_bit 52 1),
        signExp = push_bit 15 sgn OR ((exponent - 1023 + 16383) AND 0x7FFF)\<rparr>)"

text \<open>\<^verbatim>\<open>exponent\<close> is an \<^verbatim>\<open>int16_t\<close> that the cast to \<^verbatim>\<open>uint64_t\<close> sign-extends.\<close>

definition f80_to_64 :: "Float80 \<Rightarrow> u64" where
  "f80_to_64 f = (
     let sgn = ucast (drop_bit 15 (signExp f) AND 1) :: u64;
         exponent = signExp f AND 0x7FFF;
         sig = significand f in
     if exponent = 0 then push_bit 63 sgn OR drop_bit 11 sig
     else if exponent = 0x7FFF then
       push_bit 63 sgn OR push_bit 52 0x7FF OR (if sig \<noteq> 0 then drop_bit 11 sig else 0)
     else push_bit 63 sgn OR push_bit 52 (scast (exponent - 16383 + 1023))
          OR (drop_bit 11 sig AND 0xFFFFFFFFFFFFF))"

definition rounding_mode :: "u32 \<Rightarrow> RMode option" where
  "rounding_mode mode =
     (if mode = 0 then Some RNE else if mode = 1 then Some RDN
      else if mode = 2 then Some RUP else if mode = 3 then Some RTZ else None)"

text \<open>The call sites mask the control word to two bits, so the switch is total there.\<close>

definition rmode_of :: "u16 \<Rightarrow> RMode" where
  "rmode_of cw = the (rounding_mode (ucast (drop_bit 10 cw AND 3)))"

definition rmode_sse_of :: "u32 \<Rightarrow> RMode" where
  "rmode_sse_of v = the (rounding_mode (drop_bit 13 v AND 3))"

section \<open>Saved images\<close>

record fenv_data_16 =
  cw16 :: u16
  sw16 :: u16
  tw16 :: u16
  fip16 :: u16
  fcs16 :: u16
  fdp16 :: u16
  fds16 :: u16

record fenv_data_32 =
  cw32 :: u16
  sw32 :: u16
  tw32 :: u16
  fip32 :: u32
  unused32 :: u32
  fdp32 :: u32
  fds32 :: u32

record fsave_data_16 =
  env16 :: fenv_data_16
  st16 :: "Float80 list"

record fsave_data_32 =
  env32 :: fenv_data_32
  st32 :: "Float80 list"

record fxsave_data =
  fcw :: u16
  fsw :: u16
  ftw :: u8
  fx_mxcsr :: u32
  fx_st :: "Float80 list"
  xmms :: "XmmReg list"

definition is_mmx :: "thread_state \<Rightarrow> bool" where
  "is_mmx st \<longleftrightarrow> x87_state st = MMX"

text \<open>One register of the saved stack: MMX contents are stored raw with an exponent of ones.\<close>

definition save_st :: "thread_state \<Rightarrow> nat \<Rightarrow> Float80" where
  "save_st st i = (if is_mmx st then \<lparr>significand = fp st ! i, signExp = 0xFFFF\<rparr>
                   else f64_to_80 (fp st ! i))"

definition load_st :: "u16 \<Rightarrow> Float80 \<Rightarrow> u64" where
  "load_st control f = (if control AND 0x8000 \<noteq> 0 then significand f else f80_to_64 f)"

definition status_word :: "thread_state \<Rightarrow> u16" where
  "status_word st = push_bit 11 (ucast (fpu_top st)) OR (fpu_sw st AND NOT (push_bit 11 7))"

definition saved_cw :: "thread_state \<Rightarrow> u16" where
  "saved_cw st = (if is_mmx st then fpu_cw st OR 0x8000 else fpu_cw st)"

definition felix86_fsave_16 :: "thread_state \<Rightarrow> fsave_data_16 \<Rightarrow> fsave_data_16" where
  "felix86_fsave_16 st d =
     \<lparr>env16 = (env16 d)\<lparr>cw16 := saved_cw st, tw16 := fpu_tw st, sw16 := status_word st\<rparr>,
      st16 = map (save_st st) [0..<8]\<rparr>"

definition felix86_fsave_32 :: "thread_state \<Rightarrow> fsave_data_32 \<Rightarrow> fsave_data_32" where
  "felix86_fsave_32 st d =
     \<lparr>env32 = (env32 d)\<lparr>cw32 := saved_cw st, tw32 := fpu_tw st, sw32 := status_word st\<rparr>,
      st32 = map (save_st st) [0..<8]\<rparr>"

text \<open>What every restore does with the control, tag and status words.\<close>

definition load_env :: "u16 \<Rightarrow> u16 \<Rightarrow> u16 \<Rightarrow> thread_state \<Rightarrow> thread_state" where
  "load_env c t s st = st\<lparr>fpu_top := ucast (drop_bit 11 s AND 7), fpu_cw := c, fpu_tw := t,
     fpu_sw := s, rmode_x87 := rmode_of c\<rparr>"

definition felix86_frstor_16 :: "fsave_data_16 \<Rightarrow> thread_state \<Rightarrow> thread_state" where
  "felix86_frstor_16 d st = (
     let st1 = load_env (cw16 (env16 d)) (tw16 (env16 d)) (sw16 (env16 d)) st in
     st1\<lparr>fp := map (\<lambda>i. load_st (fpu_cw st1) (st16 d ! i)) [0..<8]\<rparr>)"

definition felix86_frstor_32 :: "fsave_data_32 \<Rightarrow> thread_state \<Rightarrow> thread_state" where
  "felix86_frstor_32 d st = (
     let st1 = load_env (cw32 (env32 d)) (tw32 (env32 d)) (sw32 (env32 d)) st in
     st1\<lparr>fp := map (\<lambda>i. load_st (fpu_cw st1) (st32 d ! i)) [0..<8]\<rparr>)"

definition felix86_fxsave :: "thread_state \<Rightarrow> fxsave_data" where
  "felix86_fxsave st = \<lparr>fcw = saved_cw st, fsw = status_word st, ftw = ucast (fpu_tw st),
     fx_mxcsr = mxcsr st, fx_st = map (save_st st) [0..<8], xmms = map ((!) (xmm st)) [0..<16]\<rparr>"

definition felix86_fxrstor :: "fxsave_data \<Rightarrow> thread_state \<Rightarrow> thread_state" where
  "felix86_fxrstor d st = (
     let st1 = st\<lparr>xmm := map ((!) (xmms d)) [0..<16], fpu_cw := fcw d, fpu_tw := ucast (ftw d),
                  fpu_sw := fsw d, fpu_top := ucast (drop_bit 11 (fsw d) AND 7), mxcsr := fx_mxcsr d\<rparr> in
     st1\<lparr>fp := map (\<lambda>i. load_st (fpu_cw st1) (fx_st d ! i)) [0..<8],
         rmode_x87 := rmode_of (fpu_cw st1), rmode_sse := rmode_sse_of (mxcsr st1)\<rparr>)"

definition felix86_fstenv_16 :: "thread_state \<Rightarrow> fenv_data_16 \<Rightarrow> fenv_data_16" where
  "felix86_fstenv_16 st e = e\<lparr>cw16 := fpu_cw st, tw16 := fpu_tw st, sw16 := status_word st\<rparr>"

definition felix86_fstenv_32 :: "thread_state \<Rightarrow> fenv_data_32 \<Rightarrow> fenv_data_32" where
  "felix86_fstenv_32 st e = e\<lparr>cw32 := fpu_cw st, tw32 := fpu_tw st, sw32 := status_word st\<rparr>"

definition felix86_fldenv_16 :: "fenv_data_16 \<Rightarrow> thread_state \<Rightarrow> thread_state" where
  "felix86_fldenv_16 e st = load_env (cw16 e) (tw16 e) (sw16 e) st"

definition felix86_fldenv_32 :: "fenv_data_32 \<Rightarrow> thread_state \<Rightarrow> thread_state" where
  "felix86_fldenv_32 e st = load_env (cw32 e) (tw32 e) (sw32 e) st"

section \<open>Classification\<close>

definition C0_BIT :: u16 where "C0_BIT = push_bit 8 1"
definition C1_BIT :: u16 where "C1_BIT = push_bit 9 1"
definition C2_BIT :: u16 where "C2_BIT = push_bit 10 1"
definition C3_BIT :: u16 where "C3_BIT = push_bit 14 1"

definition felix86_fxam :: "thread_state \<Rightarrow> thread_state" where
  "felix86_fxam st = (
     let st0 = fp st ! 0;
         sgn = bit st0 63;
         zero = (st0 AND 0x7FFFFFFFFFFFFFFF = 0);
         isinf = (st0 AND 0x7FFFFFFFFFFFFFFF = push_bit 52 0x7FF);
         c = (if zero then 4 else if isinf then 3 else 2 :: u8);
         sw = fpu_sw st AND NOT (C0_BIT OR C1_BIT OR C2_BIT OR C3_BIT) in
     st\<lparr>fpu_sw := sw OR (if bit c 0 then C0_BIT else 0) OR (if sgn then C1_BIT else 0)
                  OR (if bit c 1 then C2_BIT else 0) OR (if bit c 2 then C3_BIT else 0)\<rparr>)"


lemma and_masks:
  "x AND 0x7FF = take_bit 11 (x :: u64)" "x AND 0xFFFFFFFFFFFFF = take_bit 52 x"
  "y AND 0x7FFF = take_bit 15 (y :: u16)"
  by (simp_all add: take_bit_eq_mask mask_numeral)

lemma take_bit_1_eq: "take_bit 1 x = x AND (1 :: u64)"
  by (simp add: take_bit_eq_mask)

lemma f64_fields:
  "push_bit 63 (take_bit 1 (drop_bit 63 u)) OR push_bit 52 (take_bit 11 (drop_bit 52 u))
     OR take_bit 52 u = (u :: u64)"
proof (rule bit_word_eqI)
  fix n
  assume "n < LENGTH(64)"
  then consider "n < 52" | "52 \<le> n" "n < 63" | "n = 63" by fastforce
  then show "bit (push_bit 63 (take_bit 1 (drop_bit 63 u)) OR push_bit 52 (take_bit 11 (drop_bit 52 u))
     OR take_bit 52 u) n = bit u n"
    by cases (auto simp: bit_simps simp flip: bit_iff_odd_drop_bit)
qed

definition f64_exponent :: "u64 \<Rightarrow> u64" where "f64_exponent u = drop_bit 52 u AND 0x7FF"
definition f64_mantissa :: "u64 \<Rightarrow> u64" where "f64_mantissa u = u AND 0xFFFFFFFFFFFFF"
definition f64_sign :: "u64 \<Rightarrow> u64" where "f64_sign u = push_bit 63 (drop_bit 63 u AND 1)"

lemma exponent_rebias:
  assumes "unat e < 0x7FF"
  shows "take_bit 15 (e - 1023 + 16383) = (e + 15360 :: u16)"
    and "unat (e + 15360 :: u16) = unat e + 15360"
proof -
  show u: "unat (e + 15360 :: u16) = unat e + 15360"
    using assms by (simp add: unat_word_ariths)
  have "e - 1023 + 16383 = e + 15360" by simp
  then show "take_bit 15 (e - 1023 + 16383) = (e + 15360 :: u16)"
    using u assms by (simp add: word_unat_eq_iff unsigned_take_bit_eq take_bit_nat_eq_self)
qed

lemma sign_exp_fields:
  assumes "unat x < 2 ^ 15"
  shows "drop_bit 15 (push_bit 15 (ucast (drop_bit 63 u AND 1) :: u16) OR x) AND 1 = ucast (drop_bit 63 (u :: u64) AND 1)"
    and "take_bit 15 (push_bit 15 (ucast (drop_bit 63 u AND 1)) OR x) = x"
proof -
  have "take_bit 15 x = x" using assms by (simp add: word_unat_eq_iff unsigned_take_bit_eq take_bit_nat_eq_self)
  then have hi: "\<not> bit x 15"  by (metis bit_take_bit_iff less_irrefl)
  show "take_bit 15 (push_bit 15 (ucast (drop_bit 63 u AND 1)) OR x) = x"
    using \<open>take_bit 15 x = x\<close> by (simp add: take_bit_push_bit take_bit_or)
  show "drop_bit 15 (push_bit 15 (ucast (drop_bit 63 u AND 1) :: u16) OR x) AND 1 = ucast (drop_bit 63 u AND 1)"
    by (rule bit_word_eqI) (use hi in \<open>auto simp: bit_simps\<close>)
qed


lemma f80_to_64_normal:
  "x AND 0x7FFF \<noteq> 0 \<Longrightarrow> x AND 0x7FFF \<noteq> 0x7FFF \<Longrightarrow> f80_to_64 \<lparr>significand = m, signExp = x\<rparr> =
     push_bit 63 (ucast (drop_bit 15 x AND 1)) OR push_bit 52 (scast ((x AND 0x7FFF) - 16383 + 1023))
     OR (drop_bit 11 m AND 0xFFFFFFFFFFFFF)"
  unfolding f80_to_64_def Let_def by simp

definition exp16 :: "u64 \<Rightarrow> u16" where "exp16 u = ucast (drop_bit 52 u AND 0x7FF)"
definition sign16 :: "u64 \<Rightarrow> u16" where "sign16 u = ucast (drop_bit 63 u AND 1)"

lemma exp16_facts:
  "unat (exp16 u) < 2 ^ 11" "exp16 u = 0 \<longleftrightarrow> f64_exponent u = 0"
  "exp16 u = 0x7FF \<longleftrightarrow> f64_exponent u = 0x7FF" "scast (exp16 u) = f64_exponent u"
proof -
  have ue: "unat (exp16 u) = unat (f64_exponent u)"
    by (simp add: exp16_def f64_exponent_def and_masks unsigned_ucast_eq take_bit_take_bit
        unsigned_take_bit_eq)
  then show "exp16 u = 0 \<longleftrightarrow> f64_exponent u = 0" "exp16 u = 0x7FF \<longleftrightarrow> f64_exponent u = 0x7FF"
    by (simp_all add: word_unat_eq_iff)
  show "unat (exp16 u) < 2 ^ 11"
    using take_bit_nat_less_exp [of 11 "unat (drop_bit 52 u)"]
    by (simp add: exp16_def and_masks unsigned_ucast_eq take_bit_take_bit unsigned_take_bit_eq)
  show "scast (exp16 u) = f64_exponent u"
    unfolding exp16_def f64_exponent_def and_masks
    by (rule bit_word_eqI) (auto simp: bit_simps min_def)
qed

lemma f64_sign_16: "push_bit 63 (ucast (sign16 u)) = f64_sign u"
proof -
  have "ucast (sign16 u) = drop_bit 63 u AND 1"
    unfolding sign16_def by (rule bit_word_eqI) (auto simp: bit_simps)
  then show ?thesis by (simp only: f64_sign_def)
qed

lemma f64_to_80_parts:
  "f64_to_80 u = (if exp16 u = 0 then \<lparr>significand = f64_mantissa u, signExp = push_bit 15 (sign16 u) OR 0\<rparr>
     else if exp16 u = 0x7FF then
       \<lparr>significand = (if f64_mantissa u \<noteq> 0 then push_bit 63 1 OR f64_mantissa u else 0),
        signExp = push_bit 15 (sign16 u) OR 0x7FFF\<rparr>
     else \<lparr>significand = push_bit 11 (f64_mantissa u OR push_bit 52 1),
        signExp = push_bit 15 (sign16 u) OR ((exp16 u - 1023 + 16383) AND 0x7FFF)\<rparr>)"
  by (simp add: f64_to_80_def Let_def exp16_def sign16_def f64_mantissa_def)

lemmas sign16_fields = sign_exp_fields [of _ u for u, folded sign16_def]

lemma f64_roundtrip_special:
  assumes "f64_exponent u = 0 \<or> f64_exponent u = 0x7FF"
  shows "f80_to_64 (f64_to_80 u) = f64_sign u OR push_bit 52 (f64_exponent u) OR drop_bit 11 (f64_mantissa u)"
proof (cases "f64_exponent u = 0")
  case True
  have "f80_to_64 (f64_to_80 u) = push_bit 63 (ucast (sign16 u)) OR drop_bit 11 (f64_mantissa u)"
    using sign16_fields [of 0 u] True exp16_facts(2) [of u]
    by (simp add: f64_to_80_parts f80_to_64_def and_masks)
  then show ?thesis by (simp add: f64_sign_16 True)
next
  case False
  with assms have top: "f64_exponent u = 0x7FF" by blast
  let ?n = "push_bit 63 1 OR f64_mantissa u"
  have "bit ?n 63" by (simp add: bit_simps)
  then have n: "?n \<noteq> 0" by auto
  have d: "drop_bit 11 ?n = push_bit 52 1 OR drop_bit 11 (f64_mantissa u)" by (simp add: drop_bit_or)
  have "f80_to_64 (f64_to_80 u) = push_bit 63 (ucast (sign16 u)) OR push_bit 52 0x7FF
      OR (if f64_mantissa u \<noteq> 0 then drop_bit 11 ?n else 0)"
    using sign16_fields [of "0x7FFF" u] top n exp16_facts(2,3) [of u]
    by (simp only: f64_to_80_parts f80_to_64_def Let_def and_masks) (simp add: and_masks)
  also have "\<dots> = f64_sign u OR push_bit 52 0x7FF OR drop_bit 11 (f64_mantissa u)"
    unfolding d f64_sign_16 by (simp add: or.left_commute flip: or.assoc)
  finally show ?thesis using top by simp
qed

lemma f64_roundtrip_normal:
  assumes "f64_exponent u \<noteq> 0" and "f64_exponent u \<noteq> 0x7FF"
  shows "f80_to_64 (f64_to_80 u) = u"
proof -
  let ?e = "exp16 u"
  have e: "?e \<noteq> 0" "?e \<noteq> 0x7FF" using assms exp16_facts(2,3) by auto
  then have lt7: "unat ?e < 0x7FF" using exp16_facts(1) [of u] by (simp add: word_unat_eq_iff)
  note r = exponent_rebias [OF lt7]
  have "unat (?e + 15360) < 2 ^ 15" using r(2) lt7 by simp
  note p = sign16_fields [OF this, of u]
  have nz: "?e + 15360 \<noteq> 0" "?e + 15360 \<noteq> 0x7FFF" using r(2) lt7 by (auto simp: word_unat_eq_iff)
  define X where "X = push_bit 15 (sign16 u) OR (?e + 15360)"
  define S where "S = push_bit 11 (f64_mantissa u OR push_bit 52 1)"
  have f: "f64_to_80 u = \<lparr>significand = S, signExp = X\<rparr>"
    unfolding f64_to_80_parts X_def S_def and_masks r(1) using e by simp
  have S: "drop_bit 11 S AND 0xFFFFFFFFFFFFF = take_bit 52 u"
    unfolding S_def f64_mantissa_def and_masks by (rule bit_word_eqI) (auto simp: bit_simps)
  note pX = p [folded X_def]
  have "f80_to_64 (f64_to_80 u) = push_bit 63 (ucast (drop_bit 15 X AND 1))
      OR push_bit 52 (scast ((X AND 0x7FFF) - 16383 + 1023)) OR (drop_bit 11 S AND 0xFFFFFFFFFFFFF)"
    unfolding f by (rule f80_to_64_normal) (use pX nz in \<open>simp_all add: and_masks\<close>)
  also have "\<dots> = f64_sign u OR push_bit 52 (f64_exponent u) OR take_bit 52 u"
    unfolding pX(1) S f64_sign_16 using pX(2) exp16_facts(4) by (simp add: and_masks)
  also have "\<dots> = u"
    unfolding f64_sign_def f64_exponent_def and_masks by (rule f64_fields [unfolded take_bit_1_eq])
  finally show ?thesis .
qed

lemma shifted_mantissa: "drop_bit 11 m = m \<longleftrightarrow> m = (0 :: u64)"
proof
  assume "drop_bit 11 m = m"
  moreover have "unat (drop_bit 11 m) = unat m div 2048" by (simp add: drop_bit_eq_div unat_div_distrib)
  ultimately have "unat m div 2048 = unat m" by simp
  then show "m = 0" by (simp add: word_unat_eq_iff)
qed simp

lemma f64_roundtrip_iff:
  "f80_to_64 (f64_to_80 u) = u \<longleftrightarrow>
     f64_exponent u \<noteq> 0 \<and> f64_exponent u \<noteq> 0x7FF \<or> f64_mantissa u = 0"
proof (cases "f64_exponent u \<noteq> 0 \<and> f64_exponent u \<noteq> 0x7FF")
  case False
  let ?r = "f64_sign u OR push_bit 52 (f64_exponent u) OR drop_bit 11 (f64_mantissa u)"
  have run: "f80_to_64 (f64_to_80 u) = ?r" using False f64_roundtrip_special by blast
  have u: "f64_sign u OR push_bit 52 (f64_exponent u) OR f64_mantissa u = u"
    unfolding f64_sign_def f64_exponent_def f64_mantissa_def and_masks
    by (rule f64_fields [unfolded take_bit_1_eq])
  have t: "take_bit 52 ?r = drop_bit 11 (f64_mantissa u)" "take_bit 52 u = f64_mantissa u"
    unfolding f64_sign_def f64_mantissa_def and_masks
    by (rule bit_word_eqI; auto simp: bit_simps)+
  have "?r = u \<longleftrightarrow> drop_bit 11 (f64_mantissa u) = f64_mantissa u" using t u by metis
  then show ?thesis using run False shifted_mantissa by auto
qed (use f64_roundtrip_normal in auto)

section \<open>Saving and restoring\<close>

definition survives :: "thread_state \<Rightarrow> bool" where
  "survives st \<longleftrightarrow> is_mmx st \<or> fpu_cw st AND 0x8000 = 0
     \<and> (\<forall>u\<in>set (fp st). f64_exponent u \<noteq> 0 \<and> f64_exponent u \<noteq> 0x7FF \<or> f64_mantissa u = 0)"

lemma top_status_word:
  assumes "fpu_top st < 8"
  shows "ucast (drop_bit 11 (status_word st) AND 7) = fpu_top st"
proof -
  have "take_bit 3 (fpu_top st) = fpu_top st"
    using assms by (simp add: word_less_nat_alt word_unat_eq_iff unsigned_take_bit_eq take_bit_nat_eq_self)
  then have hi: "\<not> bit (fpu_top st) n" if "3 \<le> n" for n
    using that by (metis bit_take_bit_iff not_less)
  have seven: "(7 :: u16) = mask 3" by (simp add: mask_numeral)
  show ?thesis
  proof (rule bit_word_eqI)
    fix n
    assume "n < LENGTH(8)"
    then show "bit (ucast (drop_bit 11 (status_word st) AND 7) :: u8) n = bit (fpu_top st) n"
      unfolding status_word_def seven using hi [of n] by (cases "n < 3") (auto simp: bit_simps)
  qed
qed

text \<open>
  What the three pairs of save and restore instructions have in common: the restored
  state takes its stack, control, status and tag words from the image the save made.
\<close>

locale x87_image =
  fixes save :: "thread_state \<Rightarrow> 'd" and restore :: "'d \<Rightarrow> thread_state \<Rightarrow> thread_state"
  assumes restored_fp: "fp (restore (save s) t) = map (\<lambda>i. load_st (saved_cw s) (save_st s i)) [0..<8]"
    and restored_cw: "fpu_cw (restore (save s) t) = saved_cw s"
    and restored_sw: "fpu_sw (restore (save s) t) = status_word s"
    and restored_top: "fpu_top (restore (save s) t) = ucast (drop_bit 11 (status_word s) AND 7)"
    and restored_rm: "rmode_x87 (restore (save s) t) = rmode_of (saved_cw s)"
begin

lemma load_save_st:
  assumes "survives s" and "length (fp s) = 8" and "i < 8"
  shows "load_st (saved_cw s) (save_st s i) = fp s ! i"
proof (cases "is_mmx s")
  case True
  have "bit ((fpu_cw s OR 0x8000) AND 0x8000) 15" by (simp add: bit_simps)
  then have "(fpu_cw s OR 0x8000) AND 0x8000 \<noteq> 0" by auto
  with True show ?thesis by (simp add: load_st_def save_st_def saved_cw_def)
next
  case False
  with assms have "fpu_cw s AND 0x8000 = 0" "f80_to_64 (f64_to_80 (fp s ! i)) = fp s ! i"
    by (auto simp: survives_def f64_roundtrip_iff)
  with False show ?thesis by (simp add: load_st_def save_st_def saved_cw_def)
qed

lemma restores:
  assumes "survives s" and "length (fp s) = 8" and "fpu_top s < 8"
  shows "fp (restore (save s) t) = fp s \<and> fpu_top (restore (save s) t) = fpu_top s
     \<and> fpu_sw (restore (save s) t) = status_word s
     \<and> fpu_cw (restore (save s) t) = (if is_mmx s then fpu_cw s OR 0x8000 else fpu_cw s)
     \<and> rmode_x87 (restore (save s) t) = rmode_of (fpu_cw s)"
proof -
  have "fp (restore (save s) t) = map (\<lambda>i. fp s ! i) [0..<8]"
    by (simp add: restored_fp load_save_st assms(1,2))
  also have "\<dots> = fp s" using assms(2) by (metis map_nth)
  finally have f: "fp (restore (save s) t) = fp s" .
  have "drop_bit 10 (x OR 0x8000) AND 3 = drop_bit 10 x AND (3 :: u16)" for x
  proof -
    have "drop_bit 10 (0x8000 :: u16) AND 3 = 0" by simp
    then show ?thesis by (simp add: drop_bit_or bit.conj_disj_distrib2)
  qed
  then have "rmode_of (saved_cw s) = rmode_of (fpu_cw s)" by (simp add: rmode_of_def saved_cw_def)
  with f show ?thesis
    by (simp add: restored_top restored_sw restored_cw restored_rm top_status_word [OF assms(3)])
      (simp add: saved_cw_def)
qed

end

lemmas image_defs = felix86_fsave_16_def felix86_frstor_16_def felix86_fsave_32_def felix86_frstor_32_def
  felix86_fxsave_def felix86_fxrstor_def load_env_def

interpretation f16: x87_image "\<lambda>s. felix86_fsave_16 s d" felix86_frstor_16 for d
  by unfold_locales (simp_all add: image_defs Let_def cong: map_cong)

interpretation f32: x87_image "\<lambda>s. felix86_fsave_32 s d" felix86_frstor_32 for d
  by unfold_locales (simp_all add: image_defs Let_def cong: map_cong)

interpretation fx: x87_image felix86_fxsave felix86_fxrstor
  by unfold_locales (simp_all add: image_defs Let_def cong: map_cong)

section \<open>Properties\<close>

text \<open>C15: a double converted to 80 bits and back is unchanged exactly when it is a normal
  number, a zero or an infinity; denormals and NaNs lose the low eleven bits of the
  mantissa, because their significands are not shifted on the way up.\<close>

theorem f64_f80_roundtrip:
  "f80_to_64 (f64_to_80 u) =
     (if f64_exponent u \<noteq> 0 \<and> f64_exponent u \<noteq> 0x7FF then u
      else f64_sign u OR push_bit 52 (f64_exponent u) OR drop_bit 11 (f64_mantissa u))
   \<and> (f80_to_64 (f64_to_80 u) = u \<longleftrightarrow>
        f64_exponent u \<noteq> 0 \<and> f64_exponent u \<noteq> 0x7FF \<or> f64_mantissa u = 0)"
  using f64_roundtrip_normal f64_roundtrip_special f64_roundtrip_iff by auto



section \<open>Where the conversions fall short\<close>

text \<open>The marker bit an MMX save leaves in the control word survives the restore, so a
  later x87 save and restore copies the raw 80-bit significand into a 64-bit register:
  1.0 comes back as another number.\<close>

lemma fsave_marker_sticks:
  "let m = ThreadState_default\<lparr>x87_state := MMX\<rparr>;
       s1 = felix86_fxrstor (felix86_fxsave m) m;
       s2 = s1\<lparr>x87_state := x87, fp := replicate 8 0x3FF0000000000000\<rparr>;
       s3 = felix86_fxrstor (felix86_fxsave s2) s2 in
   fp s3 = replicate 8 0x8000000000000000"
  by code_simp

text \<open>A NaN whose payload sits in the low eleven bits comes back as infinity.\<close>

lemma nan_becomes_infinity: "f80_to_64 (f64_to_80 0x7FF0000000000001) = 0x7FF0000000000000"
  by (simp add: f64_to_80_def f80_to_64_def Let_def)

text \<open>An 80-bit number above the double range does not become infinity: its exponent
  overflows into the sign bit, and the positive number \<open>2 ^ 1025\<close> becomes negative zero.\<close>

lemma large_f80_wraps:
  "f80_to_64 \<lparr>significand = 0x8000000000000000, signExp = 0x4400\<rparr> = 0x8000000000000000"
  by (simp add: f80_to_64_def Let_def)

text \<open>\<^verbatim>\<open>fxam\<close> reports a NaN as a normal number (C2 alone).\<close>

lemma fxam_nan_is_normal:
  "fpu_sw (felix86_fxam (ThreadState_default\<lparr>fp := [0x7FF8000000000000]\<rparr>)) = C2_BIT"
  by (simp add: felix86_fxam_def ThreadState_default_def Let_def C0_BIT_def C1_BIT_def C2_BIT_def C3_BIT_def)

end
