(* ===== verification/Division.thy ===== *)
theory Division
  imports ThreadState "HOL-Library.Signed_Division"
begin

text \<open>
  The 128-by-64-bit division helpers of \<^verbatim>\<open>common/utility.cpp\<close> behind the
  \<^verbatim>\<open>DIV\<close> and \<^verbatim>\<open>IDIV\<close> instructions: the two-digit long division in base \<open>2 ^ 32\<close>
  with an estimated and corrected quotient digit, and the signed division on 128-bit integers.
  The sign-extension helpers of the immediates are here too.
\<close>

section \<open>Long division\<close>

text \<open>\<^verbatim>\<open>__builtin_clzll\<close>: the number of leading zeros.\<close>

fun clz_from :: "nat \<Rightarrow> u64 \<Rightarrow> nat" where
  "clz_from 0 x = 0"
| "clz_from (Suc n) x = (if bit x n then 0 else Suc (clz_from n x))"

definition clz :: "u64 \<Rightarrow> nat" where
  "clz x = clz_from 64 x"

text \<open>
  One digit of the quotient: \<open>n2 :: u64\<close> are the upper two digits, \<open>n0\<close> the next one.
  The source has these lines twice, for \<^verbatim>\<open>q1\<close> and \<^verbatim>\<open>q0\<close>.
\<close>

definition div_digit :: "u64 \<Rightarrow> u64 \<Rightarrow> u32 \<Rightarrow> u32 \<times> u64" where
  "div_digit den hi num = (
     let b = push_bit 32 1 :: u64;
         den1 = ucast (drop_bit 32 den) :: u32;
         den0 = ucast (den AND 0xFFFFFFFF) :: u32;
         qhat = hi div ucast den1;
         rhat = hi mod ucast den1;
         c1 = qhat * ucast den0;
         c2 = rhat * b + ucast num;
         qhat = (if c1 > c2 then qhat - (if c1 - c2 > den then 2 else 1) else qhat);
         q = ucast qhat :: u32;
         rem = hi * b + ucast num - ucast q * den in
     (q, rem))"

definition libdivide_128_div_64_to_64 :: "u64 \<Rightarrow> u64 \<Rightarrow> u64 \<Rightarrow> u64 \<times> u64" where
  "libdivide_128_div_64_to_64 numhi0 numlo0 den0 = (
     if numhi0 \<ge> den0 then (- 1, - 1)
     else
       let shift = clz den0;
           den = push_bit shift den0;
           numhi = push_bit shift numhi0
                   OR (drop_bit (nat ((- int shift) AND 63)) numlo0
                       AND signed_drop_bit 63 (- (of_nat shift :: u64)));
           numlo = push_bit shift numlo0;
           num1 = ucast (drop_bit 32 numlo) :: u32;
           num0 = ucast (numlo AND 0xFFFFFFFF) :: u32;
           (q1, rem) = div_digit den numhi num1;
           (q0, rem0) = div_digit den rem num0 in
       (push_bit 32 (ucast q1) OR ucast q0, drop_bit shift rem0))"

definition felix86_divu128 :: "u64 \<Rightarrow> thread_state \<Rightarrow> thread_state option" where
  "felix86_divu128 divisor st = do {
     ASSERT (divisor \<noteq> 0);
     let (quotient, remainder) =
       libdivide_128_div_64_to_64 (gprs st ! X86_REF_RDX) (gprs st ! X86_REF_RAX) divisor;
     Some (st\<lparr>gprs := (gprs st)[X86_REF_RAX := quotient, X86_REF_RDX := remainder]\<rparr>)
   }"

text \<open>C division truncates towards zero; \<open>INT128_MIN / -1\<close> has no value.\<close>

definition felix86_div128 :: "u64 \<Rightarrow> thread_state \<Rightarrow> thread_state option" where
  "felix86_div128 divisor st = do {
     ASSERT (divisor \<noteq> 0);
     let dividend = sint (gprs st ! X86_REF_RDX) * 2 ^ 64 + uint (gprs st ! X86_REF_RAX);
     ASSERT (\<not> (dividend = - (2 ^ 127) \<and> sint divisor = - 1));
     let quotient = (word_of_int (dividend sdiv sint divisor) :: u64);
     let remainder = (word_of_int (dividend smod sint divisor) :: u64);
     Some (st\<lparr>gprs := (gprs st)[X86_REF_RAX := quotient, X86_REF_RDX := remainder]\<rparr>)
   }"

section \<open>Sign extension\<close>

definition sext :: "u64 \<Rightarrow> x86_size \<Rightarrow> u64 option" where
  "sext v sz = (case sz of
     X86_SIZE_BYTE \<Rightarrow> Some (scast (ucast v :: u8))
   | X86_SIZE_WORD \<Rightarrow> Some (scast (ucast v :: u16))
   | X86_SIZE_DWORD \<Rightarrow> Some (scast (ucast v :: u32))
   | X86_SIZE_QWORD \<Rightarrow> Some v
   | _ \<Rightarrow> None)"

definition sext_if_64 :: "u64 \<Rightarrow> x86_size \<Rightarrow> u64 option" where
  "sext_if_64 v sz = (case sz of
     X86_SIZE_BYTE \<Rightarrow> Some v
   | X86_SIZE_WORD \<Rightarrow> Some v
   | X86_SIZE_DWORD \<Rightarrow> Some v
   | X86_SIZE_QWORD \<Rightarrow> Some (scast (ucast v :: u32))
   | _ \<Rightarrow> None)"

section \<open>The quotient digit in the natural numbers\<close>

text \<open>The base of the digits.\<close>

abbreviation (input) base32 :: nat where "base32 \<equiv> 4294967296"

lemma digit_deficit:
  fixes x y d0 d1 b :: nat
  assumes "x \<le> (b + 1) * d0" and "d0 < b" and "b \<le> 2 * d1"
  shows "x < y + 2 * (d1 * b + d0)"
proof -
  have "x \<le> d0 * b + d0" using assms(1) by (simp add: algebra_simps)
  also have "\<dots> < b * b + d0" using assms(2) by simp
  also have "\<dots> \<le> 2 * (d1 * b) + d0" using mult_le_mono1 [OF assms(3), of b] by simp
  finally show ?thesis by simp
qed

lemma estimate_ge:
  fixes qh d0 c2 d :: nat
  shows "c2 < qh * d0 \<Longrightarrow> 1 \<le> qh" and "d0 \<le> d \<Longrightarrow> d < qh * d0 - c2 \<Longrightarrow> 2 \<le> qh"
  by (cases qh; simp; fail)+ (cases qh; cases "qh - 1"; simp)

lemma estimate_bounds:
  assumes d0: "d0 < base32" and d1: "base32 \<le> 2 * d1" and hi: "hi < d1 * base32 + d0" and n: "n < base32"
  shows "hi div d1 \<le> base32 + 1" and "hi div d1 * d0 < base32 * base32" and "hi mod d1 * base32 + n < d1 * base32"
    and "hi div d1 * d0 < hi mod d1 * base32 + n + 2 * (d1 * base32 + d0)"
proof -
  have pos: "0 < d1" using d1 by simp
  have "hi < d1 * (base32 + 2)" using hi d0 d1 by (simp add: algebra_simps)
  then have "hi div d1 < base32 + 2" using pos by (simp add: div_less_iff_less_mult mult.commute)
  then show qh: "hi div d1 \<le> base32 + 1" by simp
  have "hi div d1 * d0 \<le> (base32 + 1) * (base32 - 1)" using qh d0 by (intro mult_mono) auto
  then show "hi div d1 * d0 < base32 * base32" by simp
  have "hi mod d1 + 1 \<le> d1" using pos by (simp add: Suc_le_eq)
  then have "(hi mod d1 + 1) * base32 \<le> d1 * base32" by (rule mult_le_mono1)
  then show "hi mod d1 * base32 + n < d1 * base32" using n by simp
  have "hi div d1 * d0 \<le> (base32 + 1) * d0" using qh by (rule mult_le_mono1)
  then show "hi div d1 * d0 < hi mod d1 * base32 + n + 2 * (d1 * base32 + d0)"
    using d0 d1 by (rule digit_deficit)
qed

lemma div_from_product:
  fixes num :: nat
  shows "num + c1 = qh * d + c2 \<Longrightarrow> c2 < c1 \<Longrightarrow> k * d \<le> num \<Longrightarrow> num < (k + 1) * d \<Longrightarrow> num div d = k"
  by (rule div_nat_eqI) (simp_all add: mult.commute)

text \<open>The corrected estimate is the quotient.\<close>

lemma digit_correct:
  assumes d0: "d0 < base32" and d1: "base32 \<le> 2 * d1" and hi: "hi < d1 * base32 + d0" and n: "n < base32"
    and D: "D = d1 * base32 + d0" and qh: "qh = hi div d1" and c1: "c1 = qh * d0" and c2: "c2 = hi mod d1 * base32 + n"
  shows "(hi * base32 + n) div D = (if c1 > c2 then qh - (if c1 - c2 > D then 2 else 1) else qh)"
    (is "?N div D = _")
proof -
  have pos: "0 < d1" "0 < D" using d1 D by simp_all
  have "hi = qh * d1 + hi mod d1" by (simp add: qh)
  then have "?N = (qh * d1 + hi mod d1) * base32 + n" by simp
  then have split: "?N + c1 = qh * D + c2" by (simp add: c1 c2 D algebra_simps)
  have "?N div D \<le> ?N div (base32 * d1)" using pos by (intro div_le_mono2) (simp_all add: D)
  also have "\<dots> = qh" using n by (simp add: qh div_mult2_eq)
  finally have upper: "?N div D \<le> qh" .
  have deficit: "c1 < c2 + 2 * D" using estimate_bounds(4) [OF d0 d1 hi n] by (simp add: c1 c2 D qh)
  consider "c1 \<le> c2" | "c2 < c1" "c1 - c2 \<le> D" | "c2 < c1" "D < c1 - c2" by linarith
  then show ?thesis
  proof cases
    case 1
    then have "qh * D \<le> ?N" using split by simp
    then have "qh \<le> ?N div D" using pos by (simp add: less_eq_div_iff_mult_less_eq)
    with upper 1 show ?thesis by simp
  next
    case 2
    with split have "qh \<noteq> 0" by (intro notI) simp
    then obtain p where p: "qh = Suc p" using not0_implies_Suc by blast
    have "?N div D = p"
      by (rule div_from_product [OF split 2(1)]) (use split 2 p in \<open>simp_all add: algebra_simps\<close>)
    then show ?thesis using 2 p by simp
  next
    case 3
    have "qh \<noteq> 0" using split 3(1) by (intro notI) simp
    moreover have "qh \<noteq> 1" using split 3 by (intro notI) simp
    ultimately
    obtain p where p: "qh = Suc (Suc p)" by (metis One_nat_def not0_implies_Suc)
    have "?N div D = p"
      by (rule div_from_product [OF split 3(1)]) (use split 3 deficit p in \<open>simp_all add: algebra_simps\<close>)
    then show ?thesis using 3 p by simp
  qed
qed

lemma digit_small:
  assumes "hi < D" and "n < base32"
  shows "(hi * base32 + n) div D < base32"
proof -
  have "hi * base32 + n < (hi + 1) * base32" using assms(2) by simp
  also have "\<dots> \<le> D * base32" using assms(1) by (intro mult_le_mono1) simp
  finally show ?thesis using assms(1) by (simp add: div_less_iff_less_mult mult.commute)
qed

section \<open>The digit on machine words\<close>

lemma word_digits:
  fixes x :: u64
  shows "unat (ucast (ucast (drop_bit 32 x) :: u32) :: u64) = unat x div base32"
    and "unat (ucast (ucast (x AND 0xFFFFFFFF) :: u32) :: u64) = unat x mod base32"
proof -
  have "unat x div base32 < base32" using unat_u64_less [of x] by (simp add: div_less_iff_less_mult)
  then show "unat (ucast (ucast (drop_bit 32 x) :: u32) :: u64) = unat x div base32"
    by (simp add: unat_ucast_u64_u32 drop_bit_eq_div unat_div_distrib)
  have "x AND 0xFFFFFFFF = take_bit 32 x" by (simp add: take_bit_eq_mask mask_numeral)
  then show "unat (ucast (ucast (x AND 0xFFFFFFFF) :: u32) :: u64) = unat x mod base32"
    by (simp add: unat_ucast_u64_u32 unat_mod_distrib take_bit_eq_mod)
qed

lemma unat_mult_lt: "unat a * unat b < 2 ^ 64 \<Longrightarrow> unat (a * b) = unat a * unat b" for a b :: u64
  by (simp add: unat_word_ariths)

lemma unat_add_lt: "unat a + unat b < 2 ^ 64 \<Longrightarrow> unat (a + b) = unat a + unat b" for a b :: u64
  by (simp add: unat_word_ariths)

lemma unat_sub_le: "unat b \<le> unat a \<Longrightarrow> unat (a - b) = unat a - unat b" for a b :: u64
  by (simp add: unat_sub word_le_nat_alt)

text \<open>The remainder is computed modulo \<open>2 ^ 64\<close> from numbers that do not fit, and still right.\<close>

lemma wrapped_remainder:
  fixes hi den num :: u64 and q :: u32
  assumes "unat q = (unat hi * base32 + unat num) div unat den" and "0 < unat den"
  shows "unat (hi * push_bit 32 1 + num - ucast q * den) = (unat hi * base32 + unat num) mod unat den"
proof -
  let ?N = "unat hi * base32 + unat num"
  let ?q = "?N div unat den"
  have "ucast q = (word_of_nat ?q :: u64)" unfolding assms(1) [symmetric] by simp
  moreover have "hi = word_of_nat (unat hi)" "num = word_of_nat (unat num)" "den = word_of_nat (unat den)" by simp_all
  ultimately have "hi * push_bit 32 1 + num - ucast q * den = word_of_nat (?N - ?q * unat den)"
    by (simp add: push_bit_eq_mult of_nat_diff)
  also have "?N - ?q * unat den = ?N mod unat den" by (simp add: minus_div_mult_eq_mod)
  finally have "hi * push_bit 32 1 + num - ucast q * den = word_of_nat (?N mod unat den)" .
  moreover have "?N mod unat den < 18446744073709551616"
    using mod_less_divisor [OF assms(2), of ?N] unat_u64_less [of den] by linarith
  ultimately show ?thesis by (simp add: unat_of_nat take_bit_nat_eq_self)
qed

lemma div_digit_correct:
  assumes norm: "2 ^ 63 \<le> unat den" and hi: "unat hi < unat den"
    and run: "div_digit den hi num = (q, rem)"
  shows "unat q = (unat hi * base32 + unat num) div unat den"
    and "unat rem = (unat hi * base32 + unat num) mod unat den"
proof -
  define d1 where "d1 = unat den div base32"
  define d0 where "d0 = unat den mod base32"
  let ?d1 = "ucast (ucast (drop_bit 32 den) :: u32) :: u64" and ?d0 = "ucast (ucast (den AND 0xFFFFFFFF) :: u32) :: u64"
  have ud: "unat ?d1 = d1" "unat ?d0 = d0" by (simp_all only: word_digits d1_def d0_def)
  have D: "unat den = d1 * base32 + d0" by (simp add: d1_def d0_def)
  have h: "d0 < base32" "base32 \<le> 2 * d1" "unat hi < d1 * base32 + d0" "unat num < base32"
    using norm hi unat_u32_less [of num] by (simp_all add: d1_def d0_def)
  note bounds = estimate_bounds [OF h]
  let ?qh = "hi div ?d1" and ?c2 = "hi mod ?d1 * push_bit 32 1 + ucast num"
  let ?c1 = "?qh * ?d0"
  have qh: "unat ?qh = unat hi div d1" "unat (hi mod ?d1) = unat hi mod d1"
    by (simp_all only: unat_div_distrib unat_mod_distrib ud)
  have c1: "unat ?c1 = unat hi div d1 * d0"
    using bounds(2) qh ud(2) by (subst unat_mult_lt) simp_all
  have b: "unat (push_bit 32 1 :: u64) = base32" by simp
  have "d1 * base32 < 18446744073709551616" using D unat_u64_less [of den] by linarith
  then have c2: "unat ?c2 = unat hi mod d1 * base32 + unat num"
    using bounds(3) qh(2) b by (subst unat_add_lt; subst unat_mult_lt) simp_all
  define Q where "Q = (if ?c1 > ?c2 then ?qh - (if ?c1 - ?c2 > den then 2 else 1) else ?qh)"
  have "unat Q = (unat hi * base32 + unat num) div unat den"
  proof -
    note eq = digit_correct [OF h D refl refl refl]
    have lt: "?c2 < ?c1 \<longleftrightarrow> unat hi mod d1 * base32 + unat num < unat hi div d1 * d0"
      using c1 c2 by (simp only: word_less_nat_alt)
    have sub: "unat (?c1 - ?c2) = unat hi div d1 * d0 - (unat hi mod d1 * base32 + unat num)" if "?c2 < ?c1"
      using that c1 c2 by (subst unat_sub_le) (simp_all only: word_less_nat_alt less_imp_le)
    consider "\<not> ?c2 < ?c1" | "?c2 < ?c1" "\<not> ?c1 - ?c2 > den" | "?c2 < ?c1" "?c1 - ?c2 > den" by blast
    then show ?thesis
    proof cases
      case 1
      then show ?thesis using eq lt qh(1) by (simp add: Q_def)
    next
      case 2
      have "1 \<le> unat hi div d1" using 2 lt estimate_ge(1) by blast
      then have "unat (?qh - 1) = unat hi div d1 - 1" using qh(1) by (subst unat_sub_le) simp_all
      with 2 eq lt sub [OF 2(1)] show ?thesis by (simp add: Q_def word_less_nat_alt D)
    next
      case 3
      have "d1 * base32 + d0 < unat hi div d1 * d0 - (unat hi mod d1 * base32 + unat num)"
        using 3 sub [OF 3(1)] D by (simp only: word_less_nat_alt)
      moreover from this have "2 \<le> unat hi div d1" by (rule estimate_ge(2) [rotated]) simp
      then have "unat (?qh - 2) = unat hi div d1 - 2" using qh(1) by (subst unat_sub_le) simp_all
      ultimately show ?thesis using 3 eq lt by (simp add: Q_def D)
    qed
  qed
  moreover have "q = ucast Q" "rem = hi * push_bit 32 1 + ucast num - ucast q * den"
    using run unfolding div_digit_def Let_def Q_def [symmetric] by auto
  moreover have "(unat hi * base32 + unat num) div unat den < base32" by (rule digit_small [OF hi h(4)])
  ultimately show uq: "unat q = (unat hi * base32 + unat num) div unat den"
    by (simp add: unat_ucast_u64_u32)
  show "unat rem = (unat hi * base32 + unat num) mod unat den"
    using wrapped_remainder [of q hi "ucast num" den] uq hi \<open>rem = _\<close> by simp
qed

section \<open>Normalisation\<close>

lemma clz_from_le: "clz_from n x \<le> n"
  by (induction n) auto

lemma clz_from_zeros: "n - clz_from n x \<le> i \<Longrightarrow> i < n \<Longrightarrow> \<not> bit x i"
proof (induction n)
  case (Suc n)
  then show ?case by (cases "i = n") (auto split: if_splits)
qed simp

lemma clz_from_one: "clz_from n x < n \<Longrightarrow> bit x (n - 1 - clz_from n x)"
proof (induction n)
  case (Suc n)
  then show ?case by (auto split: if_splits)
qed simp

lemma bit_nat_ge: "bit (n :: nat) k \<Longrightarrow> 2 ^ k \<le> n"
  by (metis bit_take_bit_iff less_irrefl linorder_not_less take_bit_nat_eq_self)

lemma clz_bounds:
  assumes "x \<noteq> 0"
  shows "clz x < 64" and "2 ^ (63 - clz x) \<le> unat x" and "unat x < 2 ^ (64 - clz x)"
proof -
  have le: "clz x \<le> 64" by (simp only: clz_def clz_from_le)
  have zeros: "\<not> bit x i" if "64 - clz x \<le> i" "i < 64" for i
    using that clz_from_zeros unfolding clz_def by blast
  have "clz x \<noteq> 64"
  proof
    assume "clz x = 64"
    then have "\<not> bit x i" if "i < 64" for i using zeros that by simp
    then have "x = 0" by (intro bit_word_eqI) auto
    with assms show False by simp
  qed
  with le show lt: "clz x < 64" by simp
  then have "bit x (63 - clz x)" using clz_from_one [of 64 x] by (simp add: clz_def)
  then show "2 ^ (63 - clz x) \<le> unat x" by (intro bit_nat_ge) (simp add: bit_simps)
  have "\<not> bit x i" if "64 - clz x \<le> i" for i
    using zeros that by (cases "i < 64") (auto dest: bit_imp_le_length)
  then have "take_bit (64 - clz x) x = x" by (intro bit_word_eqI) (metis bit_take_bit_iff not_less)
  then have "take_bit (64 - clz x) (unat x) = unat x" by (metis unsigned_take_bit_eq)
  then show "unat x < 2 ^ (64 - clz x)" by (metis take_bit_nat_less_exp)
qed

lemma unat_push_bit_64: "unat (push_bit s x) = unat x * 2 ^ s mod 18446744073709551616" for x :: u64
  by (subst unsigned_push_bit_eq) (simp add: take_bit_eq_mod push_bit_eq_mult)

lemma normalised:
  assumes "den \<noteq> 0"
  shows "clz den < 64" and "unat (push_bit (clz den) den) = unat den * 2 ^ clz den"
    and "2 ^ 63 \<le> unat den * 2 ^ clz den" and "unat den * 2 ^ clz den < 18446744073709551616"
proof -
  let ?s = "clz den"
  note c = clz_bounds [OF assms]
  show s: "?s < 64" by (rule c(1))
  have "(2 :: nat) ^ 63 = 2 ^ (63 - ?s) * 2 ^ ?s" using s by (simp flip: power_add)
  also have "\<dots> \<le> unat den * 2 ^ ?s" using c(2) by simp
  finally show "2 ^ 63 \<le> unat den * 2 ^ ?s" .
  have "unat den * 2 ^ ?s < 2 ^ (64 - ?s) * 2 ^ ?s" using c(3) by simp
  also have "\<dots> = 2 ^ 64" using s by (simp flip: power_add)
  finally show lt: "unat den * 2 ^ ?s < 18446744073709551616" by simp
  then show "unat (push_bit ?s den) = unat den * 2 ^ ?s" by (simp add: unat_push_bit_64)
qed

lemma bit_signed_drop_bit_top: "n < LENGTH(64) \<Longrightarrow> bit (signed_drop_bit 63 (x :: u64)) n = bit x 63"
  by (cases n) (auto simp: bit_simps)

lemma shift_count:
  assumes "0 < s" and "s < 64"
  shows "nat ((- int s) AND 63) = 64 - s" and "signed_drop_bit 63 (- (of_nat s :: u64)) = - 1"
proof -
  have "(- int s) AND 63 = take_bit 6 (- int s)" by (simp add: take_bit_eq_mask mask_numeral)
  also have "\<dots> = 64 - int s" using assms by (simp add: take_bit_eq_mod zmod_zminus1_eq_if)
  finally show "nat ((- int s) AND 63) = 64 - s" using assms by simp
  have "- (of_nat s :: u64) = NOT (of_nat (s - 1))"
    using assms by (simp add: minus_eq_not_minus_1 of_nat_diff)
  moreover have "\<not> bit (s - 1) 63" using assms bit_nat_ge [of "s - 1" 63] by auto
  ultimately have "bit (- (of_nat s :: u64)) 63" by (simp add: bit_simps)
  then show "signed_drop_bit 63 (- (of_nat s :: u64)) = - 1"
    by (intro bit_word_eqI) (subst bit_signed_drop_bit_top; simp)
qed

lemma shifted_numerator:
  fixes numhi numlo :: u64
  assumes s: "s < 64" and fits: "unat numhi * 2 ^ s < 18446744073709551616"
    and hi: "numhi' = push_bit s numhi OR (drop_bit (nat ((- int s) AND 63)) numlo
                       AND signed_drop_bit 63 (- (of_nat s :: u64)))"
  shows "unat numhi' * 2 ^ 64 + unat (push_bit s numlo) = (unat numhi * 2 ^ 64 + unat numlo) * 2 ^ s"
proof (cases "s = 0")
  case True
  then show ?thesis by (simp add: hi)
next
  case False
  let ?lo = "unat numlo * 2 ^ s"
  have c: "nat ((- int s) AND 63) = 64 - s" "signed_drop_bit 63 (- (of_nat s :: u64)) = - 1"
    using shift_count False s by simp_all
  have "numhi' = push_bit s numhi OR drop_bit (64 - s) numlo" unfolding hi c by simp
  also have "\<dots> = push_bit s numhi + drop_bit (64 - s) numlo"
    by (rule disjunctive_add [symmetric]) (use s in \<open>auto simp: bit_simps dest: bit_imp_le_length\<close>)
  finally have h: "numhi' = push_bit s numhi + drop_bit (64 - s) numlo" .
  have pow: "(18446744073709551616 :: nat) = 2 ^ (64 - s) * 2 ^ s" using s by (simp flip: power_add)
  have d: "unat (drop_bit (64 - s) numlo) = ?lo div 18446744073709551616"
    unfolding pow by (subst unat_drop_bit_eq) (simp add: drop_bit_eq_div)
  have "unat (push_bit s numhi) = unat numhi * 2 ^ s" using fits by (simp add: unat_push_bit_64)
  moreover have "unat numhi * 2 ^ s + ?lo div 18446744073709551616 < 18446744073709551616"
  proof -
    have "?lo < 18446744073709551616 * 2 ^ s" using unat_u64_less [of numlo] by simp
    then have lo: "?lo div 18446744073709551616 < 2 ^ s" by (simp add: div_less_iff_less_mult mult.commute)
    have "unat numhi < 2 ^ (64 - s)" using fits unfolding pow by simp
    then have "(unat numhi + 1) * 2 ^ s \<le> 18446744073709551616"
      unfolding pow by (intro mult_le_mono1) simp
    with lo show ?thesis by simp
  qed
  ultimately have "unat numhi' = unat numhi * 2 ^ s + ?lo div 18446744073709551616"
    unfolding h d [symmetric] by (subst unat_add_lt) simp_all
  then show ?thesis
    using div_mult_mod_eq [of ?lo 18446744073709551616] by (simp add: unat_push_bit_64 algebra_simps)
qed

section \<open>The whole division\<close>

lemma two_digits:
  fixes H n1 n0 d :: nat
  assumes "0 < d"
  shows "(H * base32 * base32 + n1 * base32 + n0) div d = (H * base32 + n1) div d * base32 + ((H * base32 + n1) mod d * base32 + n0) div d"
    and "(H * base32 * base32 + n1 * base32 + n0) mod d = ((H * base32 + n1) mod d * base32 + n0) mod d"
proof -
  let ?q = "(H * base32 + n1) div d" and ?r = "(H * base32 + n1) mod d"
  have "(H * base32 + n1) * base32 = (?q * d + ?r) * base32" by (simp only: div_mult_mod_eq)
  then have e: "H * base32 * base32 + n1 * base32 + n0 = ?q * base32 * d + (?r * base32 + n0)"
    unfolding add_mult_distrib by (simp only: ac_simps)
  show "(H * base32 * base32 + n1 * base32 + n0) div d = ?q * base32 + (?r * base32 + n0) div d"
    unfolding e using assms by simp
  show "(H * base32 * base32 + n1 * base32 + n0) mod d = (?r * base32 + n0) mod d" unfolding e by simp
qed

lemma unat_join: "unat (push_bit 32 (ucast (a :: u32)) OR ucast (b :: u32) :: u64) = unat a * base32 + unat b"
proof -
  have "push_bit 32 (ucast a) OR ucast b = push_bit 32 (ucast a) + (ucast b :: u64)"
    by (rule disjunctive_add [symmetric]) (auto simp: bit_simps dest: bit_imp_le_length)
  moreover have "unat (push_bit 32 (ucast a) :: u64) = unat a * base32"
    using unat_u32_less [of a] by (simp add: unat_push_bit_64)
  moreover have "unat a * base32 + unat b < 18446744073709551616"
    using unat_u32_less [of a] unat_u32_less [of b] by linarith
  ultimately show ?thesis by (simp only: unat_add_lt unat_ucast_u32_u64) (subst unat_add_lt; simp)
qed

lemma libdivide_correct:
  assumes lt: "numhi < den"
  shows "\<exists>q r. libdivide_128_div_64_to_64 numhi numlo den = (q, r)
     \<and> unat q = (unat numhi * 2 ^ 64 + unat numlo) div unat den
     \<and> unat r = (unat numhi * 2 ^ 64 + unat numlo) mod unat den"
proof -
  have lt': "unat numhi < unat den" using lt by (simp add: word_less_nat_alt)
  then have nz: "den \<noteq> 0" by auto
  define s where "s = clz den"
  note nrm = normalised [OF nz, folded s_def]
  define d where "d = push_bit s den"
  have ud: "unat d = unat den * 2 ^ s" using nrm(2) by (simp add: d_def)
  define hi where "hi = push_bit s numhi OR (drop_bit (nat ((- int s) AND 63)) numlo
                       AND signed_drop_bit 63 (- (of_nat s :: u64)))"
  define lo where "lo = push_bit s numlo"
  have "unat numhi * 2 ^ s < unat den * 2 ^ s" using lt' by simp
  then have "unat numhi * 2 ^ s < 18446744073709551616" using nrm(4) by linarith
  from shifted_numerator [OF nrm(1) this hi_def]
  have num: "unat hi * 2 ^ 64 + unat lo = (unat numhi * 2 ^ 64 + unat numlo) * 2 ^ s" (is "_ = ?N * _")
    by (simp add: lo_def)
  have "?N < unat den * 2 ^ 64"
  proof -
    have "?N < (unat numhi + 1) * 2 ^ 64" using unat_u64_less [of numlo] by simp
    also have "\<dots> \<le> unat den * 2 ^ 64" using lt' by (intro mult_le_mono1) simp
    finally show ?thesis .
  qed
  then have "?N * 2 ^ s < unat d * 2 ^ 64" unfolding ud by simp
  then have "unat hi * 2 ^ 64 < unat d * 2 ^ 64" unfolding num [symmetric] by linarith
  then have hi_lt: "unat hi < unat d" by simp
  have norm: "2 ^ 63 \<le> unat d" using nrm(3) ud by simp
  define n1 where "n1 = (ucast (drop_bit 32 lo) :: u32)"
  define n0 where "n0 = (ucast (lo AND 0xFFFFFFFF) :: u32)"
  obtain q1 r1 where 1: "div_digit d hi n1 = (q1, r1)" by force
  obtain q0 r0 where 0: "div_digit d r1 n0 = (q0, r0)" by force
  note d1 = div_digit_correct [OF norm hi_lt 1]
  have "unat r1 < unat d" using d1(2) norm by simp
  note d0 = div_digit_correct [OF norm this 0]
  have run: "libdivide_128_div_64_to_64 numhi numlo den = (push_bit 32 (ucast q1) OR ucast q0, drop_bit s r0)"
    using lt 0 1 unfolding libdivide_128_div_64_to_64_def Let_def s_def [symmetric] d_def [symmetric]
      hi_def [symmetric] lo_def [symmetric] n1_def [symmetric] n0_def [symmetric] by simp
  have "unat lo = unat n1 * base32 + unat n0"
    using word_digits [of lo] by (simp add: n1_def n0_def)
  then have digits: "unat hi * base32 * base32 + unat n1 * base32 + unat n0 = ?N * 2 ^ s" using num by simp
  have dpos: "0 < unat d" using hi_lt by simp
  note td = two_digits [OF dpos, of "unat hi" "unat n1" "unat n0", folded d1 d0, unfolded digits ud]
  show ?thesis
  proof (intro exI conjI, rule run)
    show "unat (push_bit 32 (ucast q1) OR ucast q0 :: u64) = ?N div unat den"
      using td(1) by (simp add: unat_join)
    have "unat r0 = ?N mod unat den * 2 ^ s" using td(2) by (simp add: mult_mod_left)
    then show "unat (drop_bit s r0) = ?N mod unat den"
      by (subst unat_drop_bit_eq) (simp add: drop_bit_eq_div)
  qed
qed

section \<open>Signed division\<close>

lemma sint_word_of_int: "- (2 ^ 63) \<le> k \<Longrightarrow> k < 2 ^ 63 \<Longrightarrow> sint (word_of_int k :: u64) = k"
  by (simp add: sint_sbintrunc' signed_take_bit_int_eq_self)

lemma sint_u64_range: "- (2 ^ 63) \<le> sint (x :: u64)" "sint (x :: u64) < 2 ^ 63"
  using signed_take_bit_int_greater_eq_minus_exp [of 63 "uint x"] signed_take_bit_int_less_exp [of 63 "uint x"]
  by (simp_all add: sint_uint)

lemma smod_fits:
  assumes "d \<noteq> (0 :: u64)"
  shows "- (2 ^ 63) \<le> n smod sint d" and "n smod sint d < 2 ^ 63"
    and "\<bar>n smod sint d\<bar> < \<bar>sint d\<bar>"
proof -
  have "sint d \<noteq> 0" using assms by (simp add: signed_eq_0_iff)
  from smod_int_range [OF this, of n] sint_u64_range [of d]
  show "- (2 ^ 63) \<le> n smod sint d" "n smod sint d < 2 ^ 63" "\<bar>n smod sint d\<bar> < \<bar>sint d\<bar>"
    by (auto simp: abs_le_iff)
qed

section \<open>Properties\<close>

text \<open>C27: \<^verbatim>\<open>felix86_divu128\<close> divides the unsigned 128-bit number in RDX:RAX: when RDX is
  below the divisor (no x86 divide error), RAX becomes the quotient and RDX the remainder.
  The estimated quotient digits, their corrections by one or two and the wrapped partial
  remainders of the base-\<open>2 ^ 32\<close> long division are exact.\<close>

theorem divu128_correct:
  assumes "state_wf st" and "gprs st ! X86_REF_RDX < divisor"
  shows "\<exists>st'. felix86_divu128 divisor st = Some st'
     \<and> unat (gprs st' ! X86_REF_RAX)
         = (unat (gprs st ! X86_REF_RDX) * 2 ^ 64 + unat (gprs st ! X86_REF_RAX)) div unat divisor
     \<and> unat (gprs st' ! X86_REF_RDX)
         = (unat (gprs st ! X86_REF_RDX) * 2 ^ 64 + unat (gprs st ! X86_REF_RAX)) mod unat divisor
     \<and> (\<forall>i. i \<noteq> X86_REF_RAX \<and> i \<noteq> X86_REF_RDX \<longrightarrow> gprs st' ! i = gprs st ! i)"
proof -
  from libdivide_correct [OF assms(2), of "gprs st ! X86_REF_RAX"] obtain q r where
    qr: "libdivide_128_div_64_to_64 (gprs st ! X86_REF_RDX) (gprs st ! X86_REF_RAX) divisor = (q, r)"
    "unat q = (unat (gprs st ! X86_REF_RDX) * 2 ^ 64 + unat (gprs st ! X86_REF_RAX)) div unat divisor"
    "unat r = (unat (gprs st ! X86_REF_RDX) * 2 ^ 64 + unat (gprs st ! X86_REF_RAX)) mod unat divisor"
    by blast
  have "divisor \<noteq> 0" using assms(2) by auto
  with qr assms(1) show ?thesis by (simp add: felix86_divu128_def state_wf_def)
qed

theorem divu128_correct_witness:
  "\<exists>st'. felix86_divu128 0x100000001
      (ThreadState_default\<lparr>gprs := [5, 0, 3] @ replicate 13 0\<rparr>) = Some st'
     \<and> unat (gprs st' ! X86_REF_RAX) = 12884901885"
  using divu128_correct [of "ThreadState_default\<lparr>gprs := [5, 0, 3] @ replicate 13 0\<rparr>" "0x100000001"]
  by (auto simp: state_wf_def ThreadState_default_def)



section \<open>Where the division falls short\<close>

text \<open>A quotient that does not fit raises a divide error on x86; the helpers return all
  ones (unsigned) or the low 64 bits (signed).\<close>

lemma divu128_overflow: "den \<le> hi \<Longrightarrow> libdivide_128_div_64_to_64 hi lo den = (- 1, - 1)"
  by (simp add: libdivide_128_div_64_to_64_def)

lemma div128_overflow_truncates:
  "map_option (\<lambda>st. gprs st ! X86_REF_RAX)
     (felix86_div128 1 (ThreadState_default\<lparr>gprs := [7, 0, 1] @ replicate 13 0\<rparr>)) = Some 7"
  by (simp add: felix86_div128_def ThreadState_default_def)

end
