(* ===== verification/VectorHelpers.thy ===== *)
theory VectorHelpers
  imports ThreadState
begin

text \<open>
  The out-of-line helpers of \<^verbatim>\<open>common/utility.cpp\<close> the emitted code calls for bit
  strings (\<^verbatim>\<open>BT\<close>, \<^verbatim>\<open>BTS\<close>, \<^verbatim>\<open>BTR\<close>, \<^verbatim>\<open>BTC\<close> on memory), for
  \<^verbatim>\<open>PMADDWD\<close> and \<^verbatim>\<open>PSADBW\<close>, and for the SSE4.2 string comparisons
  (\<^verbatim>\<open>PCMPxSTRx\<close>), with the architecture's own definitions of their results.
\<close>

section \<open>Bit strings in memory\<close>

text \<open>The byte the helpers access; \<open>offset >> 3\<close> is an arithmetic shift.\<close>

definition bt_ptr :: "u64 \<Rightarrow> u64 \<Rightarrow> u64" where
  "bt_ptr address offset = (
     let byte_offset = signed_drop_bit 3 offset;
         bit_offset = offset AND 7;
         needs_correction = sint offset < 0 \<and> bit_offset \<noteq> 0 in
     address + byte_offset - of_bool needs_correction)"

definition bt_bit :: "u64 \<Rightarrow> nat" where "bt_bit offset = unat (offset AND 7)"

definition felix86_bt :: "memory \<Rightarrow> u64 \<Rightarrow> u64 \<Rightarrow> bool" where
  "felix86_bt mem address offset = bit (mem (bt_ptr address offset)) (bt_bit offset)"

definition felix86_bts :: "memory \<Rightarrow> u64 \<Rightarrow> u64 \<Rightarrow> bool \<times> memory" where
  "felix86_bts mem address offset = (
     let p = bt_ptr address offset; old = mem p in
     (bit old (bt_bit offset), mem(p := old OR push_bit (bt_bit offset) 1)))"

definition felix86_btr :: "memory \<Rightarrow> u64 \<Rightarrow> u64 \<Rightarrow> bool \<times> memory" where
  "felix86_btr mem address offset = (
     let p = bt_ptr address offset; old = mem p in
     (bit old (bt_bit offset), mem(p := old AND NOT (push_bit (bt_bit offset) 1))))"

definition felix86_btc :: "memory \<Rightarrow> u64 \<Rightarrow> u64 \<Rightarrow> bool \<times> memory" where
  "felix86_btc mem address offset = (
     let p = bt_ptr address offset; old = mem p in
     (bit old (bt_bit offset), mem(p := old XOR push_bit (bt_bit offset) 1)))"

text \<open>The architecture's bit string: bit \<open>offset mod 8\<close> of the byte at
  \<open>address + offset div 8\<close>, both rounded towards minus infinity.\<close>

definition x86_bit_ptr :: "u64 \<Rightarrow> u64 \<Rightarrow> u64" where
  "x86_bit_ptr address offset = address + word_of_int (sint offset div 8)"

definition x86_bit_index :: "u64 \<Rightarrow> nat" where
  "x86_bit_index offset = nat (sint offset mod 8)"

section \<open>Packed sums\<close>

text \<open>\<^verbatim>\<open>PMADDWD\<close> over eight signed 16-bit lanes; the products and sums are 32-bit.\<close>

definition pmaddwd_lane :: "u16 list \<Rightarrow> u16 list \<Rightarrow> nat \<Rightarrow> u32" where
  "pmaddwd_lane dst src i = scast (dst ! (2 * i)) * scast (src ! (2 * i))
     + scast (dst ! (2 * i + 1)) * scast (src ! (2 * i + 1))"

definition felix86_pmaddwd :: "u16 list \<Rightarrow> u16 list \<Rightarrow> u32 list" where
  "felix86_pmaddwd dst src = map (pmaddwd_lane dst src) [0, 1, 2, 3]"

text \<open>\<^verbatim>\<open>PSADBW\<close> over sixteen bytes: the loop adds to two 64-bit sums.\<close>

definition abs_diff :: "u8 \<Rightarrow> u8 \<Rightarrow> u64" where
  "abs_diff a b = word_of_int \<bar>uint a - uint b\<bar>"

definition psadbw_sum :: "u8 list \<Rightarrow> u8 list \<Rightarrow> nat \<Rightarrow> u64" where
  "psadbw_sum dst src k = fold (\<lambda>i r. r + abs_diff (dst ! (i + k)) (src ! (i + k))) [0..<8] 0"

definition felix86_psadbw :: "u8 list \<Rightarrow> u8 list \<Rightarrow> u64 list" where
  "felix86_psadbw dst src =
     [ucast (ucast (psadbw_sum dst src 0) :: u16), ucast (ucast (psadbw_sum dst src 8) :: u16)]"

section \<open>String comparison\<close>

datatype cmp_mode = EqualAny | Ranges | EqualEach | EqualOrdered
datatype polarity = Positive | Negative | MaskedPositive | MaskedNegative

definition mode_of :: "u8 \<Rightarrow> cmp_mode" where
  "mode_of control = (let m = drop_bit 2 control AND 3 in
     if m = 0 then EqualAny else if m = 1 then Ranges else if m = 2 then EqualEach else EqualOrdered)"

definition polarity_of :: "u8 \<Rightarrow> polarity" where
  "polarity_of control = (let m = drop_bit 4 control AND 3 in
     if m = 0 then Positive else if m = 1 then Negative else if m = 2 then MaskedPositive else MaskedNegative)"

text \<open>
  The operands are lists of \<open>count\<close> elements (16 bytes or 8 words), signed or unsigned
  as the control byte says, so integers. The implicit length is the index of the first
  zero element.
\<close>

fun implicit_length :: "int list \<Rightarrow> nat" where
  "implicit_length [] = 0"
| "implicit_length (x # xs) = (if x = 0 then 0 else Suc (implicit_length xs))"

definition bool_res :: "cmp_mode \<Rightarrow> int list \<Rightarrow> int list \<Rightarrow> nat \<Rightarrow> nat \<Rightarrow> bool" where
  "bool_res mode dst src j i =
     (if mode = Ranges then (if i mod 2 = 0 then src ! j \<ge> dst ! i else src ! j \<le> dst ! i)
      else dst ! i = src ! j)"

definition overrideIfInvalid ::
  "cmp_mode \<Rightarrow> int list \<Rightarrow> int list \<Rightarrow> nat \<Rightarrow> nat \<Rightarrow> nat \<Rightarrow> nat \<Rightarrow> bool" where
  "overrideIfInvalid mode dst src dst_length src_length dst_index src_index = (
     let dstinv = dst_index \<ge> dst_length; srcinv = src_index \<ge> src_length;
         res = bool_res mode dst src src_index dst_index in
     case mode of
       Ranges \<Rightarrow> if \<not> dstinv \<and> \<not> srcinv then res else False
     | EqualAny \<Rightarrow> if \<not> dstinv \<and> \<not> srcinv then res else False
     | EqualEach \<Rightarrow> if \<not> dstinv \<and> \<not> srcinv then res else if dstinv \<and> srcinv then True else False
     | EqualOrdered \<Rightarrow> if \<not> dstinv \<and> \<not> srcinv then res
                      else if (dstinv \<and> srcinv) \<or> (dstinv \<and> \<not> srcinv) then True else False)"

text \<open>The inner loop of the ordered comparison, which breaks at the first mismatch.\<close>

fun ordered_match :: "(nat \<Rightarrow> nat \<Rightarrow> bool) \<Rightarrow> nat \<Rightarrow> nat \<Rightarrow> nat \<Rightarrow> nat list \<Rightarrow> bool" where
  "ordered_match ov dst_length src_length j [] = True"
| "ordered_match ov dst_length src_length j (i # is) =
     (if \<not> (i < dst_length \<and> j + i < src_length) then True
      else if \<not> ov i (j + i) then False
      else ordered_match ov dst_length src_length j is)"

definition set_if :: "bool \<Rightarrow> nat \<Rightarrow> u32 \<Rightarrow> u32" where
  "set_if b j r = r OR push_bit j (of_bool b)"

text \<open>
  \<open>intres1\<close>; with an explicit source length above \<open>count\<close> the ordered loops index past
  the comparison table (\<open>None\<close>).
\<close>

definition intres1 :: "cmp_mode \<Rightarrow> nat \<Rightarrow> int list \<Rightarrow> int list \<Rightarrow> nat \<Rightarrow> nat \<Rightarrow> u32 option" where
  "intres1 mode count dst src dst_length src_length = (
     let ov = overrideIfInvalid mode dst src dst_length src_length in
     case mode of
       EqualAny \<Rightarrow> Some (fold (\<lambda>j r. fold (\<lambda>i r. set_if (ov i j) j r) [0..<count] r) [0..<count] 0)
     | Ranges \<Rightarrow> Some (fold (\<lambda>j r. fold (\<lambda>i r. set_if (ov (2 * i) j \<and> ov (2 * i + 1) j) j r) [0..<count div 2] r)
                     [0..<count] 0)
     | EqualEach \<Rightarrow> Some (fold (\<lambda>i r. set_if (ov i i) i r) [0..<count] 0)
     | EqualOrdered \<Rightarrow> do {
         ASSERT (src_length \<le> count \<or> dst_length = 0 \<and> src_length \<le> 32);
         Some (fold (\<lambda>j r. if ordered_match ov dst_length src_length j [0..<dst_length] then set_if True j r else r)
                 [0..<src_length] 0)
       })"

definition intres2 :: "polarity \<Rightarrow> nat \<Rightarrow> nat \<Rightarrow> u32 \<Rightarrow> u32" where
  "intres2 pol count src_length r1 =
     (case pol of
        Negative \<Rightarrow> - 1 XOR r1
      | MaskedNegative \<Rightarrow>
          fold (\<lambda>i r. set_if (if i \<ge> src_length then bit r1 i else \<not> bit r1 i) i r) [0..<count] 0
      | _ \<Rightarrow> r1) AND mask count"

text \<open>\<^verbatim>\<open>__builtin_ctz\<close> and the index of the highest set bit of a non-zero value.\<close>

fun lowest_bit :: "u32 \<Rightarrow> nat list \<Rightarrow> nat" where
  "lowest_bit r [] = 32"
| "lowest_bit r (i # is) = (if bit r i then i else lowest_bit r is)"

definition ctz32 :: "u32 \<Rightarrow> nat" where "ctz32 r = lowest_bit r [0..<32]"
definition clz32 :: "u32 \<Rightarrow> nat" where "clz32 r = 31 - lowest_bit r (rev [0..<32])"

definition lanes_of :: "nat \<Rightarrow> u32 \<Rightarrow> XmmReg" where
  "lanes_of count r = (
     let lane = 128 div count;
         half = (\<lambda>k. fold (\<lambda>i w. if bit r (k + i) then w OR push_bit (i * lane) (mask lane) else w) [0..<count div 2] 0) in
     (half 0, half (count div 2)))"

definition pcmpxstrx_impl :: "nat \<Rightarrow> bool \<Rightarrow> bool \<Rightarrow> int list \<Rightarrow> int list \<Rightarrow> u8 \<Rightarrow> thread_state \<Rightarrow> thread_state option" where
  "pcmpxstrx_impl count implicit index dst src control st = do {
     (dst_length, src_length) \<leftarrow>
       (if implicit then Some (implicit_length dst, implicit_length src)
        else do {
          let d = sint (ucast (gprs st ! 0) :: u32);
          let s = sint (ucast (gprs st ! 2) :: u32);
          ASSERT (d \<ge> 0);
          ASSERT (s \<ge> 0);
          Some (nat d, nat s)
        });
     r1 \<leftarrow> intres1 (mode_of control) count dst src dst_length src_length;
     let r2 = intres2 (polarity_of control) count src_length r1;
     let output_selection = bit control 6;
     let st1 =
       (if index then
          st\<lparr>gprs := (gprs st)[1 :=
            (if r2 = 0 then of_nat count
             else if \<not> output_selection then of_nat (ctz32 r2)
             else of_nat (count - 1) - of_nat (clz32 (push_bit (32 - count) r2)))]\<rparr>
        else st\<lparr>xmm := (xmm st)[0 := (if \<not> output_selection then (ucast r2, 0) else lanes_of count r2)]\<rparr>);
     Some (st1\<lparr>cf := (r2 \<noteq> 0), zf := (src_length < count), sf := (dst_length < count),
               oflag := bit r2 0, af := False, pf := False\<rparr>)
   }"

text \<open>The element views of a 128-bit operand, and the dispatch on the element type.\<close>

definition reg_bytes :: "XmmReg \<Rightarrow> u8 list" where
  "reg_bytes x = map (\<lambda>i. ucast (drop_bit (8 * i) (fst x))) [0..<8] @ map (\<lambda>i. ucast (drop_bit (8 * i) (snd x))) [0..<8]"

definition reg_words :: "XmmReg \<Rightarrow> u16 list" where
  "reg_words x = map (\<lambda>i. ucast (drop_bit (16 * i) (fst x))) [0..<4] @ map (\<lambda>i. ucast (drop_bit (16 * i) (snd x))) [0..<4]"

datatype pcmpxstrx = ImplicitIndex | ImplicitMask | ExplicitIndex | ExplicitMask

definition felix86_pcmpxstrx :: "pcmpxstrx \<Rightarrow> XmmReg \<Rightarrow> XmmReg \<Rightarrow> u8 \<Rightarrow> thread_state \<Rightarrow> thread_state option" where
  "felix86_pcmpxstrx type dst src control st = (
     let implicit = (type = ImplicitIndex \<or> type = ImplicitMask);
         index = (type = ImplicitIndex \<or> type = ExplicitIndex);
         t = control AND 3 in
     if t = 0 then pcmpxstrx_impl 16 implicit index (map uint (reg_bytes dst)) (map uint (reg_bytes src)) control st
     else if t = 1 then pcmpxstrx_impl 8 implicit index (map uint (reg_words dst)) (map uint (reg_words src)) control st
     else if t = 2 then pcmpxstrx_impl 16 implicit index (map sint (reg_bytes dst)) (map sint (reg_bytes src)) control st
     else pcmpxstrx_impl 8 implicit index (map sint (reg_words dst)) (map sint (reg_words src)) control st)"

section \<open>The architecture's comparison\<close>

text \<open>Bit \<open>j\<close> of the intermediate result for valid lengths, per aggregation operation.\<close>

definition x86_intres1 :: "cmp_mode \<Rightarrow> nat \<Rightarrow> int list \<Rightarrow> int list \<Rightarrow> nat \<Rightarrow> nat \<Rightarrow> nat \<Rightarrow> bool" where
  "x86_intres1 mode count dst src dl sl j = (case mode of
     EqualAny \<Rightarrow> j < sl \<and> (\<exists>i<dl. dst ! i = src ! j)
   | Ranges \<Rightarrow> j < sl \<and> (\<exists>i. 2 * i + 1 < dl \<and> dst ! (2 * i) \<le> src ! j \<and> src ! j \<le> dst ! (2 * i + 1))
   | EqualEach \<Rightarrow> j < dl \<and> j < sl \<and> dst ! j = src ! j \<or> dl \<le> j \<and> sl \<le> j
   | EqualOrdered \<Rightarrow> (\<forall>i. j + i < count \<longrightarrow> dl \<le> i \<or> j + i < sl \<and> dst ! i = src ! (j + i)))"

definition x86_intres2 :: "polarity \<Rightarrow> nat \<Rightarrow> nat \<Rightarrow> (nat \<Rightarrow> bool) \<Rightarrow> nat \<Rightarrow> bool" where
  "x86_intres2 pol count sl r j = (case pol of
     Negative \<Rightarrow> \<not> r j
   | MaskedNegative \<Rightarrow> (if j < sl then \<not> r j else r j)
   | _ \<Rightarrow> r j)"

lemma bit_set_if: "bit (set_if b j r) n \<longleftrightarrow> bit r n \<or> b \<and> n = j \<and> n < 32"
  by (auto simp: set_if_def bit_simps)

lemma bit_fold_set_if:
  "bit (fold (\<lambda>j r. set_if (f j) j r) xs r) n \<longleftrightarrow> bit r n \<or> n < 32 \<and> n \<in> set xs \<and> f n"
  by (induction xs arbitrary: r) (auto simp: bit_set_if)

lemma bit_fold_inner:
  "bit (fold (\<lambda>i r. set_if (f i) j r) xs r) n \<longleftrightarrow> bit r n \<or> n = j \<and> n < 32 \<and> (\<exists>i\<in>set xs. f i)"
  by (induction xs arbitrary: r) (auto simp: bit_set_if)

lemma bit_fold_nested:
  "bit (fold (\<lambda>j r. fold (\<lambda>i r. set_if (f i j) j r) xs r) js r) n
     \<longleftrightarrow> bit r n \<or> n < 32 \<and> n \<in> set js \<and> (\<exists>i\<in>set xs. f i n)"
  by (induction js arbitrary: r) (auto simp: bit_fold_inner)

lemma bit_fold_cond:
  "bit (fold (\<lambda>j r. if f j then set_if True j r else r) xs r) n \<longleftrightarrow> bit r n \<or> n < 32 \<and> n \<in> set xs \<and> f n"
  by (induction xs arbitrary: r) (auto simp: bit_set_if)

lemma ordered_match_upt:
  "ordered_match ov dl sl j [a..<dl] \<longleftrightarrow> (\<forall>i. a \<le> i \<and> i < dl \<and> j + i < sl \<longrightarrow> ov i (j + i))"
proof (induction "dl - a" arbitrary: a)
  case 0
  then show ?case by auto
next
  case (Suc k)
  then have a: "a < dl" by simp
  have ih: "ordered_match ov dl sl j [Suc a..<dl] \<longleftrightarrow> (\<forall>i. Suc a \<le> i \<and> i < dl \<and> j + i < sl \<longrightarrow> ov i (j + i))"
    using Suc by (intro Suc.hyps(1)) simp
  have "(\<forall>i. a \<le> i \<and> i < dl \<and> j + i < sl \<longrightarrow> ov i (j + i)) \<longleftrightarrow>
      (j + a < sl \<longrightarrow> ov a (j + a)) \<and> (\<forall>i. Suc a \<le> i \<and> i < dl \<and> j + i < sl \<longrightarrow> ov i (j + i))"
    using a by (metis Suc_leD le_antisym not_less_eq_eq order_refl)
  then show ?case using a ih by (auto simp: upt_conv_Cons)
qed

lemma override_simps:
  "overrideIfInvalid EqualAny dst src dl sl i j \<longleftrightarrow> i < dl \<and> j < sl \<and> dst ! i = src ! j"
  "overrideIfInvalid Ranges dst src dl sl (2 * i) j \<longleftrightarrow> 2 * i < dl \<and> j < sl \<and> dst ! (2 * i) \<le> src ! j"
  "overrideIfInvalid Ranges dst src dl sl (Suc (2 * i)) j
     \<longleftrightarrow> Suc (2 * i) < dl \<and> j < sl \<and> src ! j \<le> dst ! Suc (2 * i)"
  "overrideIfInvalid EqualEach dst src dl sl i j
     \<longleftrightarrow> i < dl \<and> j < sl \<and> dst ! i = src ! j \<or> dl \<le> i \<and> sl \<le> j"
  "overrideIfInvalid EqualOrdered dst src dl sl i j \<longleftrightarrow> dl \<le> i \<or> j < sl \<and> dst ! i = src ! j"
  by (auto simp: overrideIfInvalid_def bool_res_def Let_def)

lemma intres1_correct:
  assumes run: "intres1 mode count dst src dl sl = Some r"
    and count: "count = 8 \<or> count = 16" and len: "dl \<le> count" "sl \<le> count"
    and full: "mode = EqualOrdered \<longrightarrow> sl = count" and j: "j < count"
  shows "bit r j \<longleftrightarrow> x86_intres1 mode count dst src dl sl j"
proof -
  have j32: "j < 32" "even count" using j count by auto
  let ?ov = "overrideIfInvalid mode dst src dl sl"
  show ?thesis
  proof (cases mode)
    case EqualAny
    then have "r = fold (\<lambda>j r. fold (\<lambda>i r. set_if (?ov i j) j r) [0..<count] r) [0..<count] 0"
      using run by (simp add: intres1_def)
    then have "bit r j \<longleftrightarrow> (\<exists>i\<in>set [0..<count]. ?ov i j)" using j j32 by (simp add: bit_fold_nested)
    then show ?thesis using EqualAny len by (auto simp: override_simps x86_intres1_def intro: order.strict_trans2)
  next
    case Ranges
    then have "r = fold (\<lambda>j r. fold (\<lambda>i r. set_if (?ov (2 * i) j \<and> ?ov (2 * i + 1) j) j r) [0..<count div 2] r)
        [0..<count] 0"
      using run by (simp add: intres1_def Let_def)
    then have "bit r j \<longleftrightarrow> (\<exists>i\<in>set [0..<count div 2]. ?ov (2 * i) j \<and> ?ov (2 * i + 1) j)"
      using j j32 by (simp add: bit_fold_nested)
    moreover have "i < count div 2" if "Suc (2 * i) < dl" for i using that len(1) j32(2) by auto
    ultimately show ?thesis using Ranges by (auto simp: override_simps x86_intres1_def)
  next
    case EqualEach
    with run j j32 show ?thesis
      by (auto simp: intres1_def bit_fold_set_if x86_intres1_def override_simps Let_def)
  next
    case EqualOrdered
    with run j j32 full have "bit r j \<longleftrightarrow> (\<forall>i. i < dl \<and> j + i < sl \<longrightarrow> ?ov i (j + i))"
      by (auto simp: intres1_def bit_fold_cond ordered_match_upt Let_def split: if_splits)
    then show ?thesis using EqualOrdered full by (auto simp: override_simps x86_intres1_def)
  qed
qed

lemma intres2_correct:
  assumes "count \<le> 16" and "j < count" and "\<And>i. i < count \<Longrightarrow> bit r1 i \<longleftrightarrow> f i"
  shows "bit (intres2 pol count sl r1) j \<longleftrightarrow> x86_intres2 pol count sl f j"
  using assms by (cases pol) (auto simp: intres2_def x86_intres2_def bit_simps bit_fold_set_if)

section \<open>Bit strings and sums\<close>

lemma sint_arith_shift: "sint (signed_drop_bit 3 (x :: u64)) = sint x div 8"
  by (simp add: sint_signed_drop_bit_eq drop_bit_eq_div)

lemma low_bits: "bt_bit offset = x86_bit_index offset"
proof -
  have "take_bit 3 (sint offset) = take_bit 3 (uint offset)"
    by (simp add: sint_uint take_bit_signed_take_bit)
  then have s: "sint offset mod 8 = uint offset mod 8" by (simp add: take_bit_eq_mod)
  have "offset AND 7 = take_bit 3 offset" by (simp add: take_bit_eq_mask mask_numeral)
  then have "uint (offset AND 7) = uint offset mod 8" by (simp add: take_bit_eq_mod uint_mod_distrib)
  then show ?thesis using s by (simp add: bt_bit_def x86_bit_index_def flip: nat_uint_eq)
qed

lemma bt_ptr_x86:
  "bt_ptr address offset = x86_bit_ptr address offset
     - of_bool (sint offset < 0 \<and> x86_bit_index offset \<noteq> 0)"
proof -
  have "signed_drop_bit 3 offset = word_of_int (sint (signed_drop_bit 3 offset))" by simp
  then have "signed_drop_bit 3 offset = word_of_int (sint offset div 8)" by (simp only: sint_arith_shift)
  moreover have "offset AND 7 \<noteq> 0 \<longleftrightarrow> x86_bit_index offset \<noteq> 0"
    unfolding low_bits [symmetric] bt_bit_def by (simp add: unat_eq_0)
  ultimately show ?thesis by (simp add: bt_ptr_def x86_bit_ptr_def Let_def)
qed

lemma pmaddwd_lane_value:
  "pmaddwd_lane dst src i = word_of_int (sint (dst ! (2 * i)) * sint (src ! (2 * i))
     + sint (dst ! (2 * i + 1)) * sint (src ! (2 * i + 1)))"
  by (simp add: pmaddwd_lane_def)

lemma abs_diff_le: "unat (abs_diff a b) = nat \<bar>uint a - uint b\<bar>" "nat \<bar>uint a - uint b\<bar> \<le> 255"
proof -
  have "uint a < 256" "uint b < 256" using uint_lt2p [of a] uint_lt2p [of b] by simp_all
  then have b: "\<bar>uint a - uint b\<bar> < 256" using uint_nonnegative [of a] uint_nonnegative [of b] by linarith
  then show "nat \<bar>uint a - uint b\<bar> \<le> 255" by simp
  show "unat (abs_diff a b) = nat \<bar>uint a - uint b\<bar>"
    using b by (simp add: abs_diff_def unsigned_of_int take_bit_int_eq_self)
qed

lemma psadbw_sum_value:
  "unat (psadbw_sum dst src k) = (\<Sum>i<8. nat \<bar>uint (dst ! (i + k)) - uint (src ! (i + k))\<bar>)
   \<and> (\<Sum>i<8. nat \<bar>uint (dst ! (i + k)) - uint (src ! (i + k))\<bar>) \<le> 2040"
proof -
  let ?d = "\<lambda>i. nat \<bar>uint (dst ! (i + k)) - uint (src ! (i + k))\<bar>"
  have "unat (fold (\<lambda>i r. r + abs_diff (dst ! (i + k)) (src ! (i + k))) [0..<n] 0) = (\<Sum>i<n. ?d i)
      \<and> (\<Sum>i<n. ?d i) \<le> 255 * n" if "n \<le> 8" for n
    using that
  proof (induction n)
    case (Suc n)
    have "(\<Sum>i<n. ?d i) \<le> 255 * n" "?d n \<le> 255" using Suc abs_diff_le(2) by simp_all
    then show ?case using Suc by (simp add: unat_word_ariths abs_diff_le(1))
  qed simp
  from this [of 8] show ?thesis by (simp add: psadbw_sum_def)
qed

section \<open>Selecting an index\<close>

lemma lowest_bit_hit:
  assumes "\<exists>i\<in>set xs. bit r i"
  shows "lowest_bit r xs \<in> set xs" and "bit r (lowest_bit r xs)"
  using assms by (induction xs) auto

lemma lowest_bit_up: "\<lbrakk>i \<in> set xs; bit r i; sorted xs\<rbrakk> \<Longrightarrow> lowest_bit r xs \<le> i"
  by (induction xs) auto

lemma lowest_bit_down: "\<lbrakk>i \<in> set xs; bit r i; sorted_wrt (\<ge>) xs\<rbrakk> \<Longrightarrow> i \<le> lowest_bit r xs"
  by (induction xs) auto

lemma ctz32_least:
  assumes "bit r i"
  shows "bit r (ctz32 r)" and "ctz32 r \<le> i"
proof -
  have i: "i \<in> set [0..<32]" using assms bit_imp_le_length [of r i] by simp
  show "bit r (ctz32 r)" unfolding ctz32_def by (rule lowest_bit_hit(2)) (use i assms in blast)
  show "ctz32 r \<le> i" unfolding ctz32_def by (rule lowest_bit_up [OF i assms]) simp
qed

lemma clz32_greatest:
  assumes "bit r i"
  shows "clz32 r \<le> 31" and "bit r (31 - clz32 r)" and "i \<le> 31 - clz32 r"
proof -
  have i: "i \<in> set (rev [0..<32])" using assms bit_imp_le_length [of r i] by simp
  have h: "lowest_bit r (rev [0..<32]) \<in> set (rev [0..<32])" "bit r (lowest_bit r (rev [0..<32]))"
    using lowest_bit_hit [of "rev [0..<32]" r] i assms by blast+
  show "clz32 r \<le> 31" by (simp add: clz32_def)
  show "bit r (31 - clz32 r)" using h by (simp add: clz32_def)
  have "i \<le> lowest_bit r (rev [0..<32])"
    by (rule lowest_bit_down [OF i assms]) (simp add: sorted_wrt_rev)
  then show "i \<le> 31 - clz32 r" using h(1) by (simp add: clz32_def)
qed

text \<open>The result of an index comparison: the lowest or highest set bit, or \<open>count\<close>.\<close>

definition index_result :: "nat \<Rightarrow> bool \<Rightarrow> (nat \<Rightarrow> bool) \<Rightarrow> u64 \<Rightarrow> bool" where
  "index_result count highest f x \<longleftrightarrow>
     (if \<forall>j<count. \<not> f j then x = of_nat count
      else \<exists>j<count. f j \<and> x = of_nat j
             \<and> (\<forall>i<count. f i \<longrightarrow> (if highest then i \<le> j else j \<le> i)))"

lemma masked_bits: "r AND mask count = r \<Longrightarrow> bit r j \<Longrightarrow> j < count" for r :: u32
  by (metis bit_and_iff bit_mask_iff)

lemma index_selection:
  assumes m: "r AND mask count = r" and count: "0 < count" "count \<le> 32"
  shows "index_result count sel (bit r)
     (if r = 0 then of_nat count
      else if \<not> sel then of_nat (ctz32 r)
      else of_nat (count - 1) - of_nat (clz32 (push_bit (32 - count) r)))"
proof (cases "r = 0")
  case False
  then obtain i where i: "bit r i" using bit_eqI [of r 0] by auto
  then have ilt: "i < count" by (rule masked_bits [OF m])
  show ?thesis
  proof (cases sel)
    case False
    have "bit r (ctz32 r)" "ctz32 r < count" using ctz32_least(1) [OF i] masked_bits [OF m] by blast+
    with ctz32_least(2) i ilt \<open>r \<noteq> 0\<close> False show ?thesis by (auto simp: index_result_def)
  next
    case True
    let ?p = "push_bit (32 - count) r"
    have p: "bit ?p n \<longleftrightarrow> 32 - count \<le> n \<and> n < 32 \<and> bit r (n - (32 - count))" for n
      by (auto simp: bit_simps)
    have up: "bit ?p (j + (32 - count))" if "bit r j" "j < count" for j
      using that count by (subst p) auto
    note c = clz32_greatest [OF up [OF i ilt]]
    define h where "h = 31 - clz32 ?p - (32 - count)"
    have h: "bit r h" "h < count" "32 - count \<le> 31 - clz32 ?p"
      using c(2) p [of "31 - clz32 ?p"] count by (auto simp: h_def)
    have hi: "j \<le> h" if "bit r j" for j
    proof -
      have "bit ?p (j + (32 - count))" by (rule up [OF that masked_bits [OF m that]])
      from clz32_greatest(3) [OF this] show ?thesis by (simp add: h_def)
    qed
    have "count - 1 = h + clz32 ?p" using h count c(1) by (simp add: h_def)
    then have "of_nat (count - 1) - of_nat (clz32 ?p) = (of_nat h :: u64)" by (metis add_diff_cancel_right' of_nat_add)
    with h hi i ilt True \<open>r \<noteq> 0\<close> show ?thesis by (auto simp: index_result_def)
  qed
qed (simp add: index_result_def)

section \<open>The whole comparison\<close>

lemma implicit_length_le: "implicit_length xs \<le> length xs"
  by (induction xs) auto

lemma index_result_cong:
  assumes "\<And>j. j < count \<Longrightarrow> f j \<longleftrightarrow> g j"
  shows "index_result count s f x \<longleftrightarrow> index_result count s g x"
  unfolding index_result_def by (rule if_cong) (auto simp: assms)

lemma intres1_total:
  "sl \<le> count \<Longrightarrow> \<exists>r. intres1 mode count dst src dl sl = Some r"
  by (cases mode) (simp_all add: intres1_def Let_def)

definition x86_pcmp :: "nat \<Rightarrow> int list \<Rightarrow> int list \<Rightarrow> u8 \<Rightarrow> nat \<Rightarrow> bool" where
  "x86_pcmp count dst src control =
     x86_intres2 (polarity_of control) count (implicit_length src)
       (x86_intres1 (mode_of control) count dst src (implicit_length dst) (implicit_length src))"

lemma pcmpistr_bits:
  assumes count: "count = 8 \<or> count = 16" and len: "length dst = count" "length src = count"
    and full: "mode_of control = EqualOrdered \<longrightarrow> implicit_length src = count"
  shows "\<exists>r1. intres1 (mode_of control) count dst src (implicit_length dst) (implicit_length src) = Some r1
     \<and> (\<forall>j<count. bit (intres2 (polarity_of control) count (implicit_length src) r1) j
                   \<longleftrightarrow> x86_pcmp count dst src control j)"
proof -
  have le: "implicit_length dst \<le> count" "implicit_length src \<le> count"
    using implicit_length_le len by metis+
  from intres1_total [OF le(2)] obtain r1 where
    r1: "intres1 (mode_of control) count dst src (implicit_length dst) (implicit_length src) = Some r1" by blast
  note bits = intres1_correct [OF r1 count le full]
  have "count \<le> 16" using count by auto
  from intres2_correct [OF this _ bits] r1 show ?thesis unfolding x86_pcmp_def by blast
qed

lemma intres2_masked: "intres2 pol count sl r AND mask count = intres2 pol count sl r"
  by (simp add: intres2_def and.assoc)

lemma pcmpistr_run:
  assumes wf: "length (gprs st) = 16" "length (xmm st) = 16"
    and count: "count = 8 \<or> count = 16" and len: "length dst = count" "length src = count"
    and full: "mode_of control = EqualOrdered \<longrightarrow> implicit_length src = count"
  defines "f \<equiv> x86_pcmp count dst src control"
  shows "\<exists>st'. pcmpxstrx_impl count True ind dst src control st = Some st'
     \<and> (cf st' \<longleftrightarrow> (\<exists>j<count. f j)) \<and> (oflag st' \<longleftrightarrow> f 0)
     \<and> (zf st' \<longleftrightarrow> 0 \<in> set src) \<and> (sf st' \<longleftrightarrow> 0 \<in> set dst) \<and> \<not> af st' \<and> \<not> pf st'
     \<and> (ind \<longrightarrow> index_result count (bit control 6) f (gprs st' ! X86_REF_RCX))
     \<and> (\<not> ind \<and> \<not> bit control 6 \<longrightarrow> snd (xmm st' ! 0) = 0
          \<and> (\<forall>j<64. bit (fst (xmm st' ! 0)) j \<longleftrightarrow> j < count \<and> f j))"
proof -
  obtain r1 where r1: "intres1 (mode_of control) count dst src (implicit_length dst) (implicit_length src) = Some r1"
    and bits: "\<forall>j<count. bit (intres2 (polarity_of control) count (implicit_length src) r1) j \<longleftrightarrow> f j"
    using pcmpistr_bits [OF count len full] unfolding f_def by blast
  define r where "r = intres2 (polarity_of control) count (implicit_length src) r1"
  have m: "r AND mask count = r" unfolding r_def by (rule intres2_masked)
  have c: "0 < count" "count \<le> 32" using count by auto
  have any: "r \<noteq> 0 \<longleftrightarrow> (\<exists>j<count. f j)"
  proof
    assume "r \<noteq> 0"
    then obtain j where "bit r j" using bit_eqI [of r 0] by auto
    with masked_bits [OF m] bits show "\<exists>j<count. f j" unfolding r_def by blast
  qed (use bits in \<open>auto simp: r_def [symmetric]\<close>)
  have zero: "implicit_length xs < length xs \<longleftrightarrow> 0 \<in> set xs" for xs
    by (induction xs) auto
  have sel: "index_result count s f (if r = 0 then of_nat count else if \<not> s then of_nat (ctz32 r)
      else of_nat (count - 1) - of_nat (clz32 (push_bit (32 - count) r)))" for s
    using index_selection [OF m c, of s] index_result_cong [of count "bit r" f s] bits
    unfolding r_def by blast
  have low: "bit (ucast r :: u64) j \<longleftrightarrow> j < count \<and> f j" if "j < 64" for j
    using that bits masked_bits [OF m, of j] unfolding r_def by (auto simp: bit_simps)
  have "bit r 0 \<longleftrightarrow> f 0" using bits c by (simp add: r_def)
  then show ?thesis
    using r1 any sel [of "bit control 6"] low wf zero [of src] zero [of dst] len
    by (cases "r = 0"; cases "bit control 6") (simp_all add: pcmpxstrx_impl_def Let_def r_def [symmetric])
qed

section \<open>Properties\<close>



text \<open>C30: the memory forms of \<^verbatim>\<open>BT\<close>, \<^verbatim>\<open>BTS\<close>, \<^verbatim>\<open>BTR\<close> and \<^verbatim>\<open>BTC\<close> test, set, reset
  and complement exactly the architecture's bit for every non-negative offset and every
  negative multiple of eight; for the other negative offsets they access the byte below it.\<close>

theorem bit_string_access:
  "(let p = x86_bit_ptr address offset - of_bool (sint offset < 0 \<and> x86_bit_index offset \<noteq> 0);
        i = x86_bit_index offset; b = bit (mem p) i in
    felix86_bt mem address offset = b
    \<and> felix86_bts mem address offset = (b, mem(p := set_bit i (mem p)))
    \<and> felix86_btr mem address offset = (b, mem(p := unset_bit i (mem p)))
    \<and> felix86_btc mem address offset = (b, mem(p := flip_bit i (mem p))))"
  by (simp add: felix86_bt_def felix86_bts_def felix86_btr_def felix86_btc_def bt_ptr_x86 low_bits Let_def
      set_bit_eq_or unset_bit_eq_and_not flip_bit_eq_xor)

text \<open>C31: \<^verbatim>\<open>felix86_psadbw\<close> stores the exact sum of the eight absolute byte differences in
  each half (the truncation to 16 bits loses nothing).\<close>

theorem psadbw_exact:
  "map unat (felix86_psadbw dst src) =
     [\<Sum>i<8. nat \<bar>uint (dst ! i) - uint (src ! i)\<bar>, \<Sum>i<8. nat \<bar>uint (dst ! (i + 8)) - uint (src ! (i + 8))\<bar>]"
proof -
  have "unat (ucast (ucast w :: u16) :: u64) = unat w" if "unat w \<le> 2040" for w :: u64
    using that by (simp add: unsigned_ucast_eq unsigned_take_bit_eq take_bit_nat_eq_self)
  with psadbw_sum_value [of dst src 0] psadbw_sum_value [of dst src 8] show ?thesis
    by (simp add: felix86_psadbw_def)
qed

section \<open>Where the helpers fall short\<close>

text \<open>An ordered search reports a match that runs past the end of a terminated source:
  the needle \<open>bc\<close> is found in \<open>ab\<close> (bit 1), where the architecture finds nothing.\<close>

lemma pcmpistr_ordered_partial:
  "map_option (\<lambda>st. (cf st, gprs st ! X86_REF_RCX))
     (pcmpxstrx_impl 8 True True [98, 99, 0, 0, 0, 0, 0, 0] [97, 98, 0, 0, 0, 0, 0, 0] 0xD ThreadState_default)
   = Some (True, 1)"
  by code_simp

lemma x86_ordered_no_match:
  assumes "j < 8"
  shows "\<not> x86_pcmp 8 [98, 99, 0, 0, 0, 0, 0, 0] [97, 98, 0, 0, 0, 0, 0, 0] 0xD j"
proof -
  have "\<not> x86_intres1 EqualOrdered 8 [98, 99, 0, 0, 0, 0, 0, 0] [97, 98, 0, 0, 0, 0, 0, 0] 2 2 j"
    unfolding x86_intres1_def using assms
    by (cases "j = 0"; cases "j = 1") (auto intro!: exI [of _ "of_bool (j = 1)"] simp: less_2_cases_iff)
  moreover have "mode_of 0xD = EqualOrdered" "polarity_of 0xD = Positive"
    by (simp_all add: mode_of_def polarity_of_def Let_def)
  moreover have "implicit_length [98, 99, 0, 0, 0, 0, 0, 0] = 2" "implicit_length [97, 98, 0, 0, 0, 0, 0, 0] = 2"
    by simp_all
  ultimately show ?thesis by (simp only: x86_pcmp_def x86_intres2_def polarity.case not_False_eq_True)
qed

text \<open>Bit -1 of a bit string at address 0x1000 is bit 7 of the byte at 0xFFF; the helper
  reads the byte at 0xFFE.\<close>

lemma bt_negative_offset: "bt_ptr 0x1000 (- 1) = 0xFFE \<and> x86_bit_ptr 0x1000 (- 1) = 0xFFF"
  by (simp add: bt_ptr_x86 x86_bit_ptr_def x86_bit_index_def)

end
