(* ===== verification/RiscV.thy ===== *)
theory RiscV
  imports ThreadState
begin

text \<open>
  The target of the recompiler: the integer registers and the byte-addressed memory of a
  RISC-V hart, and the instructions \<^verbatim>\<open>v2/recompiler.cpp\<close> and \<^verbatim>\<open>v2/handlers.cpp\<close> emit
  for integer guest code, with the semantics of the RV64I, M, A, Zba, Zbb and Zicond
  specifications. The assembler's pseudo-instructions (\<^verbatim>\<open>LI\<close>, \<^verbatim>\<open>MV\<close>, \<^verbatim>\<open>NOT\<close>, \<^verbatim>\<open>NEG\<close>,
  \<^verbatim>\<open>SEQZ\<close>, \<^verbatim>\<open>SNEZ\<close>, \<^verbatim>\<open>ZEXTH\<close>, \<^verbatim>\<open>ZEXTW\<close>) count as one instruction each, branch
  offsets count instructions, and a store-conditional always succeeds (one hart).
\<close>

section \<open>Machine state\<close>

type_synonym reg = nat

record machine =
  xregs :: "reg \<Rightarrow> u64"
  mem :: memory

text \<open>Register \<open>x0\<close> reads as zero and ignores writes.\<close>

definition rget :: "machine \<Rightarrow> reg \<Rightarrow> u64" where
  "rget m r = (if r = 0 then 0 else xregs m r)"

definition rset :: "reg \<Rightarrow> u64 \<Rightarrow> machine \<Rightarrow> machine" where
  "rset r v m = (if r = 0 then m else m\<lparr>xregs := (xregs m)(r := v)\<rparr>)"

text \<open>\<open>store n\<close> writes the low \<open>n\<close> bytes of a value little-endian.\<close>

fun store :: "nat \<Rightarrow> u64 \<Rightarrow> u64 \<Rightarrow> memory \<Rightarrow> memory" where
  "store 0 a v mm = mm"
| "store (Suc n) a v mm = store n (a + 1) (drop_bit 8 v) (mm(a := ucast v))"

section \<open>Instructions\<close>

datatype rop = rADD | rSUB | rAND | rOR | rXOR | rSLL | rSRL | rSRA | rSLTU
  | rADDW | rSUBW | rSLLW | rSRLW | rSRAW | rMUL | rMULW
  | rSH1ADD | rSH2ADD | rSH3ADD | rCZERO_EQZ | rCZERO_NEZ

datatype iop = iADDI | iANDI | iORI | iXORI | iADDIW

datatype shop = sSLLI | sSRLI | sSRAI | sRORI | sSRAIW

datatype unop = uMV | uNOT | uNEG | uSEQZ | uSNEZ | uZEXTH | uZEXTW | uSEXTB | uSEXTH | uCPOPW

datatype amoop = amoADD | amoAND | amoOR | amoXOR

datatype rv =
    Rr rop reg reg reg
  | Ri iop reg reg u64
  | Sh shop reg reg nat
  | Rm unop reg reg
  | LI reg u64
  | Lu nat reg u64 reg
  | St nat reg u64 reg
  | AMO amoop nat reg reg reg
  | LR_W reg reg
  | SC_W reg reg reg
  | BEQZ reg int
  | BNEZ reg int
  | BEQ reg reg int
  | J int
  | EBREAK
  | FENCE

text \<open>Sign extension of the low \<open>n + 1\<close> bits, as the \<^verbatim>\<open>W\<close> instructions and the
  sign-extending loads do it.\<close>

abbreviation sx :: "nat \<Rightarrow> u64 \<Rightarrow> u64" where
  "sx n x \<equiv> signed_take_bit n x"

fun rop_sem :: "rop \<Rightarrow> u64 \<Rightarrow> u64 \<Rightarrow> u64" where
  "rop_sem rADD a b = a + b"
| "rop_sem rSUB a b = a - b"
| "rop_sem rAND a b = a AND b"
| "rop_sem rOR a b = a OR b"
| "rop_sem rXOR a b = a XOR b"
| "rop_sem rSLL a b = push_bit (unat (b AND 0x3F)) a"
| "rop_sem rSRL a b = drop_bit (unat (b AND 0x3F)) a"
| "rop_sem rSRA a b = signed_drop_bit (unat (b AND 0x3F)) a"
| "rop_sem rSLTU a b = of_bool (a < b)"
| "rop_sem rADDW a b = sx 31 (a + b)"
| "rop_sem rSUBW a b = sx 31 (a - b)"
| "rop_sem rSLLW a b = sx 31 (push_bit (unat (b AND 0x1F)) a)"
| "rop_sem rSRLW a b = sx 31 (drop_bit (unat (b AND 0x1F)) (take_bit 32 a))"
| "rop_sem rSRAW a b = signed_drop_bit (unat (b AND 0x1F)) (sx 31 a)"
| "rop_sem rMUL a b = a * b"
| "rop_sem rMULW a b = sx 31 (a * b)"
| "rop_sem rSH1ADD a b = push_bit 1 a + b"
| "rop_sem rSH2ADD a b = push_bit 2 a + b"
| "rop_sem rSH3ADD a b = push_bit 3 a + b"
| "rop_sem rCZERO_EQZ a b = (if b = 0 then 0 else a)"
| "rop_sem rCZERO_NEZ a b = (if b \<noteq> 0 then 0 else a)"

fun iop_sem :: "iop \<Rightarrow> u64 \<Rightarrow> u64 \<Rightarrow> u64" where
  "iop_sem iADDI a i = a + i"
| "iop_sem iANDI a i = a AND i"
| "iop_sem iORI a i = a OR i"
| "iop_sem iXORI a i = a XOR i"
| "iop_sem iADDIW a i = sx 31 (a + i)"

fun shop_sem :: "shop \<Rightarrow> u64 \<Rightarrow> nat \<Rightarrow> u64" where
  "shop_sem sSLLI a n = push_bit n a"
| "shop_sem sSRLI a n = drop_bit n a"
| "shop_sem sSRAI a n = signed_drop_bit n a"
| "shop_sem sRORI a n = word_rotr n a"
| "shop_sem sSRAIW a n = signed_drop_bit n (sx 31 a)"

fun unop_sem :: "unop \<Rightarrow> u64 \<Rightarrow> u64" where
  "unop_sem uMV a = a"
| "unop_sem uNOT a = NOT a"
| "unop_sem uNEG a = - a"
| "unop_sem uSEQZ a = of_bool (a = 0)"
| "unop_sem uSNEZ a = of_bool (a \<noteq> 0)"
| "unop_sem uZEXTH a = take_bit 16 a"
| "unop_sem uZEXTW a = take_bit 32 a"
| "unop_sem uSEXTB a = sx 7 a"
| "unop_sem uSEXTH a = sx 15 a"
| "unop_sem uCPOPW a = of_nat (length (filter (bit a) [0..<32]))"

fun amoop_sem :: "amoop \<Rightarrow> u64 \<Rightarrow> u64 \<Rightarrow> u64" where
  "amoop_sem amoADD a b = a + b"
| "amoop_sem amoAND a b = a AND b"
| "amoop_sem amoOR a b = a OR b"
| "amoop_sem amoXOR a b = a XOR b"

text \<open>One instruction: the new machine state and the distance to the next instruction,
  \<open>None\<close> for a trap.\<close>

definition set_next :: "reg \<Rightarrow> u64 \<Rightarrow> machine \<Rightarrow> (machine \<times> int) option" where
  "set_next rd v m = Some (rset rd v m, 1)"

fun step :: "rv \<Rightarrow> machine \<Rightarrow> (machine \<times> int) option" where
  "step (Rr f rd a b) m = set_next rd (rop_sem f (rget m a) (rget m b)) m"
| "step (Ri f rd a i) m = set_next rd (iop_sem f (rget m a) i) m"
| "step (Sh f rd a n) m = set_next rd (shop_sem f (rget m a) n) m"
| "step (Rm f rd a) m = set_next rd (unop_sem f (rget m a)) m"
| "step (LI rd v) m = set_next rd v m"
| "step (Lu n rd off a) m = set_next rd (load n (mem m) (rget m a + off)) m"
| "step (St n s off a) m = Some (m\<lparr>mem := store n (rget m a + off) (rget m s) (mem m)\<rparr>, 1)"
| "step (AMO f n rd s a) m = (
     let old = load n (mem m) (rget m a) in
     set_next rd (sx (8 * n - 1) old)
       (m\<lparr>mem := store n (rget m a) (amoop_sem f old (rget m s)) (mem m)\<rparr>))"
| "step (LR_W rd a) m = set_next rd (sx 31 (load 4 (mem m) (rget m a))) m"
| "step (SC_W rd s a) m = set_next rd 0 (m\<lparr>mem := store 4 (rget m a) (rget m s) (mem m)\<rparr>)"
| "step (BEQZ r d) m = Some (m, if rget m r = 0 then d else 1)"
| "step (BNEZ r d) m = Some (m, if rget m r \<noteq> 0 then d else 1)"
| "step (BEQ r s d) m = Some (m, if rget m r = rget m s then d else 1)"
| "step (J d) m = Some (m, d)"
| "step EBREAK m = None"
| "step FENCE m = Some (m, 1)"

text \<open>A run of a code sequence until the program counter leaves it; \<open>None\<close> is a trap or
  missing fuel.\<close>

fun run :: "nat \<Rightarrow> rv list \<Rightarrow> int \<Rightarrow> machine \<Rightarrow> machine option" where
  "run fuel code pc m = (
     if pc < 0 \<or> int (length code) \<le> pc then Some m
     else case fuel of
       0 \<Rightarrow> None
     | Suc f \<Rightarrow> (case step (code ! nat pc) m of
         None \<Rightarrow> None
       | Some (m', d) \<Rightarrow> run f code (pc + d) m'))"

section \<open>Straight-line code\<close>

text \<open>Most instructions fall through. For a sequence of those the run is the composition of
  the single effects, which is what symbolic execution works with.\<close>

fun straight :: "rv \<Rightarrow> bool" where
  "straight (BEQZ r d) = False"
| "straight (BNEZ r d) = False"
| "straight (BEQ r s d) = False"
| "straight (J d) = False"
| "straight EBREAK = False"
| "straight _ = True"

definition effect :: "rv \<Rightarrow> machine \<Rightarrow> machine" where
  "effect i m = fst (the (step i m))"

definition exec :: "rv list \<Rightarrow> machine \<Rightarrow> machine" where
  "exec c m = fold effect c m"

named_theorems exec_simps
  \<open>symbolic execution of straight-line code\<close>

lemma exec_Nil [exec_simps]: "exec [] m = m"
  by (simp add: exec_def)

lemma exec_Cons [exec_simps]: "exec (i # c) m = exec c (effect i m)"
  by (simp add: exec_def)

lemma exec_append [exec_simps]: "exec (c @ d) m = exec d (exec c m)"
  by (simp add: exec_def)

lemma effect_simps [exec_simps]:
  "effect (Rr f rd a b) m = rset rd (rop_sem f (rget m a) (rget m b)) m"
  "effect (Ri g rd a i) m = rset rd (iop_sem g (rget m a) i) m"
  "effect (Sh h rd a n) m = rset rd (shop_sem h (rget m a) n) m"
  "effect (Rm u rd a) m = rset rd (unop_sem u (rget m a)) m"
  "effect (LI rd v) m = rset rd v m"
  "effect (Lu n rd off a) m = rset rd (load n (mem m) (rget m a + off)) m"
  "effect (St n s off a) m = m\<lparr>mem := store n (rget m a + off) (rget m s) (mem m)\<rparr>"
  "effect FENCE m = m"
  by (simp_all add: effect_def set_next_def)

lemma step_straight: "straight i \<Longrightarrow> step i m = Some (effect i m, 1)"
  by (cases i) (simp_all add: effect_def set_next_def Let_def)

lemma run_from:
  "list_all straight c \<Longrightarrow> run (length c) (pre @ c) (int (length pre)) m = Some (exec c m)"
proof (induction c arbitrary: pre m)
  case Nil
  then show ?case by (simp add: exec_Nil)
next
  case (Cons i c)
  have "run (length c) ((pre @ [i]) @ c) (int (length (pre @ [i]))) (effect i m) = Some (exec c (effect i m))"
    using Cons.prems by (intro Cons.IH) simp
  then show ?case
    using Cons.prems by (simp add: step_straight exec_Cons add.commute)
qed

lemma run_straight: "list_all straight c \<Longrightarrow> run (length c) c 0 m = Some (exec c m)"
  using run_from [of c "[]"] by simp

lemma rget_rset [simp]: "rget (rset r v m) s = (if s = r \<and> r \<noteq> 0 then v else rget m s)"
  by (simp add: rget_def rset_def)

lemma rget_mem_update [simp]: "rget (m\<lparr>mem := x\<rparr>) s = rget m s"
  by (simp add: rget_def)

lemma mem_rset [simp]: "mem (rset r v m) = mem m"
  by (simp add: rset_def)

lemma rget_0 [simp]: "rget m 0 = 0"
  by (simp add: rget_def)

end
