(* ===== verification/Emitter.thy ===== *)
theory Emitter
  imports RiscV
begin

text \<open>
  The code generator shared by all instruction handlers (\<^verbatim>\<open>v2/recompiler.cpp\<close>,
  \<^verbatim>\<open>v2/recompiler.hpp\<close>): the register allocation, the scratch registers, operand access,
  effective addresses and the flag helpers. Each operation appends RISC-V instructions to
  the code of an emitter; \<open>None\<close> is a failed \<^verbatim>\<open>ASSERT\<close>, an \<^verbatim>\<open>ERROR\<close> or
  \<^verbatim>\<open>UNREACHABLE\<close>. The decoded operands are the input: \<^verbatim>\<open>ZydisDecodedOperand\<close> as a
  datatype over register names, with the address of an operand (which \<^verbatim>\<open>lea\<close> compares)
  as a separate value.
\<close>

section \<open>Decoded instructions\<close>

text \<open>Register names: the general registers by width and number (\<open>Z_8H n\<close> is the second
  byte of register \<open>n\<close>), and the others the recompiler distinguishes.\<close>

datatype ZydisRegister = Z_NONE | Z_8 nat | Z_8H nat | Z_16 nat | Z_32 nat | Z_64 nat
  | Z_MM nat | Z_XMM nat | Z_ST nat | Z_RIP | Z_ES | Z_CS | Z_SS | Z_DS | Z_FS | Z_GS

datatype operand =
    RegOp ZydisRegister
  | MemOp (segment: ZydisRegister) (base: ZydisRegister) (index: ZydisRegister)
      (scale: nat) (disp: u64) (msize: nat)
  | ImmOp (ivalue: u64) (isize: nat)

text \<open>Where an operand lives: an element of the \<^verbatim>\<open>operands\<close> array or a local copy.\<close>

datatype operand_ptr = Operand nat | LocalCopy nat

record instruction =
  ilength :: u64
  operand_width :: nat
  address_width :: nat
  has_segment :: bool
  has_lock :: bool
  opcode :: u8

text \<open>What the code generator reads and does not change: the host's extensions, the
  configuration, the current instruction, which flags \<^verbatim>\<open>shouldEmitFlag\<close> asks for at it, the
  stack addresses of the local operand copies of \<^verbatim>\<open>getGPR\<close> and \<^verbatim>\<open>setGPR\<close>, and what the
  register field of an operand that is no register reads as (the decoder keeps the operand
  kinds in a union).\<close>

record env =
  ext_B :: bool
  ext_Zabha :: bool
  ext_Zicond :: bool
  ext_TSO :: bool
  g_mode32 :: bool
  paranoid :: bool
  noflag_opts :: bool
  always_tso :: bool
  current_rip :: u64
  current_instruction :: instruction
  needs_flag :: "x86_ref \<Rightarrow> bool"
  local_get :: nat
  local_set :: nat
  punned_reg :: ZydisRegister

record emitter =
  code :: "rv list"
  scratch_index :: nat
  cached_lea :: reg
  cached_lea_operand :: "operand_ptr option"

definition emits :: "rv list \<Rightarrow> emitter \<Rightarrow> emitter" where
  "emits c e = e\<lparr>code := code e @ c\<rparr>"

text \<open>\<^verbatim>\<open>Bind\<close>: the branch emitted at position \<open>p\<close> now targets the end of the code.\<close>

definition bind_label :: "nat \<Rightarrow> emitter \<Rightarrow> emitter" where
  "bind_label p e = (let d = int (length (code e)) - int p in
     e\<lparr>code := (code e)[p := (case code e ! p of
         BEQZ r _ \<Rightarrow> BEQZ r d | BNEZ r _ \<Rightarrow> BNEZ r d | BEQ r s _ \<Rightarrow> BEQ r s d | J _ \<Rightarrow> J d | i \<Rightarrow> i)]\<rparr>)"

section \<open>Names and sizes\<close>

fun zydisToRef :: "ZydisRegister \<Rightarrow> x86_ref option" where
  "zydisToRef (Z_8 n) = (if n < 16 then Some (X86_REF_RAX + n) else None)"
| "zydisToRef (Z_8H n) = (if n < 4 then Some (X86_REF_RAX + n) else None)"
| "zydisToRef (Z_16 n) = (if n < 16 then Some (X86_REF_RAX + n) else None)"
| "zydisToRef (Z_32 n) = (if n < 16 then Some (X86_REF_RAX + n) else None)"
| "zydisToRef (Z_64 n) = (if n < 16 then Some (X86_REF_RAX + n) else None)"
| "zydisToRef (Z_XMM n) = (if n < 16 then Some (X86_REF_XMM0 + n) else None)"
| "zydisToRef (Z_MM n) = (if n < 8 then Some (X86_REF_MM0 + n) else None)"
| "zydisToRef Z_RIP = Some X86_REF_RIP"
| "zydisToRef (Z_ST n) = (if n < 8 then Some (X86_REF_ST0 + n) else None)"
| "zydisToRef Z_CS = Some X86_REF_CS"
| "zydisToRef Z_DS = Some X86_REF_DS"
| "zydisToRef Z_SS = Some X86_REF_SS"
| "zydisToRef Z_ES = Some X86_REF_ES"
| "zydisToRef _ = None"

fun zydisToSize :: "ZydisRegister \<Rightarrow> x86_size option" where
  "zydisToSize (Z_8 n) = (if n < 16 then Some X86_SIZE_BYTE else None)"
| "zydisToSize (Z_8H n) = (if n < 4 then Some X86_SIZE_BYTE_HIGH else None)"
| "zydisToSize (Z_16 n) = (if n < 16 then Some X86_SIZE_WORD else None)"
| "zydisToSize (Z_32 n) = (if n < 16 then Some X86_SIZE_DWORD else None)"
| "zydisToSize (Z_64 n) = (if n < 16 then Some X86_SIZE_QWORD else None)"
| "zydisToSize (Z_XMM n) = (if n < 16 then Some X86_SIZE_XMM else None)"
| "zydisToSize (Z_MM n) = (if n < 8 then Some X86_SIZE_QWORD else None)"
| "zydisToSize _ = None"

definition zydisToSize_bits :: "nat \<Rightarrow> x86_size option" where
  "zydisToSize_bits sz = (
     if sz = 8 then Some X86_SIZE_BYTE
     else if sz = 16 then Some X86_SIZE_WORD
     else if sz = 32 then Some X86_SIZE_DWORD
     else if sz = 64 then Some X86_SIZE_QWORD
     else if sz = 80 then Some X86_SIZE_ST
     else if sz = 128 then Some X86_SIZE_XMM
     else None)"

fun getSize :: "operand \<Rightarrow> x86_size option" where
  "getSize (RegOp r) = zydisToSize r"
| "getSize (MemOp _ _ _ _ _ n) = (
     if n = 8 then Some X86_SIZE_BYTE
     else if n = 16 then Some X86_SIZE_WORD
     else if n = 32 then Some X86_SIZE_DWORD
     else if n = 64 then Some X86_SIZE_QWORD
     else if n = 128 then Some X86_SIZE_XMM
     else None)"
| "getSize (ImmOp _ n) = (
     if n = 8 then Some X86_SIZE_BYTE
     else if n = 16 then Some X86_SIZE_WORD
     else if n = 32 then Some X86_SIZE_DWORD
     else if n = 64 then Some X86_SIZE_QWORD
     else None)"

text \<open>\<^verbatim>\<open>operand->size\<close>, which the decoder sets to the width of the operand in bits.\<close>

fun operand_size :: "operand \<Rightarrow> nat" where
  "operand_size (RegOp r) = (case r of Z_8 _ \<Rightarrow> 8 | Z_8H _ \<Rightarrow> 8 | Z_16 _ \<Rightarrow> 16 | Z_32 _ \<Rightarrow> 32
     | Z_64 _ \<Rightarrow> 64 | Z_MM _ \<Rightarrow> 64 | Z_XMM _ \<Rightarrow> 128 | Z_ST _ \<Rightarrow> 80 | Z_RIP \<Rightarrow> 64 | _ \<Rightarrow> 16)"
| "operand_size (MemOp _ _ _ _ _ n) = n"
| "operand_size (ImmOp _ n) = n"

fun getBitSize :: "x86_size \<Rightarrow> nat option" where
  "getBitSize X86_SIZE_BYTE = Some 8"
| "getBitSize X86_SIZE_BYTE_HIGH = Some 8"
| "getBitSize X86_SIZE_WORD = Some 16"
| "getBitSize X86_SIZE_DWORD = Some 32"
| "getBitSize X86_SIZE_QWORD = Some 64"
| "getBitSize X86_SIZE_XMM = Some 128"
| "getBitSize _ = None"

definition getSignMask :: "x86_size \<Rightarrow> u64 option" where
  "getSignMask sz = do {
     n \<leftarrow> getBitSize sz;
     Some (push_bit (n - 1) 1)
   }"

definition sextImmediate :: "u64 \<Rightarrow> nat \<Rightarrow> u64 option" where
  "sextImmediate imm sz = (
     if sz = 8 then Some (sx 7 imm)
     else if sz = 16 then Some (sx 15 imm)
     else if sz = 32 then Some (sx 31 imm)
     else if sz = 64 then Some imm
     else None)"

fun getImmediate :: "operand \<Rightarrow> u64 option" where
  "getImmediate (ImmOp v _) = Some v"
| "getImmediate _ = None"

definition IsValidSigned12BitImm :: "u64 \<Rightarrow> bool" where
  "IsValidSigned12BitImm v \<longleftrightarrow> - 2048 \<le> sint v \<and> sint v \<le> 2047"

fun is_mem :: "operand \<Rightarrow> bool" where
  "is_mem (MemOp _ _ _ _ _ _) = True"
| "is_mem _ = False"

fun is_imm :: "operand \<Rightarrow> bool" where
  "is_imm (ImmOp _ _) = True"
| "is_imm _ = False"

fun is_reg :: "operand \<Rightarrow> bool" where
  "is_reg (RegOp _) = True"
| "is_reg _ = False"

text \<open>The host register that holds a guest register or flag; PF and AF have none.\<close>

definition gpr_alloc :: "reg list" where
  "gpr_alloc = [5, 26, 12, 8, 9, 18, 11, 10, 14, 15, 13, 16, 17, 22, 19, 20]"

definition allocatedGPR :: "x86_ref \<Rightarrow> reg option" where
  "allocatedGPR ref = (
     if ref = X86_REF_RIP then Some 3
     else if ref \<le> X86_REF_R15 then Some (gpr_alloc ! ref)
     else if ref = X86_REF_CF then Some 21
     else if ref = X86_REF_ZF then Some 23
     else if ref = X86_REF_SF then Some 24
     else if ref = X86_REF_OF then Some 25
     else None)"

abbreviation threadStatePointer :: reg where "threadStatePointer \<equiv> 27"

text \<open>Offsets of fields in \<^verbatim>\<open>ThreadState\<close>.\<close>

abbreviation (input) off_pf :: u64 where "off_pf \<equiv> 457"
abbreviation (input) off_af :: u64 where "off_af \<equiv> 458"
abbreviation (input) off_df :: u64 where "off_df \<equiv> 462"
abbreviation (input) off_gsbase :: u64 where "off_gsbase \<equiv> 480"
abbreviation (input) off_fsbase :: u64 where "off_fsbase \<equiv> 488"
abbreviation (input) off_csbase :: u64 where "off_csbase \<equiv> 496"
abbreviation (input) off_dsbase :: u64 where "off_dsbase \<equiv> 504"
abbreviation (input) off_ssbase :: u64 where "off_ssbase \<equiv> 512"
abbreviation (input) off_esbase :: u64 where "off_esbase \<equiv> 520"

section \<open>Scratch registers\<close>

definition scratch_gprs :: "reg list" where
  "scratch_gprs = [1, 6, 28, 29, 7, 30, 31]"

definition scratch :: "emitter \<Rightarrow> (reg \<times> emitter) option" where
  "scratch e = do {
     ASSERT (scratch_index e \<noteq> length scratch_gprs);
     Some (scratch_gprs ! scratch_index e, e\<lparr>scratch_index := Suc (scratch_index e)\<rparr>)
   }"

definition popScratch :: "emitter \<Rightarrow> emitter option" where
  "popScratch e = do {
     ASSERT (scratch_index e \<noteq> 0);
     Some (e\<lparr>scratch_index := scratch_index e - 1\<rparr>)
   }"

definition resetScratch :: "emitter \<Rightarrow> emitter" where
  "resetScratch e = e\<lparr>scratch_index := 0, cached_lea := 0, cached_lea_operand := None\<rparr>"

definition isScratch :: "reg \<Rightarrow> bool" where
  "isScratch r \<longleftrightarrow> r \<in> set scratch_gprs"

section \<open>Extensions\<close>

fun zext :: "env \<Rightarrow> reg \<Rightarrow> reg \<Rightarrow> x86_size \<Rightarrow> emitter \<Rightarrow> emitter option" where
  "zext V dest src X86_SIZE_BYTE e = Some (emits [Ri iANDI dest src 0xff] e)"
| "zext V dest src X86_SIZE_BYTE_HIGH e = Some (emits [Ri iANDI dest src 0xff] e)"
| "zext V dest src X86_SIZE_WORD e = Some (
     if ext_B V then emits [Rm uZEXTH dest src] e
     else emits [Sh sSLLI dest src 48, Sh sSRLI dest dest 48] e)"
| "zext V dest src X86_SIZE_DWORD e = Some (
     if ext_B V then emits [Rm uZEXTW dest src] e
     else emits [Sh sSLLI dest src 32, Sh sSRLI dest dest 32] e)"
| "zext V dest src X86_SIZE_QWORD e = Some (if dest \<noteq> src then emits [Rm uMV dest src] e else e)"
| "zext V dest src _ e = None"

definition sextb :: "env \<Rightarrow> reg \<Rightarrow> reg \<Rightarrow> emitter \<Rightarrow> emitter" where
  "sextb V dest src e = (
     if ext_B V then emits [Rm uSEXTB dest src] e
     else emits [Sh sSLLI dest src 56, Sh sSRAI dest dest 56] e)"

definition sexth :: "env \<Rightarrow> reg \<Rightarrow> reg \<Rightarrow> emitter \<Rightarrow> emitter" where
  "sexth V dest src e = (
     if ext_B V then emits [Rm uSEXTH dest src] e
     else emits [Sh sSLLI dest src 48, Sh sSRAI dest dest 48] e)"

fun sext_reg :: "env \<Rightarrow> reg \<Rightarrow> reg \<Rightarrow> x86_size \<Rightarrow> emitter \<Rightarrow> emitter option" where
  "sext_reg V dst src X86_SIZE_BYTE e = Some (sextb V dst src e)"
| "sext_reg V dst src X86_SIZE_WORD e = Some (sexth V dst src e)"
| "sext_reg V dst src X86_SIZE_DWORD e = Some (emits [Ri iADDIW dst src 0] e)"
| "sext_reg V dst src X86_SIZE_QWORD e = Some (emits [Rm uMV dst src] e)"
| "sext_reg V dst src _ e = None"

definition addi :: "reg \<Rightarrow> reg \<Rightarrow> u64 \<Rightarrow> emitter \<Rightarrow> emitter option" where
  "addi dst src imm e = (
     if imm = 0 \<and> dst = src then Some e
     else if - 2048 \<le> sint imm \<and> sint imm < 2048 then Some (emits [Ri iADDI dst src imm] e)
     else do {
       (r, e) \<leftarrow> scratch e;
       popScratch (emits [LI r imm, Rr rADD dst src r] e)
     })"

section \<open>Memory access\<close>

definition readMemory :: "env \<Rightarrow> reg \<Rightarrow> reg \<Rightarrow> u64 \<Rightarrow> x86_size \<Rightarrow> emitter \<Rightarrow> emitter option" where
  "readMemory V dest address offset sz e = do {
     c \<leftarrow> (case sz of
         X86_SIZE_BYTE \<Rightarrow> Some [Lu 1 dest offset address]
       | X86_SIZE_WORD \<Rightarrow> Some [Lu 2 dest offset address]
       | X86_SIZE_DWORD \<Rightarrow> Some [Lu 4 dest offset address]
       | X86_SIZE_QWORD \<Rightarrow> Some [Lu 8 dest offset address]
       | _ \<Rightarrow> None);
     Some (emits (c @ (if always_tso V \<and> \<not> ext_TSO V then [FENCE] else [])) e)
   }"

definition writeMemory :: "env \<Rightarrow> reg \<Rightarrow> reg \<Rightarrow> u64 \<Rightarrow> x86_size \<Rightarrow> emitter \<Rightarrow> emitter option" where
  "writeMemory V src address offset sz e = do {
     c \<leftarrow> (case sz of
         X86_SIZE_BYTE \<Rightarrow> Some [St 1 src offset address]
       | X86_SIZE_WORD \<Rightarrow> Some [St 2 src offset address]
       | X86_SIZE_DWORD \<Rightarrow> Some [St 4 src offset address]
       | X86_SIZE_QWORD \<Rightarrow> Some [St 8 src offset address]
       | _ \<Rightarrow> None);
     Some (emits ((if always_tso V \<and> \<not> ext_TSO V then [FENCE] else []) @ c) e)
   }"

section \<open>Guest registers and flags\<close>

definition reg_value :: "env \<Rightarrow> operand \<Rightarrow> ZydisRegister" where
  "reg_value V oper = (case oper of RegOp r \<Rightarrow> r | _ \<Rightarrow> punned_reg V)"

definition flag :: "x86_ref \<Rightarrow> emitter \<Rightarrow> (reg \<times> emitter) option" where
  "flag ref e = (
     if ref = X86_REF_PF then do {
       (r, e) \<leftarrow> scratch e;
       Some (r, emits [Lu 1 r off_pf threadStatePointer] e)
     } else if ref = X86_REF_AF then do {
       (r, e) \<leftarrow> scratch e;
       Some (r, emits [Lu 1 r off_af threadStatePointer] e)
     } else do {
       r \<leftarrow> allocatedGPR ref;
       Some (r, e)
     })"

definition getGPR_ref :: "env \<Rightarrow> x86_ref \<Rightarrow> x86_size \<Rightarrow> emitter \<Rightarrow> (reg \<times> emitter) option" where
  "getGPR_ref V ref sz e = do {
     gpr \<leftarrow> allocatedGPR ref;
     (case sz of
       X86_SIZE_BYTE \<Rightarrow> do {
         (gpr8, e) \<leftarrow> scratch e;
         e \<leftarrow> zext V gpr8 gpr X86_SIZE_BYTE e;
         Some (gpr8, e)
       }
     | X86_SIZE_BYTE_HIGH \<Rightarrow> do {
         (gpr8, e) \<leftarrow> scratch e;
         e \<leftarrow> zext V gpr8 gpr8 X86_SIZE_BYTE (emits [Sh sSRLI gpr8 gpr 8] e);
         Some (gpr8, e)
       }
     | X86_SIZE_WORD \<Rightarrow> do {
         (gpr16, e) \<leftarrow> scratch e;
         e \<leftarrow> zext V gpr16 gpr X86_SIZE_WORD e;
         Some (gpr16, e)
       }
     | X86_SIZE_DWORD \<Rightarrow>
         if \<not> g_mode32 V then do {
           (gpr32, e) \<leftarrow> scratch e;
           e \<leftarrow> zext V gpr32 gpr X86_SIZE_DWORD e;
           Some (gpr32, e)
         } else Some (gpr, e)
     | X86_SIZE_QWORD \<Rightarrow> Some (gpr, e)
     | _ \<Rightarrow> None)
   }"

definition getGPR_reg :: "env \<Rightarrow> ZydisRegister \<Rightarrow> emitter \<Rightarrow> (reg \<times> emitter) option" where
  "getGPR_reg V r e = do {
     ref \<leftarrow> zydisToRef r;
     sz \<leftarrow> zydisToSize r;
     getGPR_ref V ref sz e
   }"

definition isGPR :: "ZydisRegister \<Rightarrow> bool option" where
  "isGPR r = do {
     ref \<leftarrow> zydisToRef r;
     Some (X86_REF_RAX \<le> ref \<and> ref \<le> X86_REF_R15)
   }"

definition setGPR_ref :: "env \<Rightarrow> x86_ref \<Rightarrow> x86_size \<Rightarrow> reg \<Rightarrow> emitter \<Rightarrow> emitter option" where
  "setGPR_ref V ref sz r e = do {
     dest \<leftarrow> allocatedGPR ref;
     (case sz of
       X86_SIZE_BYTE \<Rightarrow> do {
         ASSERT (r \<noteq> dest);
         (gpr8, e) \<leftarrow> scratch e;
         popScratch (emits [Ri iANDI gpr8 r 0xff, Ri iANDI dest dest (NOT 0xff), Rr rOR dest dest gpr8] e)
       }
     | X86_SIZE_BYTE_HIGH \<Rightarrow> do {
         ASSERT (r \<noteq> dest);
         (if \<not> ext_B V then do {
            (gpr8, e) \<leftarrow> scratch e;
            (mask, e) \<leftarrow> scratch e;
            e \<leftarrow> popScratch (emits [LI mask 0xff00, Sh sSLLI gpr8 r 8, Rr rAND gpr8 gpr8 mask,
                   Rm uNOT mask mask, Rr rAND dest dest mask, Rr rOR dest dest gpr8] e);
            popScratch e
          } else do {
            (gpr8, e) \<leftarrow> scratch e;
            popScratch (emits [Ri iANDI gpr8 r 0xFF, Sh sRORI dest dest 8, Ri iANDI dest dest (NOT 0xFF),
                   Rr rOR dest dest gpr8, Sh sRORI dest dest 56] e)
          })
       }
     | X86_SIZE_WORD \<Rightarrow> do {
         ASSERT (r \<noteq> dest);
         (gpr16, e) \<leftarrow> scratch e;
         let e = (if ext_B V then emits [Rm uZEXTH gpr16 r] e
                  else emits [Sh sSLLI gpr16 r 48, Sh sSRLI gpr16 gpr16 48] e);
         popScratch (emits [Sh sSRLI dest dest 16, Sh sSLLI dest dest 16, Rr rOR dest dest gpr16] e)
       }
     | X86_SIZE_DWORD \<Rightarrow> Some (
         if ext_B V then emits [Rm uZEXTW dest r] e
         else emits [Sh sSLLI dest r 32, Sh sSRLI dest dest 32] e)
     | X86_SIZE_QWORD \<Rightarrow> Some (if dest \<noteq> r then emits [Rm uMV dest r] e else e)
     | _ \<Rightarrow> None)
   }"

section \<open>Effective addresses\<close>

definition scale_shift :: "nat \<Rightarrow> nat option" where
  "scale_shift s = (if s = 2 then Some 1 else if s = 4 then Some 2 else if s = 8 then Some 3 else None)"

definition shadd :: "nat \<Rightarrow> rop option" where
  "shadd s = (if s = 2 then Some rSH1ADD else if s = 4 then Some rSH2ADD
     else if s = 8 then Some rSH3ADD else None)"

text \<open>\<open>address := other + index * scale\<close>, the two places where an index is added to
  something already in a register.\<close>

definition add_index :: "env \<Rightarrow> reg \<Rightarrow> reg \<Rightarrow> reg \<Rightarrow> nat \<Rightarrow> emitter \<Rightarrow> emitter option" where
  "add_index V address other idx s e = (
     if s \<noteq> 1 then
       (if ext_B V then do {
          f \<leftarrow> shadd s;
          Some (emits [Rr f address idx other] e)
        } else do {
          n \<leftarrow> scale_shift s;
          (scale_reg, e) \<leftarrow> scratch e;
          popScratch (emits [Sh sSLLI scale_reg idx n, Rr rADD address other scale_reg] e)
        })
     else Some (emits [Rr rADD address other idx] e))"

fun segment_offset :: "env \<Rightarrow> ZydisRegister \<Rightarrow> u64 option" where
  "segment_offset V Z_FS = Some off_fsbase"
| "segment_offset V Z_GS = Some off_gsbase"
| "segment_offset V Z_SS = (if g_mode32 V then Some off_ssbase else None)"
| "segment_offset V Z_ES = (if g_mode32 V then Some off_esbase else None)"
| "segment_offset V Z_DS = (if g_mode32 V then Some off_dsbase else None)"
| "segment_offset V Z_CS = (if g_mode32 V then Some off_csbase else None)"
| "segment_offset V _ = None"

text \<open>Base, index and displacement into \<open>address\<close>.\<close>

definition lea_sum :: "env \<Rightarrow> reg \<Rightarrow> operand \<Rightarrow> emitter \<Rightarrow> emitter option" where
  "lea_sum V address oper e = (
     let has_base = (base oper \<noteq> Z_NONE); has_index = (index oper \<noteq> Z_NONE) in
     if disp oper \<noteq> 0 then do {
       e \<leftarrow> (if has_base \<and> IsValidSigned12BitImm (disp oper) then do {
           (b, e) \<leftarrow> getGPR_reg V (base oper) e;
           Some (emits [Ri iADDI address b (disp oper)] e)
         } else do {
           let e = emits [LI address (disp oper)] e;
           (if has_base then do {
              (b, e) \<leftarrow> getGPR_reg V (base oper) e;
              Some (emits [Rr rADD address address b] e)
            } else Some e)
         });
       (if has_index then do {
          (i, e) \<leftarrow> getGPR_reg V (index oper) e;
          add_index V address address i (scale oper) e
        } else Some e)
     } else if has_index then do {
       (i, e) \<leftarrow> getGPR_reg V (index oper) e;
       (if \<not> has_base then
          (if scale oper = 1 then Some (emits [Rm uMV address i] e)
           else do {
             n \<leftarrow> scale_shift (scale oper);
             Some (emits [Sh sSLLI address i n] e)
           })
        else do {
          (b, e) \<leftarrow> getGPR_reg V (base oper) e;
          add_index V address b i (scale oper) e
        })
     } else do {
       ASSERT has_base;
       (b, e) \<leftarrow> getGPR_reg V (base oper) e;
       Some (emits [Rm uMV address b] e)
     })"

definition lea :: "env \<Rightarrow> operand_ptr \<Rightarrow> operand \<Rightarrow> bool \<Rightarrow> emitter \<Rightarrow> (reg \<times> emitter) option" where
  "lea V ptr oper use_temp e = (
     if cached_lea_operand e = Some ptr then Some (cached_lea e, e)
     else do {
       ASSERT (is_mem oper);
       (address, e) \<leftarrow> scratch e;
       let e = (e\<lparr>cached_lea := address, cached_lea_operand := Some ptr\<rparr>);
       (if base oper = Z_RIP then do {
          ASSERT (\<not> g_mode32 V);
          Some (address, emits [LI address (current_rip V + ilength (current_instruction V) + disp oper)] e)
        } else
          let has_base = (base oper \<noteq> Z_NONE); has_index = (index oper \<noteq> Z_NONE);
              has_seg = has_segment (current_instruction V); has_disp = (disp oper \<noteq> 0) in
          if has_seg \<and> \<not> has_base \<and> \<not> has_index \<and> \<not> has_disp then
            (if segment oper = Z_FS then Some (address, emits [Lu 8 address off_fsbase threadStatePointer] e)
             else if segment oper = Z_GS then Some (address, emits [Lu 8 address off_gsbase threadStatePointer] e)
             else None)
          else if \<not> use_temp \<and> \<not> has_seg \<and> has_base \<and> \<not> has_index \<and> \<not> has_disp then
            getGPR_reg V (base oper) (e\<lparr>cached_lea_operand := None\<rparr>)
          else if \<not> use_temp \<and> \<not> has_seg \<and> \<not> has_base \<and> has_index \<and> \<not> has_disp \<and> scale oper = 1 then
            getGPR_reg V (index oper) (e\<lparr>cached_lea_operand := None\<rparr>)
          else do {
            e \<leftarrow> lea_sum V address oper e;
            e \<leftarrow> (if address_width (current_instruction V) \<noteq> 64 then do {
                    sz \<leftarrow> zydisToSize_bits (address_width (current_instruction V));
                    zext V address address sz e
                  } else Some e);
            e \<leftarrow> (if has_seg then do {
                    offset \<leftarrow> segment_offset V (segment oper);
                    (seg, e) \<leftarrow> scratch e;
                    popScratch (emits [Lu 8 seg offset threadStatePointer, Rr rADD address address seg] e)
                  } else Some e);
            Some (address, if g_mode32 V then emits [Rm uZEXTW address address] e else e)
          })
     })"

section \<open>Operands\<close>

text \<open>The operand with its displacement moved into the load or store.\<close>

definition no_disp :: "operand \<Rightarrow> operand" where
  "no_disp oper = MemOp (segment oper) (base oper) (index oper) (scale oper) 0 (msize oper)"

definition fold_disp :: "env \<Rightarrow> operand \<Rightarrow> bool" where
  "fold_disp V oper \<longleftrightarrow> IsValidSigned12BitImm (disp oper)
     \<and> \<not> has_segment (current_instruction V) \<and> \<not> paranoid V"

fun getGPR :: "env \<Rightarrow> operand_ptr \<Rightarrow> operand \<Rightarrow> emitter \<Rightarrow> (reg \<times> emitter) option" where
  "getGPR V ptr (RegOp r) e = getGPR_reg V r e"
| "getGPR V ptr (ImmOp v n) e = do {
     (imm, e) \<leftarrow> scratch e;
     Some (imm, emits [LI imm v] e)
   }"
| "getGPR V ptr (MemOp sg b i s d n) e = do {
     let oper = MemOp sg b i s d n;
     (dest, e) \<leftarrow> scratch e;
     sz \<leftarrow> zydisToSize_bits n;
     (if fold_disp V oper then do {
        (address, e) \<leftarrow> lea V (LocalCopy (local_get V)) (no_disp oper) False e;
        e \<leftarrow> readMemory V dest address d sz e;
        Some (dest, e)
      } else do {
        (address, e) \<leftarrow> lea V ptr oper False e;
        e \<leftarrow> readMemory V dest address 0 sz e;
        Some (dest, e)
      })
   }"

fun getGPR_size :: "env \<Rightarrow> operand \<Rightarrow> x86_size \<Rightarrow> emitter \<Rightarrow> (reg \<times> emitter) option" where
  "getGPR_size V (RegOp r) sz e = do {
     ref \<leftarrow> zydisToRef r;
     getGPR_ref V ref sz e
   }"
| "getGPR_size V _ sz e = None"

fun setGPR :: "env \<Rightarrow> operand_ptr \<Rightarrow> operand \<Rightarrow> reg \<Rightarrow> emitter \<Rightarrow> emitter option" where
  "setGPR V ptr (RegOp r) x e = do {
     ref \<leftarrow> zydisToRef r;
     sz \<leftarrow> zydisToSize r;
     setGPR_ref V ref sz x e
   }"
| "setGPR V ptr (MemOp sg b i s d n) x e = do {
     let oper = MemOp sg b i s d n;
     sz \<leftarrow> zydisToSize_bits n;
     (if fold_disp V oper then do {
        (address, e) \<leftarrow> lea V (LocalCopy (local_set V)) (no_disp oper) False e;
        writeMemory V x address d sz e
      } else do {
        (address, e) \<leftarrow> lea V ptr oper False e;
        writeMemory V x address 0 sz e
      })
   }"
| "setGPR V ptr (ImmOp _ _) x e = None"

section \<open>Flags\<close>

definition updateOverflowSub :: "reg \<Rightarrow> reg \<Rightarrow> reg \<Rightarrow> x86_size \<Rightarrow> emitter \<Rightarrow> emitter option" where
  "updateOverflowSub lhs rhs result size_e e = do {
     n \<leftarrow> getBitSize size_e;
     (ovf, e) \<leftarrow> flag X86_REF_OF e;
     (temp, e) \<leftarrow> scratch e;
     popScratch (emits [
       Rm uNOT temp lhs,
       Rr rOR ovf temp rhs,
       Rr rAND ovf ovf result,
       Rr rAND temp temp rhs,
       Rr rOR ovf ovf temp,
       Sh sSRLI temp ovf (n - 2),
       Sh sSRLI ovf ovf (n - 1),
       Rr rXOR ovf ovf temp,
       Ri iANDI ovf ovf 1] e)
   }"

definition updateOverflowAdd :: "reg \<Rightarrow> reg \<Rightarrow> reg \<Rightarrow> x86_size \<Rightarrow> emitter \<Rightarrow> emitter option" where
  "updateOverflowAdd lhs rhs result size_e e = do {
     n \<leftarrow> getBitSize size_e;
     (ovf, e) \<leftarrow> flag X86_REF_OF e;
     (temp, e) \<leftarrow> scratch e;
     popScratch (emits [
       Rr rOR ovf lhs rhs,
       Rm uNOT temp result,
       Rr rAND ovf temp ovf,
       Rr rAND temp lhs rhs,
       Rr rOR ovf ovf temp,
       Sh sSRLI temp ovf (n - 2),
       Sh sSRLI ovf ovf (n - 1),
       Rr rXOR ovf ovf temp,
       Ri iANDI ovf ovf 1] e)
   }"

definition updateAuxiliaryAdd :: "reg \<Rightarrow> reg \<Rightarrow> emitter \<Rightarrow> emitter option" where
  "updateAuxiliaryAdd lhs result e = do {
     (a, e) \<leftarrow> scratch e;
     (temp, e) \<leftarrow> scratch e;
     e \<leftarrow> popScratch (emits [
       Ri iANDI a result 0xF,
       Ri iANDI temp lhs 0xF,
       Rr rSLTU a a temp,
       St 1 a off_af threadStatePointer] e);
     popScratch e
   }"

definition updateAuxiliarySub :: "reg \<Rightarrow> reg \<Rightarrow> emitter \<Rightarrow> emitter option" where
  "updateAuxiliarySub lhs rhs e = do {
     (a, e) \<leftarrow> scratch e;
     (temp, e) \<leftarrow> scratch e;
     e \<leftarrow> popScratch (emits [
       Ri iANDI a rhs 0xF,
       Ri iANDI temp lhs 0xF,
       Rr rSLTU a temp a,
       St 1 a off_af threadStatePointer] e);
     popScratch e
   }"

definition updateAuxiliaryAdc :: "reg \<Rightarrow> reg \<Rightarrow> reg \<Rightarrow> reg \<Rightarrow> emitter \<Rightarrow> emitter option" where
  "updateAuxiliaryAdc lhs result cy result_2 e = do {
     (a, e) \<leftarrow> scratch e;
     (temp, e) \<leftarrow> scratch e;
     e \<leftarrow> popScratch (emits [
       Ri iANDI a result 0xF,
       Ri iANDI temp lhs 0xF,
       Rr rSLTU a a temp,
       Ri iANDI temp result_2 0xF,
       Rr rSLTU temp temp cy,
       Rr rOR a a temp,
       St 1 a off_af threadStatePointer] e);
     popScratch e
   }"

definition updateAuxiliarySbb :: "reg \<Rightarrow> reg \<Rightarrow> reg \<Rightarrow> reg \<Rightarrow> emitter \<Rightarrow> emitter option" where
  "updateAuxiliarySbb lhs rhs result cy e = do {
     (a, e) \<leftarrow> scratch e;
     (temp, e) \<leftarrow> scratch e;
     e \<leftarrow> popScratch (emits [
       Ri iANDI a rhs 0xF,
       Ri iANDI temp lhs 0xF,
       Rr rSLTU a temp a,
       Ri iANDI temp result 0xF,
       Rr rSLTU temp temp cy,
       Rr rOR a a temp,
       St 1 a off_af threadStatePointer] e);
     popScratch e
   }"

definition updateCarryAdd :: "env \<Rightarrow> reg \<Rightarrow> reg \<Rightarrow> x86_size \<Rightarrow> emitter \<Rightarrow> emitter option" where
  "updateCarryAdd V lhs result sz e = do {
     (cy, e) \<leftarrow> flag X86_REF_CF e;
     e \<leftarrow> zext V cy result sz e;
     Some (emits [Rr rSLTU cy cy lhs] e)
   }"

definition updateCarrySub :: "reg \<Rightarrow> reg \<Rightarrow> emitter \<Rightarrow> emitter option" where
  "updateCarrySub lhs rhs e = do {
     (cy, e) \<leftarrow> flag X86_REF_CF e;
     Some (emits [Rr rSLTU cy lhs rhs] e)
   }"

definition updateCarryAdc :: "env \<Rightarrow> reg \<Rightarrow> reg \<Rightarrow> reg \<Rightarrow> x86_size \<Rightarrow> emitter \<Rightarrow> emitter option" where
  "updateCarryAdc V lhs result result_2 sz e = do {
     (temp, e) \<leftarrow> scratch e;
     (temp2, e) \<leftarrow> scratch e;
     (cy, e) \<leftarrow> flag X86_REF_CF e;
     e \<leftarrow> zext V temp result sz e;
     e \<leftarrow> zext V temp2 result_2 sz e;
     e \<leftarrow> popScratch (emits [
       Rr rSLTU temp temp lhs,
       Rr rSLTU temp2 temp2 cy,
       Rr rOR cy temp temp2] e);
     popScratch e
   }"

definition clearFlag :: "x86_ref \<Rightarrow> emitter \<Rightarrow> emitter option" where
  "clearFlag ref e = do {
     (f, e) \<leftarrow> flag ref e;
     Some (emits [LI f 0] e)
   }"

definition setFlag :: "x86_ref \<Rightarrow> emitter \<Rightarrow> emitter option" where
  "setFlag ref e = do {
     (f, e) \<leftarrow> flag ref e;
     Some (emits [LI f 1] e)
   }"

definition updateParity :: "env \<Rightarrow> reg \<Rightarrow> emitter \<Rightarrow> emitter option" where
  "updateParity V result e = do {
     (p, e) \<leftarrow> scratch e;
     e \<leftarrow> (if ext_B V then Some (emits [Ri iANDI p result 0xFF, Rm uCPOPW p p] e)
           else do {
             (temp, e) \<leftarrow> scratch e;
             popScratch (emits [
               Sh sSRLI p result 4,
               Rr rXOR p p result,
               Sh sSRLI temp p 2,
               Rr rXOR temp p temp,
               Sh sSRLI p temp 1,
               Rr rXOR p p temp] e)
           });
     popScratch (emits [Ri iANDI p p 1, Ri iXORI p p 1, St 1 p off_pf threadStatePointer] e)
   }"

definition updateZero :: "env \<Rightarrow> reg \<Rightarrow> x86_size \<Rightarrow> emitter \<Rightarrow> emitter option" where
  "updateZero V result sz e = do {
     (z, e) \<leftarrow> flag X86_REF_ZF e;
     e \<leftarrow> zext V z result sz e;
     Some (emits [Rm uSEQZ z z] e)
   }"

definition updateSign :: "reg \<Rightarrow> x86_size \<Rightarrow> emitter \<Rightarrow> emitter option" where
  "updateSign result sz e = do {
     (s, e) \<leftarrow> flag X86_REF_SF e;
     n \<leftarrow> getBitSize sz;
     Some (emits [Sh sSRLI s result (n - 1), Ri iANDI s s 1] e)
   }"

text \<open>The register that holds condition code \<open>cond\<close> as 0 or 1.\<close>

definition getCond :: "nat \<Rightarrow> emitter \<Rightarrow> (reg \<times> emitter) option" where
  "getCond cond e = (
     let c = cond mod 16 in
     if c = 0 then flag X86_REF_OF e
     else if c = 1 then do {
       (r, e) \<leftarrow> scratch e; (f, e) \<leftarrow> flag X86_REF_OF e; Some (r, emits [Ri iXORI r f 1] e) }
     else if c = 2 then flag X86_REF_CF e
     else if c = 3 then do {
       (r, e) \<leftarrow> scratch e; (f, e) \<leftarrow> flag X86_REF_CF e; Some (r, emits [Ri iXORI r f 1] e) }
     else if c = 4 then flag X86_REF_ZF e
     else if c = 5 then do {
       (r, e) \<leftarrow> scratch e; (f, e) \<leftarrow> flag X86_REF_ZF e; Some (r, emits [Ri iXORI r f 1] e) }
     else if c = 6 then do {
       (r, e) \<leftarrow> scratch e; (f, e) \<leftarrow> flag X86_REF_CF e; (g, e) \<leftarrow> flag X86_REF_ZF e;
       Some (r, emits [Rr rOR r f g] e) }
     else if c = 7 then do {
       (r, e) \<leftarrow> scratch e; (f, e) \<leftarrow> flag X86_REF_CF e; (g, e) \<leftarrow> flag X86_REF_ZF e;
       Some (r, emits [Rr rOR r f g, Ri iXORI r r 1] e) }
     else if c = 8 then flag X86_REF_SF e
     else if c = 9 then do {
       (r, e) \<leftarrow> scratch e; (f, e) \<leftarrow> flag X86_REF_SF e; Some (r, emits [Ri iXORI r f 1] e) }
     else if c = 10 then flag X86_REF_PF e
     else if c = 11 then do {
       (f, e) \<leftarrow> flag X86_REF_PF e; Some (f, emits [Ri iXORI f f 1] e) }
     else if c = 12 then do {
       (r, e) \<leftarrow> scratch e; (f, e) \<leftarrow> flag X86_REF_SF e; (g, e) \<leftarrow> flag X86_REF_OF e;
       Some (r, emits [Rr rXOR r f g] e) }
     else if c = 13 then do {
       (r, e) \<leftarrow> scratch e; (f, e) \<leftarrow> flag X86_REF_SF e; (g, e) \<leftarrow> flag X86_REF_OF e;
       Some (r, emits [Rr rXOR r f g, Ri iXORI r r 1] e) }
     else if c = 14 then do {
       (r, e) \<leftarrow> scratch e; (f, e) \<leftarrow> flag X86_REF_SF e; (g, e) \<leftarrow> flag X86_REF_OF e;
       (z, e) \<leftarrow> flag X86_REF_ZF e;
       Some (r, emits [Rr rXOR r f g, Rr rOR r r z] e) }
     else do {
       (r, e) \<leftarrow> scratch e; (f, e) \<leftarrow> flag X86_REF_SF e; (g, e) \<leftarrow> flag X86_REF_OF e;
       (z, e) \<leftarrow> flag X86_REF_ZF e;
       Some (r, emits [Rr rXOR r f g, Rr rOR r r z, Ri iXORI r r 1] e) })"

end
