(* ===== verification/FlagScan.thy ===== *)
theory FlagScan
  imports Emitter
begin

text \<open>
  The scan of a block before it is compiled (\<^verbatim>\<open>Recompiler::scanAhead\<close>), which records
  where each status flag is used and overwritten, and \<^verbatim>\<open>shouldEmitFlag\<close>, which decides
  from this record whether an instruction has to compute a flag. The decoder is a parameter.
  The theorems say that the decision is exactly backward liveness of the flag, and that the
  scan ends when it meets an instruction that ends a block.
\<close>

section \<open>Decoded instructions\<close>

text \<open>The mnemonics of the code modelled here; \<open>M_SETcc n\<close> and \<open>M_CMOVcc n\<close> are the mnemonics of condition \<open>n\<close>,
  \<open>M_other\<close> stands for the rest.\<close>

datatype ZydisMnemonic = M_ADD | M_SUB | M_ADC | M_SBB | M_CMP | M_AND | M_OR | M_XOR | M_TEST | M_NOT
  | M_INC | M_DEC | M_NEG | M_SHL | M_SHLD | M_SHR | M_SHRD | M_SAR | M_ROL | M_ROR
  | M_MOV | M_MOVZX | M_MOVSX | M_MOVSXD | M_XCHG | M_CBW | M_CWDE | M_CDQE | M_CWD | M_CDQ | M_CQO
  | M_CLC | M_STC | M_CMC | M_SETcc nat | M_CMOVcc nat
  | M_RET | M_IRETD | M_IRETQ | M_CALL | M_UD2 | M_HLT | M_INVLPG | M_other nat

record decoded =
  mnemonic :: ZydisMnemonic
  insn :: instruction
  op0 :: operand
  op1 :: operand
  is_branch :: bool
  cpuflag_access :: bool
  cpu_modified :: u32
  cpu_set_0 :: u32
  cpu_set_1 :: u32
  cpu_undefined :: u32
  cpu_tested :: u32

text \<open>The bit of a status flag in the decoder's masks, and its row in
  \<^verbatim>\<open>flag_access_cpazso\<close>.\<close>

definition ZYDIS_CPUFLAG :: "x86_ref \<Rightarrow> nat" where
  "ZYDIS_CPUFLAG ref = (
     if ref = X86_REF_CF then 0
     else if ref = X86_REF_PF then 2
     else if ref = X86_REF_AF then 4
     else if ref = X86_REF_ZF then 6
     else if ref = X86_REF_SF then 7
     else 11)"

definition cpazso :: "x86_ref list" where
  "cpazso = [X86_REF_CF, X86_REF_PF, X86_REF_AF, X86_REF_ZF, X86_REF_SF, X86_REF_OF]"

definition flag_index :: "x86_ref \<Rightarrow> nat option" where
  "flag_index ref = (
     if ref = X86_REF_CF then Some 0
     else if ref = X86_REF_PF then Some 1
     else if ref = X86_REF_AF then Some 2
     else if ref = X86_REF_ZF then Some 3
     else if ref = X86_REF_SF then Some 4
     else if ref = X86_REF_OF then Some 5
     else None)"

definition flag_passthrough :: "ZydisMnemonic \<Rightarrow> x86_ref \<Rightarrow> bool" where
  "flag_passthrough mnem ref \<longleftrightarrow>
     mnem \<in> {M_SHL, M_SHLD, M_SHR, M_SHRD, M_SAR, M_ROL, M_ROR} \<and> (ref = X86_REF_CF \<or> ref = X86_REF_OF)"

definition changed :: "decoded \<Rightarrow> u32" where
  "changed d = cpu_modified d OR cpu_set_0 d OR cpu_set_1 d OR cpu_undefined d"

section \<open>The scan\<close>

text \<open>One entry: whether the flag is overwritten (otherwise it is used), and where.\<close>

type_synonym access = "bool \<times> u64"

record scan =
  instructions :: "(u64 \<times> decoded) list"
  flag_access :: "access list list"

record scan_config =
  unsafe_flags :: bool
  scan_paranoid :: bool

definition push_access :: "nat \<Rightarrow> access \<Rightarrow> scan \<Rightarrow> scan" where
  "push_access i a st = st\<lparr>flag_access := (flag_access st)[i := flag_access st ! i @ [a]]\<rparr>"

definition overwrite_all :: "u64 \<Rightarrow> scan \<Rightarrow> scan" where
  "overwrite_all pc st = fold (\<lambda>i. push_access i (True, pc)) [0..<6] st"

definition note_flag :: "u64 \<Rightarrow> decoded \<Rightarrow> nat \<Rightarrow> scan \<Rightarrow> scan" where
  "note_flag pc d i st = (
     if bit (cpu_tested d) (ZYDIS_CPUFLAG (cpazso ! i)) \<or> flag_passthrough (mnemonic d) (cpazso ! i)
     then push_access i (False, pc) st
     else if bit (changed d) (ZYDIS_CPUFLAG (cpazso ! i)) then push_access i (True, pc) st
     else st)"

definition is_ret :: "decoded \<Rightarrow> bool" where
  "is_ret d \<longleftrightarrow> mnemonic d \<in> {M_RET, M_IRETD, M_IRETQ}"

definition ends_block :: "decoded \<Rightarrow> bool" where
  "ends_block d \<longleftrightarrow> is_branch d \<or> is_ret d \<or> mnemonic d = M_CALL \<or> mnemonic d = M_UD2 \<or> mnemonic d = M_HLT"

text \<open>One turn of the loop: the new record and the address of the next instruction, if there is
  one. \<open>strlen\<close> is the length of the C string at an address.\<close>

definition scan_step :: "scan_config \<Rightarrow> (u64 \<Rightarrow> decoded) \<Rightarrow> (u64 \<Rightarrow> u64) \<Rightarrow> u64 \<Rightarrow> scan
    \<Rightarrow> (scan \<times> u64 option) option" where
  "scan_step cfg decode strlen pc st = (
     let d = decode pc; st = st\<lparr>instructions := instructions st @ [(pc, d)]\<rparr>;
         after = pc + ilength (insn d) in
     if unsafe_flags cfg \<and> \<not> scan_paranoid cfg \<and> (mnemonic d = M_CALL \<or> is_ret d)
     then Some (overwrite_all pc st, None)
     else
       let st = (if mnemonic d = M_INVLPG \<and> \<not> scan_paranoid cfg then overwrite_all pc st else st) in
       if mnemonic d = M_INVLPG \<and> \<not> is_mem (op0 d) then None
       else if mnemonic d = M_INVLPG \<and> base (op0 d) = Z_64 0 then do {
         ASSERT (strlen after > 0);
         Some (st, Some (after + strlen after + 1))
       }
       else if mnemonic d = M_INVLPG \<and> base (op0 d) = Z_64 1 then do {
         ASSERT (strlen (after + 8) > 0);
         Some (st, Some (after + 8 + strlen (after + 8) + 1))
       }
       else
         let st = (if cpuflag_access d then fold (note_flag pc d) [0..<6] st else st) in
         Some (st, if ends_block d then None else Some after))"

partial_function (option) scan_loop :: "scan_config \<Rightarrow> (u64 \<Rightarrow> decoded) \<Rightarrow> (u64 \<Rightarrow> u64) \<Rightarrow> u64 \<Rightarrow> scan \<Rightarrow> scan option" where
  "scan_loop cfg decode strlen pc st = do {
     (st, next) \<leftarrow> scan_step cfg decode strlen pc st;
     (case next of None \<Rightarrow> Some st | Some pc \<Rightarrow> scan_loop cfg decode strlen pc st)
   }"

declare scan_loop.simps [code]

definition empty_scan :: scan where
  "empty_scan = \<lparr>instructions = [], flag_access = replicate 6 []\<rparr>"

definition scanAhead :: "scan_config \<Rightarrow> (u64 \<Rightarrow> decoded) \<Rightarrow> (u64 \<Rightarrow> u64) \<Rightarrow> u64 \<Rightarrow> scan option" where
  "scanAhead cfg decode strlen pc = scan_loop cfg decode strlen pc empty_scan"

section \<open>The decision\<close>

datatype FlagMode = Default | AlwaysEmit | NeverEmit

fun first_access :: "u64 \<Rightarrow> access list \<Rightarrow> bool" where
  "first_access pc [] = True"
| "first_access pc ((chg, r) # as) = (if pc < r then \<not> chg else first_access pc as)"

definition shouldEmitFlag :: "FlagMode \<Rightarrow> bool \<Rightarrow> scan \<Rightarrow> u64 \<Rightarrow> x86_ref \<Rightarrow> bool option" where
  "shouldEmitFlag mode single_step st pc ref = (
     if mode = AlwaysEmit \<or> single_step then Some True
     else if mode = NeverEmit then Some False
     else do {
       i \<leftarrow> flag_index ref;
       Some (first_access pc (flag_access st ! i))
     })"

section \<open>Liveness\<close>

text \<open>The flags an instruction uses and the flags it overwrites, as the decoder reports them.\<close>

definition status :: "x86_ref set" where
  "status = set cpazso"

definition uses :: "decoded \<Rightarrow> x86_ref set" where
  "uses d = {f \<in> status. cpuflag_access d \<and> (bit (cpu_tested d) (ZYDIS_CPUFLAG f) \<or> flag_passthrough (mnemonic d) f)}"

definition overwrites :: "decoded \<Rightarrow> x86_ref set" where
  "overwrites d = {f \<in> status. cpuflag_access d \<and> bit (changed d) (ZYDIS_CPUFLAG f)}"

text \<open>Backward liveness over the rest of a block; every flag is live at its end.\<close>

fun live :: "decoded list \<Rightarrow> x86_ref set" where
  "live [] = status"
| "live (d # rest) = uses d \<union> (live rest - overwrites d)"

text \<open>The entries of row \<open>i\<close> for a list of instructions.\<close>

definition entry :: "x86_ref \<Rightarrow> u64 \<times> decoded \<Rightarrow> access list" where
  "entry f = (\<lambda>(pc, d). if f \<in> uses d then [(False, pc)] else if f \<in> overwrites d then [(True, pc)] else [])"

definition plain :: "scan_config \<Rightarrow> decoded \<Rightarrow> bool" where
  "plain cfg d \<longleftrightarrow> mnemonic d \<noteq> M_INVLPG \<and> \<not> (unsafe_flags cfg \<and> \<not> scan_paranoid cfg \<and> (mnemonic d = M_CALL \<or> is_ret d))"

lemma push_access_sel [simp]:
  "instructions (push_access i a st) = instructions st"
  "length (flag_access (push_access i a st)) = length (flag_access st)"
  "i < length (flag_access st) \<Longrightarrow> flag_access (push_access i a st) ! j = flag_access st ! j @ (if j = i then [a] else [])"
  by (auto simp: push_access_def nth_list_update)

lemma note_flag_sel [simp]:
  "instructions (note_flag pc d i st) = instructions st"
  "length (flag_access (note_flag pc d i st)) = length (flag_access st)"
  by (simp_all add: note_flag_def)

lemma cpazso_status: "i < 6 \<Longrightarrow> cpazso ! i \<in> status"
  unfolding status_def by (rule nth_mem) (simp add: cpazso_def)

lemma note_flag_row:
  "i < 6 \<Longrightarrow> length (flag_access st) = 6 \<Longrightarrow> cpuflag_access d \<Longrightarrow>
    flag_access (note_flag pc d i st) ! j = flag_access st ! j @ (if j = i then entry (cpazso ! i) (pc, d) else [])"
  using cpazso_status [of i] by (simp add: note_flag_def entry_def uses_def overwrites_def)

lemma note_all:
  assumes "length (flag_access st) = 6" "cpuflag_access d" "n \<le> 6" "st' = fold (note_flag pc d) [0..<n] st"
  shows "instructions st' = instructions st \<and> length (flag_access st') = 6
    \<and> (\<forall>j. flag_access st' ! j = flag_access st ! j @ (if j < n then entry (cpazso ! j) (pc, d) else []))"
  using assms(3,4)
proof (induction n arbitrary: st')
  case (Suc n)
  from Suc.IH [of "fold (note_flag pc d) [0..<n] st"] Suc.prems assms(1,2) show ?case
    by (auto simp: note_flag_row less_Suc_eq)
qed (use assms(1) in simp)

lemma no_entry: "\<not> cpuflag_access d \<Longrightarrow> entry f (pc, d) = []"
  by (simp add: entry_def uses_def overwrites_def)

lemma scan_step_plain:
  assumes "plain cfg (decode pc)" "length (flag_access st) = 6" "scan_step cfg decode strlen pc st = Some (st', next)"
  shows "instructions st' = instructions st @ [(pc, decode pc)]" "length (flag_access st') = 6"
    "j < 6 \<Longrightarrow> flag_access st' ! j = flag_access st ! j @ entry (cpazso ! j) (pc, decode pc)"
    "next = (if ends_block (decode pc) then None else Some (pc + ilength (insn (decode pc))))"
proof -
  define st1 where "st1 = st\<lparr>instructions := instructions st @ [(pc, decode pc)]\<rparr>"
  have s: "st' = (if cpuflag_access (decode pc) then fold (note_flag pc (decode pc)) [0..<6] st1 else st1)"
    and n: "next = (if ends_block (decode pc) then None else Some (pc + ilength (insn (decode pc))))"
    using assms(1,3) unfolding scan_step_def st1_def plain_def Let_def by (auto split: if_splits)
  show "next = (if ends_block (decode pc) then None else Some (pc + ilength (insn (decode pc))))" by (fact n)
  show "instructions st' = instructions st @ [(pc, decode pc)]" "length (flag_access st') = 6"
    "j < 6 \<Longrightarrow> flag_access st' ! j = flag_access st ! j @ entry (cpazso ! j) (pc, decode pc)"
    using note_all [of st1 "decode pc" 6 st' pc] assms(2) no_entry s
    by (auto simp: st1_def split: if_splits)
qed

lemma overwrite_all_sel [simp]:
  "instructions (overwrite_all pc st) = instructions st"
  "length (flag_access (overwrite_all pc st)) = length (flag_access st)"
  by (simp_all add: overwrite_all_def upt_rec)

lemma fold_note_sel [simp]:
  "instructions (fold (note_flag pc d) xs st) = instructions st"
  "length (flag_access (fold (note_flag pc d) xs st)) = length (flag_access st)"
  by (induction xs arbitrary: st) simp_all

lemma scan_step_any:
  assumes "scan_step cfg decode strlen pc st = Some (st', next)"
  shows "instructions st' = instructions st @ [(pc, decode pc)]" "length (flag_access st') = length (flag_access st)"
  using assms unfolding scan_step_def Let_def by (auto split: if_splits)

text \<open>What the whole scan collects.\<close>

lemma scan_loop_rows:
  assumes "scan_loop cfg decode strlen pc st = Some st'"
  shows "\<exists>new. instructions st' = instructions st @ new \<and> new \<noteq> [] \<and> fst (hd new) = pc
    \<and> (length (flag_access st) = 6 \<and> (\<forall>x \<in> set new. plain cfg (snd x)) \<longrightarrow>
        (\<forall>j < 6. flag_access st' ! j = flag_access st ! j @ concat (map (entry (cpazso ! j)) new)))"
proof (rule scan_loop.raw_induct [OF _ assms, where P = "\<lambda>cfg decode strlen pc st st'.
    \<exists>new. instructions st' = instructions st @ new \<and> new \<noteq> [] \<and> fst (hd new) = pc
    \<and> (length (flag_access st) = 6 \<and> (\<forall>x \<in> set new. plain cfg (snd x)) \<longrightarrow>
        (\<forall>j < 6. flag_access st' ! j = flag_access st ! j @ concat (map (entry (cpazso ! j)) new)))"])
  fix loop cfg decode strlen pc st st'
  assume IH: "\<And>cfg decode strlen pc st st'. loop cfg decode strlen pc st = Some st' \<Longrightarrow>
      \<exists>new. instructions st' = instructions st @ new \<and> new \<noteq> [] \<and> fst (hd new) = pc
    \<and> (length (flag_access st) = 6 \<and> (\<forall>x \<in> set new. plain cfg (snd x)) \<longrightarrow>
        (\<forall>j < 6. flag_access st' ! j = flag_access st ! j @ concat (map (entry (cpazso ! j)) new)))"
    and step: "scan_step cfg decode strlen pc st \<bind> (\<lambda>(st, next). case next of None \<Rightarrow> Some st
        | Some pc \<Rightarrow> loop cfg decode strlen pc st) = Some st'"
  obtain st1 nxt where s: "scan_step cfg decode strlen pc st = Some (st1, nxt)"
    using step by (cases "scan_step cfg decode strlen pc st") auto
  note any = scan_step_any [OF s] and pl = scan_step_plain [OF _ _ s]
  show "\<exists>new. instructions st' = instructions st @ new \<and> new \<noteq> [] \<and> fst (hd new) = pc
    \<and> (length (flag_access st) = 6 \<and> (\<forall>x \<in> set new. plain cfg (snd x)) \<longrightarrow>
        (\<forall>j < 6. flag_access st' ! j = flag_access st ! j @ concat (map (entry (cpazso ! j)) new)))"
  proof (cases nxt)
    case None
    then have "st' = st1" using step s by simp
    then show ?thesis using any pl by (intro exI [of _ "[(pc, decode pc)]"]) auto
  next
    case (Some pc')
    then have "loop cfg decode strlen pc' st1 = Some st'" using step s by simp
    from IH [OF this] obtain new where new: "instructions st' = instructions st1 @ new"
      "length (flag_access st1) = 6 \<and> (\<forall>x \<in> set new. plain cfg (snd x)) \<longrightarrow>
        (\<forall>j < 6. flag_access st' ! j = flag_access st1 ! j @ concat (map (entry (cpazso ! j)) new))"
      by blast
    then show ?thesis using any pl by (intro exI [of _ "(pc, decode pc) # new"]) auto
  qed
qed

lemma entry_cases:
  "entry f x = (if f \<in> uses (snd x) then [(False, fst x)] else if f \<in> overwrites (snd x) then [(True, fst x)] else [])"
  by (cases x) (simp add: entry_def)

lemma first_access_skip:
  "(\<forall>x \<in> set xs. fst x \<le> pc) \<Longrightarrow> first_access pc (concat (map (entry f) xs) @ ys) = first_access pc ys"
proof (induction xs)
  case (Cons x xs)
  then have "\<not> pc < fst x" by (simp add: not_less)
  with Cons show ?case by (simp add: entry_cases)
qed simp

lemma first_access_live:
  assumes "\<forall>x \<in> set xs. pc < fst x" "f \<in> status"
  shows "first_access pc (concat (map (entry f) xs)) \<longleftrightarrow> f \<in> live (map snd xs)"
  using assms by (induction xs) (simp_all add: entry_cases)

lemma flag_index_cpazso: "f \<in> status \<Longrightarrow> \<exists>i < 6. flag_index f = Some i \<and> cpazso ! i = f"
  unfolding status_def cpazso_def flag_index_def by (auto simp: nth_Cons')

lemma shouldEmitFlag_live:
  assumes "scanAhead cfg decode strlen pc = Some st"
    and "\<forall>x \<in> set (instructions st). plain cfg (snd x)"
    and "sorted_wrt (<) (map fst (instructions st))"
    and "i < length (instructions st)" and "f \<in> status"
  shows "shouldEmitFlag Default False st (fst (instructions st ! i)) f
    = Some (f \<in> live (map snd (drop (Suc i) (instructions st))))"
proof -
  define xs where "xs = instructions st"
  obtain j where j: "j < 6" "flag_index f = Some j" "cpazso ! j = f"
    using flag_index_cpazso [OF assms(5)] by blast
  have row: "flag_access st ! j = concat (map (entry f) xs)"
    using scan_loop_rows [OF assms(1) [unfolded scanAhead_def]] assms(2) j(1,3)
    unfolding xs_def by (auto simp: empty_scan_def)
  have sorted: "fst (xs ! k) < fst (xs ! l)" if "k < l" "l < length xs" for k l
    using sorted_wrt_nth_less [OF assms(3), of k l] that by (simp add: xs_def)
  have "concat (map (entry f) xs) = concat (map (entry f) (take (Suc i) xs)) @ concat (map (entry f) (drop (Suc i) xs))"
    unfolding concat_append [symmetric] map_append [symmetric] append_take_drop_id ..
  moreover have "fst x \<le> fst (xs ! i)" if "x \<in> set (take (Suc i) xs)" for x
    using that assms(4) sorted by (auto simp: in_set_conv_nth xs_def [symmetric] less_Suc_eq intro: less_imp_le)
  moreover have "fst (xs ! i) < fst x" if "x \<in> set (drop (Suc i) xs)" for x
    using that sorted by (auto simp: in_set_conv_nth)
  ultimately have "first_access (fst (xs ! i)) (concat (map (entry f) xs)) \<longleftrightarrow> f \<in> live (map snd (drop (Suc i) xs))"
    using first_access_skip [of "take (Suc i) xs" "fst (xs ! i)" f] first_access_live [OF _ assms(5)] by simp
  then show ?thesis
    unfolding xs_def [symmetric] shouldEmitFlag_def by (simp add: j(2) row)
qed

text \<open>C4: in the default flag mode, \<^verbatim>\<open>shouldEmitFlag\<close> asks for a flag at an instruction of the
  scanned block exactly when backward liveness finds the flag live after it, with all flags
  live at the end of the block.\<close>

theorem shouldEmitFlag_is_liveness:
  assumes "scanAhead cfg decode strlen pc = Some st"
    and "\<forall>x \<in> set (instructions st). plain cfg (snd x)"
    and "sorted_wrt (<) (map fst (instructions st))"
    and "i < length (instructions st)" and "f \<in> status"
  shows "shouldEmitFlag Default False st (fst (instructions st ! i)) f
    = Some (f \<in> live (map snd (drop (Suc i) (instructions st))))"
  by (rule shouldEmitFlag_live [OF assms])

text \<open>An example: an addition whose flags the comparison after it overwrites, and a conditional
  jump on CF and ZF that ends the block.\<close>

definition sample_insn :: instruction where
  "sample_insn = \<lparr>ilength = 2, operand_width = 32, address_width = 64, has_segment = False, has_lock = False, opcode = 0\<rparr>"

definition sample_block :: "u64 \<Rightarrow> decoded" where
  "sample_block pc = (
     if pc = 0x1000 then \<lparr>mnemonic = M_ADD, insn = sample_insn, op0 = RegOp (Z_32 0), op1 = RegOp (Z_32 1),
       is_branch = False, cpuflag_access = True, cpu_modified = 0x8D5, cpu_set_0 = 0, cpu_set_1 = 0,
       cpu_undefined = 0, cpu_tested = 0\<rparr>
     else if pc = 0x1002 then \<lparr>mnemonic = M_CMP, insn = sample_insn, op0 = RegOp (Z_32 0), op1 = RegOp (Z_32 2),
       is_branch = False, cpuflag_access = True, cpu_modified = 0x8D5, cpu_set_0 = 0, cpu_set_1 = 0,
       cpu_undefined = 0, cpu_tested = 0\<rparr>
     else \<lparr>mnemonic = M_other 0, insn = sample_insn, op0 = RegOp (Z_32 0), op1 = RegOp (Z_32 0),
       is_branch = True, cpuflag_access = True, cpu_modified = 0, cpu_set_0 = 0, cpu_set_1 = 0,
       cpu_undefined = 0, cpu_tested = 0x41\<rparr>)"

definition sample_scan :: scan where
  "sample_scan = \<lparr>instructions = [(0x1000, sample_block 0x1000), (0x1002, sample_block 0x1002), (0x1004, sample_block 0x1004)],
     flag_access = [[(True, 0x1000), (True, 0x1002), (False, 0x1004)], [(True, 0x1000), (True, 0x1002)],
       [(True, 0x1000), (True, 0x1002)], [(True, 0x1000), (True, 0x1002), (False, 0x1004)],
       [(True, 0x1000), (True, 0x1002)], [(True, 0x1000), (True, 0x1002)]]\<rparr>"

lemma sample_scan: "scanAhead \<lparr>unsafe_flags = False, scan_paranoid = False\<rparr> sample_block (\<lambda>_. 1) 0x1000 = Some sample_scan"
  by code_simp

theorem shouldEmitFlag_is_liveness_witness:
  "shouldEmitFlag Default False sample_scan 0x1000 X86_REF_CF
     = Some (X86_REF_CF \<in> live (map snd (drop (Suc 0) (instructions sample_scan))))"
  using shouldEmitFlag_is_liveness [OF sample_scan, of 0 X86_REF_CF]
  by (auto simp: sample_scan_def plain_def sample_block_def is_ret_def status_def cpazso_def)

section \<open>The scan ends\<close>

text \<open>\<open>block_end decode k pc\<close>: of the instructions from \<open>pc\<close> on, the \<open>k\<close>-th is the first that ends a
  block.\<close>

fun block_end :: "(u64 \<Rightarrow> decoded) \<Rightarrow> nat \<Rightarrow> u64 \<Rightarrow> bool" where
  "block_end decode 0 pc = ends_block (decode pc)"
| "block_end decode (Suc k) pc \<longleftrightarrow> \<not> ends_block (decode pc) \<and> block_end decode k (pc + ilength (insn (decode pc)))"

fun block_addresses :: "(u64 \<Rightarrow> decoded) \<Rightarrow> nat \<Rightarrow> u64 \<Rightarrow> u64 list" where
  "block_addresses decode 0 pc = [pc]"
| "block_addresses decode (Suc k) pc = pc # block_addresses decode k (pc + ilength (insn (decode pc)))"

lemma scan_step_exists:
  "plain cfg (decode pc) \<Longrightarrow> \<exists>st'. scan_step cfg decode strlen pc st
     = Some (st', if ends_block (decode pc) then None else Some (pc + ilength (insn (decode pc))))"
  unfolding scan_step_def plain_def Let_def by auto

lemma scan_loop_ends:
  assumes "block_end decode k pc" "\<forall>a \<in> set (block_addresses decode k pc). plain cfg (decode a)"
  shows "\<exists>st'. scan_loop cfg decode strlen pc st = Some st'
    \<and> map fst (instructions st') = map fst (instructions st) @ block_addresses decode k pc"
  using assms
proof (induction k arbitrary: pc st)
  case 0
  then obtain st' where s: "scan_step cfg decode strlen pc st = Some (st', None)"
    using scan_step_exists [of cfg decode pc strlen st] by auto
  then show ?case using scan_step_any(1) [OF s] by (subst scan_loop.simps) simp
next
  case (Suc k)
  let ?next = "pc + ilength (insn (decode pc))"
  obtain st1 where s: "scan_step cfg decode strlen pc st = Some (st1, Some ?next)"
    using scan_step_exists [of cfg decode pc strlen st] Suc.prems by auto
  obtain st' where "scan_loop cfg decode strlen ?next st1 = Some st'"
    "map fst (instructions st') = map fst (instructions st1) @ block_addresses decode k ?next"
    using Suc.IH [of ?next st1] Suc.prems by auto
  then show ?case using s scan_step_any(1) [OF s] by (subst scan_loop.simps) simp
qed



end
