(* ===== verification/X86Alu.thy ===== *)
theory X86Alu
  imports Felix_Prelude
begin

text \<open>
  What the x86 architecture says about the integer operations the recompiler translates:
  the six status flags of an addition with carry in, a subtraction with borrow in and a
  logical operation at operand size \<open>n\<close>, on register values of which only the low \<open>n\<close> bits
  count. The lemmas relate these arithmetic statements to the bitwise formulas the emitted
  code evaluates.
\<close>

section \<open>Reference flags\<close>

definition low :: "nat \<Rightarrow> u64 \<Rightarrow> nat" where
  "low n x = unat (take_bit n x)"

definition slow :: "nat \<Rightarrow> u64 \<Rightarrow> int" where
  "slow n x = (if bit x (n - 1) then int (low n x) - 2 ^ n else int (low n x))"

definition in_signed :: "nat \<Rightarrow> int \<Rightarrow> bool" where
  "in_signed n v \<longleftrightarrow> - (2 ^ (n - 1)) \<le> v \<and> v < 2 ^ (n - 1)"

definition x86_cf_add :: "nat \<Rightarrow> u64 \<Rightarrow> u64 \<Rightarrow> bool \<Rightarrow> bool" where
  "x86_cf_add n a b c \<longleftrightarrow> 2 ^ n \<le> low n a + low n b + of_bool c"

definition x86_of_add :: "nat \<Rightarrow> u64 \<Rightarrow> u64 \<Rightarrow> bool \<Rightarrow> bool" where
  "x86_of_add n a b c \<longleftrightarrow> \<not> in_signed n (slow n a + slow n b + of_bool c)"

definition x86_cf_sub :: "nat \<Rightarrow> u64 \<Rightarrow> u64 \<Rightarrow> bool \<Rightarrow> bool" where
  "x86_cf_sub n a b c \<longleftrightarrow> low n a < low n b + of_bool c"

definition x86_of_sub :: "nat \<Rightarrow> u64 \<Rightarrow> u64 \<Rightarrow> bool \<Rightarrow> bool" where
  "x86_of_sub n a b c \<longleftrightarrow> \<not> in_signed n (slow n a - slow n b - of_bool c)"

definition x86_af_add :: "u64 \<Rightarrow> u64 \<Rightarrow> bool \<Rightarrow> bool" where
  "x86_af_add a b c \<longleftrightarrow> x86_cf_add 4 a b c"

definition x86_af_sub :: "u64 \<Rightarrow> u64 \<Rightarrow> bool \<Rightarrow> bool" where
  "x86_af_sub a b c \<longleftrightarrow> x86_cf_sub 4 a b c"

definition x86_pf :: "u64 \<Rightarrow> bool" where
  "x86_pf r \<longleftrightarrow> even (length (filter (bit r) [0..<8]))"

definition x86_zf :: "nat \<Rightarrow> u64 \<Rightarrow> bool" where
  "x86_zf n r \<longleftrightarrow> take_bit n r = 0"

definition x86_sf :: "nat \<Rightarrow> u64 \<Rightarrow> bool" where
  "x86_sf n r \<longleftrightarrow> bit r (n - 1)"

section \<open>Low parts\<close>

lemma low_less: "n \<le> 64 \<Longrightarrow> low n x < 2 ^ n"
  using take_bit_nat_less_exp [of n "unat x"] by (simp add: low_def unsigned_take_bit_eq)

lemma low_Suc: "k < 64 \<Longrightarrow> low (Suc k) x = low k x + (if bit x k then 2 ^ k else 0)"
  by (simp add: low_def unsigned_take_bit_eq take_bit_Suc_from_most bit_unsigned_iff)

lemma low_mod: "low n x = unat x mod 2 ^ n"
  unfolding low_def by (subst unsigned_take_bit_eq) (simp add: take_bit_eq_mod)

lemma low_add:
  assumes "n \<le> 64"
  shows "low n (a + b + of_bool c) = (low n a + low n b + of_bool c) mod 2 ^ n"
proof -
  have d: "(2 :: nat) ^ n dvd 2 ^ 64" using assms by (rule le_imp_power_dvd)
  have "unat (a + b + of_bool c) = (unat a + unat b + of_bool c) mod 2 ^ 64"
    by (simp only: unat_word_ariths mod_add_left_eq) simp
  then have "low n (a + b + of_bool c) = (unat a + unat b + of_bool c) mod 2 ^ n"
    using d by (simp only: low_mod mod_mod_cancel)
  also have "\<dots> = (low n a + low n b + of_bool c) mod 2 ^ n"
    by (simp only: low_mod mod_add_left_eq mod_add_right_eq add.assoc)
       (metis mod_add_left_eq mod_add_right_eq)
  finally show ?thesis .
qed

lemma low_sub:
  assumes "n \<le> 64"
  shows "int (low n (a - b - of_bool c)) = (int (low n a) - int (low n b) - of_bool c) mod 2 ^ n"
proof -
  have d: "(2 :: int) ^ n dvd 2 ^ 64" using assms by (rule le_imp_power_dvd)
  have il: "int (low n x) = uint x mod 2 ^ n" for x
    by (simp add: low_mod zmod_int)
  have "uint (a - b - of_bool c) = (uint a - uint b - of_bool c) mod 2 ^ 64"
    by (simp only: uint_word_ariths mod_diff_left_eq) simp
  then have "int (low n (a - b - of_bool c)) = (uint a - uint b - of_bool c) mod 2 ^ n"
    using d by (simp only: il mod_mod_cancel)
  also have "\<dots> = ((uint a mod 2 ^ n) - (uint b mod 2 ^ n) - of_bool c) mod 2 ^ n"
    by (rule mod_diff_cong [OF mod_diff_cong refl]) simp_all
  also have "\<dots> = (int (low n a) - int (low n b) - of_bool c) mod 2 ^ n"
    by (simp only: il)
  finally show ?thesis .
qed

lemma mod_wrap_nat:
  "S < 2 * N \<Longrightarrow> S mod N = (if S < N then S else S - N)" for S N :: nat
  by (simp add: le_mod_geq)

lemma mod_wrap_int:
  "- N \<le> D \<Longrightarrow> D < N \<Longrightarrow> D mod N = (if D < 0 then D + N else D)" for D N :: int
proof (cases "D < 0")
  case True
  assume "- N \<le> D"
  then have "(D + N) mod N = D + N" using True by (intro mod_pos_pos_trivial) simp_all
  then show ?thesis using True by simp
qed simp

section \<open>Carries and borrows\<close>

lemma cf_add_int: "x86_cf_add n a b c \<longleftrightarrow> 2 ^ n \<le> int (low n a) + int (low n b) + of_bool c"
proof -
  have "x86_cf_add n a b c \<longleftrightarrow> int (2 ^ n) \<le> int (low n a + low n b + of_bool c)"
    unfolding x86_cf_add_def by (rule of_nat_le_iff [symmetric])
  then show ?thesis by simp
qed

lemma cf_sub_int: "x86_cf_sub n a b c \<longleftrightarrow> int (low n a) < int (low n b) + of_bool c"
proof -
  have "x86_cf_sub n a b c \<longleftrightarrow> int (low n a) < int (low n b + of_bool c)"
    unfolding x86_cf_sub_def by (rule of_nat_less_iff [symmetric])
  then show ?thesis by simp
qed

lemma low_less_int: "n \<le> 64 \<Longrightarrow> int (low n x) < 2 ^ n"
  by (metis low_less of_nat_less_iff of_nat_numeral of_nat_power)

lemma carry_chain:
  assumes "k < 64" "r = a + b + of_bool c"
  shows "(bit a k \<and> bit b k) \<or> (\<not> bit r k \<and> (bit a k \<or> bit b k)) \<longleftrightarrow> x86_cf_add (Suc k) a b c"
proof -
  define P :: nat where "P = 2 ^ k"
  have P: "0 < P" by (simp add: P_def)
  define A B R where "A = low k a" and "B = low k b" and "R = low k r"
  have bounds: "A < P" "B < P" "R < P"
    unfolding A_def B_def R_def P_def using assms(1) by (simp_all add: low_less)
  have split: "low (Suc k) x = low k x + (if bit x k then P else 0)" for x
    using assms(1) by (simp add: low_Suc P_def)
  have two: "2 ^ Suc k = 2 * P" by (simp add: P_def)
  define S where "S = low (Suc k) a + low (Suc k) b + of_bool c"
  have "S < 2 * (2 * P)"
    using bounds by (cases c) (simp_all add: S_def split flip: A_def B_def)
  then have r: "low (Suc k) r = (if S < 2 * P then S else S - 2 * P)"
    using low_add [of "Suc k" a b c] assms unfolding S_def two by (simp add: mod_wrap_nat)
  show ?thesis
    unfolding x86_cf_add_def two using r bounds P
    unfolding split S_def [unfolded split] A_def [symmetric] B_def [symmetric] R_def [symmetric]
    by (cases "bit a k"; cases "bit b k"; cases "bit r k"; cases c; simp split: if_splits)
qed

lemma borrow_chain:
  assumes "k < 64" "r = a - b - of_bool c"
  shows "(\<not> bit a k \<and> bit b k) \<or> (bit r k \<and> (\<not> bit a k \<or> bit b k)) \<longleftrightarrow> x86_cf_sub (Suc k) a b c"
proof -
  define P :: int where "P = 2 ^ k"
  have P: "0 < P" by (simp add: P_def)
  define A B R where "A = int (low k a)" and "B = int (low k b)" and "R = int (low k r)"
  have "int (low k x) < P" for x
    using low_less_int [of k x] assms(1) by (simp add: P_def)
  then have bounds: "A < P" "B < P" "R < P" "0 \<le> A" "0 \<le> B" "0 \<le> R"
    by (simp_all add: A_def B_def R_def)
  have split: "int (low (Suc k) x) = int (low k x) + (if bit x k then P else 0)" for x
    using assms(1) by (simp add: low_Suc P_def)
  have two: "2 ^ Suc k = 2 * P" by (simp add: P_def)
  define D where "D = int (low (Suc k) a) - int (low (Suc k) b) - of_bool c"
  have "- (2 * P) \<le> D" "D < 2 * P"
    unfolding D_def split using bounds by (cases c; simp flip: A_def B_def)+
  then have r: "int (low (Suc k) r) = (if D < 0 then D + 2 * P else D)"
    using low_sub [of "Suc k" a b c] assms unfolding D_def two by (simp add: mod_wrap_int)
  show ?thesis
    using r bounds P
    unfolding cf_sub_int split D_def [unfolded split] A_def [symmetric] B_def [symmetric] R_def [symmetric]
    by (cases "bit a k"; cases "bit b k"; cases "bit r k"; cases c; simp split: if_splits)
qed

text \<open>Signed overflow is a difference between the carries (borrows) into and out of the sign
  position.\<close>

lemma overflow_add:
  assumes "Suc (Suc k) \<le> 64"
  shows "x86_of_add (Suc (Suc k)) a b c \<longleftrightarrow> x86_cf_add (Suc (Suc k)) a b c \<noteq> x86_cf_add (Suc k) a b c"
proof -
  define P :: int where "P = 2 ^ Suc k"
  define A B where "A = int (low (Suc k) a)" and "B = int (low (Suc k) b)"
  have "int (low (Suc k) x) < P" for x
    using low_less_int [of "Suc k" x] assms by (simp add: P_def)
  then have bounds: "A < P" "B < P" "0 \<le> A" "0 \<le> B"
    by (simp_all add: A_def B_def)
  have split: "int (low (Suc (Suc k)) x) = int (low (Suc k) x) + (if bit x (Suc k) then P else 0)" for x
    using assms by (simp add: low_Suc [of "Suc k"] P_def)
  have two: "2 ^ Suc (Suc k) = 2 * P" by (simp add: P_def)
  have sl: "slow (Suc (Suc k)) x = int (low (Suc k) x) - (if bit x (Suc k) then P else 0)" for x
    by (simp add: slow_def split two del: power_Suc)
  show ?thesis
    unfolding x86_of_add_def in_signed_def cf_add_int sl two split diff_Suc_1 P_def [symmetric]
      A_def [symmetric] B_def [symmetric]
    using bounds by (cases "bit a (Suc k)"; cases "bit b (Suc k)"; cases c; auto)
qed

lemma overflow_sub:
  assumes "Suc (Suc k) \<le> 64"
  shows "x86_of_sub (Suc (Suc k)) a b c \<longleftrightarrow> x86_cf_sub (Suc (Suc k)) a b c \<noteq> x86_cf_sub (Suc k) a b c"
proof -
  define P :: int where "P = 2 ^ Suc k"
  define A B where "A = int (low (Suc k) a)" and "B = int (low (Suc k) b)"
  have "int (low (Suc k) x) < P" for x
    using low_less_int [of "Suc k" x] assms by (simp add: P_def)
  then have bounds: "A < P" "B < P" "0 \<le> A" "0 \<le> B"
    by (simp_all add: A_def B_def)
  have split: "int (low (Suc (Suc k)) x) = int (low (Suc k) x) + (if bit x (Suc k) then P else 0)" for x
    using assms by (simp add: low_Suc [of "Suc k"] P_def)
  have two: "2 ^ Suc (Suc k) = 2 * P" by (simp add: P_def)
  have sl: "slow (Suc (Suc k)) x = int (low (Suc k) x) - (if bit x (Suc k) then P else 0)" for x
    by (simp add: slow_def split two del: power_Suc)
  show ?thesis
    unfolding x86_of_sub_def in_signed_def cf_sub_int sl two split diff_Suc_1 P_def [symmetric]
      A_def [symmetric] B_def [symmetric]
    using bounds by (cases "bit a (Suc k)"; cases "bit b (Suc k)"; cases c; auto)
qed

section \<open>What the emitted formulas compute\<close>

lemma and_1_bit: "(x :: u64) AND 1 = of_bool (bit x 0)"
  by (simp add: and_one_eq mod_2_eq_odd bit_0)

lemma low_carry: "n \<le> 64 \<Longrightarrow> low n (a + b) < low n a \<longleftrightarrow> x86_cf_add n a b False"
  using low_add [of n a b False] low_less [of n a] low_less [of n b]
  by (auto simp: x86_cf_add_def mod_wrap_nat split: if_splits)

lemma low_carry_in:
  assumes "n \<le> 64" "0 < n"
  shows "low n (a + b) < low n a \<or> low n (a + b + of_bool c) < of_bool c \<longleftrightarrow> x86_cf_add n a b c"
proof -
  have "1 < (2 :: nat) ^ n" using assms(2) by (rule one_less_power [rotated]) simp
  then show ?thesis
    using low_add [OF assms(1), of a b False] low_add [OF assms(1), of a b c]
      low_less [OF assms(1), of a] low_less [OF assms(1), of b] mod_wrap_nat [of "low n a + low n b" "2 ^ n"]
      mod_wrap_nat [of "low n a + low n b + 1" "2 ^ n"]
    by (cases c) (auto simp: x86_cf_add_def)
qed

lemma low_borrow_in:
  assumes "n \<le> 64"
  shows "low n a < low n b \<or> low n (a - b) < of_bool c \<longleftrightarrow> x86_cf_sub n a b c"
proof (cases "low n a < low n b")
  case True
  then show ?thesis by (simp add: x86_cf_sub_def)
next
  case False
  have "int (low n (a - b)) = int (low n a) - int (low n b)"
    using low_sub [OF assms, of a b False] False low_less_int [OF assms, of a] low_less_int [OF assms, of b]
    by (simp add: mod_wrap_int)
  then show ?thesis using False by (cases c) (auto simp: x86_cf_sub_def)
qed

lemma overflow_add_bits:
  assumes n: "2 \<le> n" "n \<le> 64" and r: "r = a + b + of_bool c"
    and w: "w = (NOT r AND (a OR b)) OR (a AND b)"
  shows "(drop_bit (n - 1) w XOR drop_bit (n - 2) w) AND 1 = of_bool (x86_of_add n a b c)"
proof -
  define k where "k = n - 2"
  then have k: "n = Suc (Suc k)" using n(1) by simp
  have "bit w i \<longleftrightarrow> x86_cf_add (Suc i) a b c" if "i < 64" for i
    using carry_chain [OF that r]
    by (simp only: w bit_or_iff bit_and_iff bit_not_iff_eq) (use that in auto)
  then show ?thesis
    using n k by (simp only: and_1_bit bit_xor_iff bit_drop_bit_eq comp_def overflow_add) simp
qed

lemma overflow_sub_bits:
  assumes n: "2 \<le> n" "n \<le> 64" and r: "take_bit n r = take_bit n (a - b - of_bool c)"
    and w: "w = ((NOT a OR b) AND r) OR (NOT a AND b)"
  shows "(drop_bit (n - 1) w XOR drop_bit (n - 2) w) AND 1 = of_bool (x86_of_sub n a b c)"
proof -
  define k where "k = n - 2"
  then have k: "n = Suc (Suc k)" using n(1) by simp
  have "bit r i \<longleftrightarrow> bit (a - b - of_bool c) i" if "i < n" for i
    using r that by (metis bit_take_bit_iff)
  then have "bit w i \<longleftrightarrow> x86_cf_sub (Suc i) a b c" if "i < n" for i
    using borrow_chain [of i, OF _ refl, of a b c] that n(2)
    by (simp only: w bit_or_iff bit_and_iff bit_not_iff_eq) (use that in auto)
  then show ?thesis
    using n k by (simp only: and_1_bit bit_xor_iff bit_drop_bit_eq comp_def overflow_sub) simp
qed

lemma sign_bits: "n \<le> 64 \<Longrightarrow> drop_bit (n - 1) r AND 1 = of_bool (x86_sf n r)" for r :: u64
  by (simp add: and_1_bit bit_simps x86_sf_def)

lemma parity_xor_bits:
  fixes x :: u64
  assumes y: "y = drop_bit 4 x XOR x" and z: "z = y XOR drop_bit 2 y"
  shows "((drop_bit 1 z XOR z) AND 1) XOR 1 = of_bool (x86_pf x)"
proof -
  have yb: "bit y i \<longleftrightarrow> bit x (4 + i) \<noteq> bit x i" for i
    by (simp add: y bit_xor_iff bit_drop_bit_eq)
  have zb: "bit z i \<longleftrightarrow> (bit x (4 + i) \<noteq> bit x i) \<noteq> (bit x (6 + i) \<noteq> bit x (2 + i))" for i
    by (simp add: z bit_xor_iff bit_drop_bit_eq yb)
  have "[0..<8] = [0, 1, 2, 3, 4, 5, 6, 7 :: nat]" by (simp add: upt_rec)
  then have "x86_pf x \<longleftrightarrow> \<not> (bit z 1 \<noteq> bit z 0)"
    unfolding x86_pf_def zb by simp
  then show ?thesis
    by (simp add: and_1_bit bit_xor_iff bit_drop_bit_eq del: bit_0)
qed

lemma parity_cpop_bits:
  "(of_nat (length (filter (bit (x AND 0xFF)) [0..<32])) AND 1) XOR 1 = (of_bool (x86_pf x) :: u64)"
  for x :: u64
proof -
  have "x AND 0xFF = take_bit 8 x" by (simp add: take_bit_eq_mask mask_eq_exp_minus_1)
  then have b: "bit (x AND 0xFF) i \<longleftrightarrow> bit x i \<and> i < 8" for i
    by (auto simp: bit_take_bit_iff)
  have "[0..<32] = [0..<8] @ [8..<32 :: nat]" by (simp add: upt_rec)
  then have "filter (bit (x AND 0xFF)) [0..<32] = filter (bit x) [0..<8]"
    by (simp only: filter_append) (auto intro!: filter_cong simp: filter_empty_conv b)
  then show ?thesis
    by (simp add: and_1_bit bit_0 x86_pf_def)
qed


end
