(* ===== verification/EmitterSpec.thy ===== *)
theory EmitterSpec
  imports Emitter X86Alu
begin

text \<open>
  What the code generator's helpers emit: each lemma says that a helper succeeds while
  enough scratch registers are left, gives its scratch registers back, and that running the
  emitted code has the architectural effect and changes nothing else but free scratch
  registers.
\<close>

section \<open>The judgement\<close>

text \<open>\<open>gen f e P\<close>: operation \<open>f\<close> succeeds on emitter \<open>e\<close>, only appends straight-line code, and
  \<open>P\<close> relates the machine states before and after that code.\<close>

definition gen :: "(emitter \<Rightarrow> emitter option) \<Rightarrow> emitter \<Rightarrow> (machine \<Rightarrow> machine \<Rightarrow> bool) \<Rightarrow> bool" where
  "gen f e P \<longleftrightarrow> (\<exists>c. f e = Some (emits c e) \<and> list_all straight c \<and> (\<forall>m. P m (exec c m)))"

definition free :: "emitter \<Rightarrow> reg set" where
  "free e = set (drop (scratch_index e) scratch_gprs)"

definition keeps :: "reg set \<Rightarrow> machine \<Rightarrow> machine \<Rightarrow> bool" where
  "keeps S m m' \<longleftrightarrow> (\<forall>r. r \<notin> S \<longrightarrow> rget m' r = rget m r)"

lemma genI:
  "f e = Some (emits c e) \<Longrightarrow> list_all straight c \<Longrightarrow> (\<And>m. P m (exec c m)) \<Longrightarrow> gen f e P"
  by (auto simp: gen_def)

lemma emits_Nil [simp]: "emits [] e = e"
  by (simp add: emits_def)

lemma emits_emits [simp]: "emits d (emits c e) = emits (c @ d) e"
  by (simp add: emits_def)

lemma emits_fields [simp]:
  "scratch_index (emits c e) = scratch_index e"
  "cached_lea (emits c e) = cached_lea e"
  "cached_lea_operand (emits c e) = cached_lea_operand e"
  "code (emits c e) = code e @ c"
  "free (emits c e) = free e"
  by (simp_all add: emits_def free_def)

lemma emits_index: "emits c (e\<lparr>scratch_index := i\<rparr>) = (emits c e)\<lparr>scratch_index := i\<rparr>"
  by (simp add: emits_def)

lemma gen_bind:
  assumes "gen f e P" and "\<And>c. gen g (emits c e) Q"
  shows "gen (\<lambda>e. f e \<bind> g) e (\<lambda>m m''. \<exists>m'. P m m' \<and> Q m' m'')"
proof -
  obtain c where c: "f e = Some (emits c e)" "list_all straight c" "\<And>m. P m (exec c m)"
    using assms(1) by (auto simp: gen_def)
  obtain d where d: "g (emits c e) = Some (emits d (emits c e))" "list_all straight d" "\<And>m. Q m (exec d m)"
    using assms(2) [of c] by (auto simp: gen_def)
  show ?thesis
    using c d by (intro genI [where c = "c @ d"]) (auto simp: exec_append)
qed

lemma gen_if:
  "(b \<Longrightarrow> gen f e P) \<Longrightarrow> gen (\<lambda>e. if b then f e else Some e) e (\<lambda>m m'. if b then P m m' else m' = m)"
  by (cases b) (auto simp: exec_Nil intro!: genI [where c = "[]"])

lemma gen_mono: "gen f e P \<Longrightarrow> (\<And>m m'. P m m' \<Longrightarrow> Q m m') \<Longrightarrow> gen f e Q"
  by (auto simp: gen_def)

lemma gen_emits: "list_all straight c \<Longrightarrow> gen (\<lambda>e. Some (emits c e)) e (\<lambda>m m'. m' = exec c m)"
  by (auto intro!: genI)

section \<open>Scratch registers\<close>

lemma length_alloc [simp]: "length scratch_gprs = 7" "length gpr_alloc = 16"
  by (simp_all add: scratch_gprs_def gpr_alloc_def)

lemma scratch_gprs_less: "i < 7 \<Longrightarrow> scratch_gprs ! i \<in> {1, 6, 28, 29, 7, 30, 31}"
  by (auto simp: scratch_gprs_def less_Suc_eq numeral_eq_Suc)

lemma scratch_next [simp]:
  "scratch_index e < 7 \<Longrightarrow> scratch e = Some (scratch_gprs ! scratch_index e, e\<lparr>scratch_index := Suc (scratch_index e)\<rparr>)"
  by (simp add: scratch_def scratch_gprs_def)

lemma popScratch_Suc [simp]:
  "scratch_index e = Suc i \<Longrightarrow> popScratch e = Some (e\<lparr>scratch_index := i\<rparr>)"
  by (simp add: popScratch_def)

lemma scratch_in_free: "scratch_index e < 7 \<Longrightarrow> scratch_gprs ! scratch_index e \<in> free e"
  by (auto simp: free_def scratch_gprs_def in_set_conv_nth intro!: exI [of _ 0])

lemma scratch2_in_free: "Suc (scratch_index e) < 7 \<Longrightarrow> scratch_gprs ! Suc (scratch_index e) \<in> free e"
  by (auto simp: free_def scratch_gprs_def in_set_conv_nth intro!: exI [of _ 1])

lemma scratch_distinct: "i < 7 \<Longrightarrow> j < 7 \<Longrightarrow> scratch_gprs ! i = scratch_gprs ! j \<longleftrightarrow> i = j"
  by (subst nth_eq_iff_index_eq) (auto simp: scratch_gprs_def)

lemma scratch_not_special:
  "i < 7 \<Longrightarrow> scratch_gprs ! i \<notin> {0, 3, 5, 8, 9, 10, 11, 12, 13, 14, 15, 16, 17, 18, 19, 20, 21, 22, 23, 24, 25, 26, 27}"
  using scratch_gprs_less [of i] by auto

lemma free_special: "r \<in> free e \<Longrightarrow> r \<in> {1, 6, 28, 29, 7, 30, 31}"
  using set_drop_subset [of "scratch_index e" scratch_gprs] by (auto simp: free_def scratch_gprs_def)

section \<open>Machine updates\<close>

lemma rset_rset [simp]: "rset r v (rset r w m) = rset r v m"
  by (simp add: rset_def)

lemma rset_same [simp]: "rset r (rget m r) m = m"
  by (simp add: rset_def rget_def)

lemma store_1: "store 1 a v mm = mm(a := ucast v)"
  by (simp add: numeral_eq_Suc)

lemma ucast_of_bool [simp]: "(ucast (of_bool b :: u64) :: u8) = of_bool b"
  by (cases b) simp_all

lemma keeps_refl [simp]: "keeps S m m"
  by (simp add: keeps_def)

lemma keeps_trans: "keeps S m m' \<Longrightarrow> keeps T m' m'' \<Longrightarrow> keeps (S \<union> T) m m''"
  by (simp add: keeps_def)

lemma keeps_mono: "keeps S m m' \<Longrightarrow> S \<subseteq> T \<Longrightarrow> keeps T m m'"
  by (auto simp: keeps_def)

lemma keeps_rset: "r \<in> S \<Longrightarrow> keeps S m m' \<Longrightarrow> keeps S m (rset r v m')"
  by (auto simp: keeps_def)

lemma keeps_mem [simp]: "keeps S m (m'\<lparr>mem := x\<rparr>) \<longleftrightarrow> keeps S m m'"
  by (simp add: keeps_def)

section \<open>Operand sizes\<close>

fun bits :: "x86_size \<Rightarrow> nat" where
  "bits X86_SIZE_BYTE = 8"
| "bits X86_SIZE_BYTE_HIGH = 8"
| "bits X86_SIZE_WORD = 16"
| "bits X86_SIZE_DWORD = 32"
| "bits _ = 64"

fun gp_size :: "x86_size \<Rightarrow> bool" where
  "gp_size X86_SIZE_XMM = False"
| "gp_size X86_SIZE_YMM = False"
| "gp_size X86_SIZE_ST = False"
| "gp_size _ = True"

lemma getBitSize_gp: "gp_size sz \<Longrightarrow> getBitSize sz = Some (bits sz)"
  by (cases sz) simp_all

lemma bits_bounds: "8 \<le> bits sz" "bits sz \<le> 64"
  by (cases sz; simp)+

lemma bits_Suc: "bits sz = Suc (Suc (bits sz - 2))" "bits sz - 1 = Suc (bits sz - 2)"
  using bits_bounds [of sz] by simp_all

lemma drop_push_u64: "n \<le> 64 \<Longrightarrow> drop_bit n (push_bit n (x :: u64)) = take_bit (64 - n) x"
  by (rule bit_word_eqI) (auto simp: bit_simps)

lemma and_255: "(x :: u64) AND 0xFF = take_bit 8 x"
  by (simp add: take_bit_eq_mask mask_eq_exp_minus_1)

lemma and_15: "(x :: u64) AND 0xF = take_bit 4 x"
  by (simp add: take_bit_eq_mask mask_eq_exp_minus_1)

section \<open>Extensions\<close>

lemma take_bit_64 [simp]: "take_bit 64 (x :: u64) = x"
  by (simp add: take_bit_word_eq_self)

fun zext_code :: "env \<Rightarrow> reg \<Rightarrow> reg \<Rightarrow> x86_size \<Rightarrow> rv list" where
  "zext_code V d s X86_SIZE_WORD =
     (if ext_B V then [Rm uZEXTH d s] else [Sh sSLLI d s 48, Sh sSRLI d d 48])"
| "zext_code V d s X86_SIZE_DWORD =
     (if ext_B V then [Rm uZEXTW d s] else [Sh sSLLI d s 32, Sh sSRLI d d 32])"
| "zext_code V d s X86_SIZE_QWORD = (if d \<noteq> s then [Rm uMV d s] else [])"
| "zext_code V d s _ = [Ri iANDI d s 0xff]"

lemma zext_eq: "gp_size sz \<Longrightarrow> zext V d s sz e = Some (emits (zext_code V d s sz) e)"
  by (cases sz) simp_all

lemma zext_straight [simp]: "list_all straight (zext_code V d s sz)"
  by (cases sz) simp_all

lemma zext_exec:
  "gp_size sz \<Longrightarrow> d \<noteq> 0 \<Longrightarrow> exec (zext_code V d s sz) m = rset d (take_bit (bits sz) (rget m s)) m"
  by (cases sz) (simp_all add: exec_simps and_255 drop_push_u64)

section \<open>Flags\<close>

text \<open>A helper for a flag in register \<open>f\<close>: it sets the register and otherwise changes free
  scratch registers only.\<close>

definition sets_reg :: "emitter \<Rightarrow> reg \<Rightarrow> u64 \<Rightarrow> machine \<Rightarrow> machine \<Rightarrow> bool" where
  "sets_reg e f v m m' \<longleftrightarrow> rget m' f = v \<and> mem m' = mem m \<and> keeps (insert f (free e)) m m'"

text \<open>A helper for PF or AF, which live in the thread state in memory.\<close>

definition sets_byte :: "emitter \<Rightarrow> u64 \<Rightarrow> bool \<Rightarrow> machine \<Rightarrow> machine \<Rightarrow> bool" where
  "sets_byte e off v m m' \<longleftrightarrow>
     mem m' = (mem m)(rget m threadStatePointer + off := of_bool v) \<and> keeps (free e) m m'"

lemma flag_regs [simp]:
  "flag X86_REF_CF e = Some (21, e)"
  "flag X86_REF_ZF e = Some (23, e)"
  "flag X86_REF_SF e = Some (24, e)"
  "flag X86_REF_OF e = Some (25, e)"
  by (simp_all add: flag_def allocatedGPR_def)

lemma updateOverflowAdd_gen:
  assumes i: "scratch_index e < 7" and gp: "gp_size sz"
    and regs: "lhs \<notin> insert 25 (free e)" "rhs \<notin> insert 25 (free e)" "result \<notin> insert 25 (free e)"
  shows "gen (updateOverflowAdd lhs rhs result sz) e (\<lambda>m m'. \<forall>c.
     rget m result = rget m lhs + rget m rhs + of_bool c \<longrightarrow>
     sets_reg e 25 (of_bool (x86_of_add (bits sz) (rget m lhs) (rget m rhs) c)) m m')"
proof -
  define t where "t = scratch_gprs ! scratch_index e"
  have t: "t \<in> free e" "t \<noteq> 0" "t \<noteq> 25"
    using scratch_in_free [OF i] scratch_not_special [OF i] by (simp_all add: t_def)
  then have n: "lhs \<noteq> t" "rhs \<noteq> t" "result \<noteq> t" "lhs \<noteq> 25" "rhs \<noteq> 25" "result \<noteq> 25"
    using regs by auto
  let ?c = "[Rr rOR 25 lhs rhs, Rm uNOT t result, Rr rAND 25 t 25, Rr rAND t lhs rhs, Rr rOR 25 25 t,
    Sh sSRLI t 25 (bits sz - 2), Sh sSRLI 25 25 (bits sz - 1), Rr rXOR 25 25 t, Ri iANDI 25 25 1]"
  have "rget (exec ?c m) 25 = of_bool (x86_of_add (bits sz) (rget m lhs) (rget m rhs) c)"
    if "rget m result = rget m lhs + rget m rhs + of_bool c" for m c
    using overflow_add_bits [OF _ bits_bounds(2) that refl] bits_bounds(1) [of sz] t n
    by (simp add: exec_simps del: drop_bit_and drop_bit_or drop_bit_xor)
  moreover have "mem (exec ?c m) = mem m" "keeps (insert 25 (free e)) m (exec ?c m)" for m
    using t by (simp_all add: exec_simps keeps_rset)
  ultimately show ?thesis
    using i gp by (intro genI [where c = ?c])
      (simp_all add: updateOverflowAdd_def getBitSize_gp emits_index sets_reg_def flip: t_def)
qed

lemma updateOverflowSub_low_gen:
  assumes i: "scratch_index e < 7" and gp: "gp_size sz"
    and regs: "lhs \<notin> insert 25 (free e)" "rhs \<notin> insert 25 (free e)" "result \<notin> insert 25 (free e)"
  shows "gen (updateOverflowSub lhs rhs result sz) e (\<lambda>m m'. \<forall>c.
     take_bit (bits sz) (rget m result) = take_bit (bits sz) (rget m lhs - rget m rhs - of_bool c) \<longrightarrow>
     sets_reg e 25 (of_bool (x86_of_sub (bits sz) (rget m lhs) (rget m rhs) c)) m m')"
proof -
  define t where "t = scratch_gprs ! scratch_index e"
  have t: "t \<in> free e" "t \<noteq> 0" "t \<noteq> 25"
    using scratch_in_free [OF i] scratch_not_special [OF i] by (simp_all add: t_def)
  then have n: "lhs \<noteq> t" "rhs \<noteq> t" "result \<noteq> t" "lhs \<noteq> 25" "rhs \<noteq> 25" "result \<noteq> 25"
    using regs by auto
  let ?c = "[Rm uNOT t lhs, Rr rOR 25 t rhs, Rr rAND 25 25 result, Rr rAND t t rhs, Rr rOR 25 25 t,
    Sh sSRLI t 25 (bits sz - 2), Sh sSRLI 25 25 (bits sz - 1), Rr rXOR 25 25 t, Ri iANDI 25 25 1]"
  have "rget (exec ?c m) 25 = of_bool (x86_of_sub (bits sz) (rget m lhs) (rget m rhs) c)"
    if "take_bit (bits sz) (rget m result) = take_bit (bits sz) (rget m lhs - rget m rhs - of_bool c)" for m c
    using overflow_sub_bits [OF _ bits_bounds(2) that refl] bits_bounds(1) [of sz] t n
    by (simp add: exec_simps del: drop_bit_and drop_bit_or drop_bit_xor)
  moreover have "mem (exec ?c m) = mem m" "keeps (insert 25 (free e)) m (exec ?c m)" for m
    using t by (simp_all add: exec_simps keeps_rset)
  ultimately show ?thesis
    using i gp by (intro genI [where c = ?c])
      (simp_all add: updateOverflowSub_def getBitSize_gp emits_index sets_reg_def flip: t_def)
qed

lemma updateOverflowSub_gen:
  assumes i: "scratch_index e < 7" and gp: "gp_size sz"
    and regs: "lhs \<notin> insert 25 (free e)" "rhs \<notin> insert 25 (free e)" "result \<notin> insert 25 (free e)"
  shows "gen (updateOverflowSub lhs rhs result sz) e (\<lambda>m m'. \<forall>c.
     rget m result = rget m lhs - rget m rhs - of_bool c \<longrightarrow>
     sets_reg e 25 (of_bool (x86_of_sub (bits sz) (rget m lhs) (rget m rhs) c)) m m')"
  by (rule gen_mono [OF updateOverflowSub_low_gen [OF assms]]) simp

lemma two_scratch:
  assumes "Suc (scratch_index e) < 7"
  obtains a t where "scratch_gprs ! scratch_index e = a" "scratch_gprs ! Suc (scratch_index e) = t"
    "a \<in> free e" "t \<in> free e" "a \<noteq> t" "a \<noteq> 0" "t \<noteq> 0" "a \<noteq> 21" "t \<noteq> 21" "a \<noteq> 27" "t \<noteq> 27"
  using assms scratch_in_free [of e] scratch2_in_free [of e] scratch_not_special [of "scratch_index e"]
    scratch_not_special [of "Suc (scratch_index e)"] scratch_distinct [of "scratch_index e" "Suc (scratch_index e)"]
  by force

lemma take_bit_less_iff: "take_bit n (a :: u64) < take_bit n b \<longleftrightarrow> low n a < low n b"
  by (simp add: low_def word_less_nat_alt)

lemma updateAuxiliaryAdd_gen:
  assumes i: "Suc (scratch_index e) < 7" and regs: "lhs \<notin> free e" "result \<notin> free e"
  shows "gen (updateAuxiliaryAdd lhs result) e (\<lambda>m m'. \<forall>b. rget m result = rget m lhs + b \<longrightarrow>
     sets_byte e off_af (x86_af_add (rget m lhs) b False) m m')"
proof -
  obtain a t where *: "scratch_gprs ! scratch_index e = a" "scratch_gprs ! Suc (scratch_index e) = t"
    "a \<in> free e" "t \<in> free e" "a \<noteq> t" "a \<noteq> 0" "t \<noteq> 0" "a \<noteq> 27" "t \<noteq> 27"
    by (rule two_scratch [OF i])
  then have n: "lhs \<noteq> a" "lhs \<noteq> t" "result \<noteq> a" using regs by auto
  show ?thesis
    by (rule genI [where c = "[Ri iANDI a result 0xF, Ri iANDI t lhs 0xF, Rr rSLTU a a t, St 1 a off_af 27]"])
       (use i * n in \<open>auto simp: updateAuxiliaryAdd_def emits_index exec_simps sets_byte_def keeps_rset
          and_15 take_bit_less_iff low_carry x86_af_add_def store_1\<close>)
qed

lemma updateAuxiliarySub_gen:
  assumes i: "Suc (scratch_index e) < 7" and regs: "lhs \<notin> free e" "rhs \<notin> free e"
  shows "gen (updateAuxiliarySub lhs rhs) e (\<lambda>m m'.
     sets_byte e off_af (x86_af_sub (rget m lhs) (rget m rhs) False) m m')"
proof -
  obtain a t where *: "scratch_gprs ! scratch_index e = a" "scratch_gprs ! Suc (scratch_index e) = t"
    "a \<in> free e" "t \<in> free e" "a \<noteq> t" "a \<noteq> 0" "t \<noteq> 0" "a \<noteq> 27" "t \<noteq> 27"
    by (rule two_scratch [OF i])
  then have n: "lhs \<noteq> a" "lhs \<noteq> t" "rhs \<noteq> a" using regs by auto
  show ?thesis
    by (rule genI [where c = "[Ri iANDI a rhs 0xF, Ri iANDI t lhs 0xF, Rr rSLTU a t a, St 1 a off_af 27]"])
       (use i * n in \<open>auto simp: updateAuxiliarySub_def emits_index exec_simps sets_byte_def keeps_rset
          and_15 take_bit_less_iff x86_af_sub_def x86_cf_sub_def store_1\<close>)
qed

lemma low_bool: "take_bit n (x :: u64) < of_bool c \<longleftrightarrow> low n x < of_bool c"
  by (cases c) (simp_all add: low_def word_less_nat_alt)

lemma or_of_bool: "(of_bool p OR of_bool q :: u64) = of_bool (p \<or> q)"
  by (cases p; cases q) simp_all

lemma updateAuxiliaryAdc_gen:
  assumes i: "Suc (scratch_index e) < 7"
    and regs: "lhs \<notin> free e" "result \<notin> free e" "result_2 \<notin> free e" "cy \<notin> free e"
  shows "gen (updateAuxiliaryAdc lhs result cy result_2) e (\<lambda>m m'. \<forall>b c.
     rget m result = rget m lhs + b \<and> rget m cy = of_bool c \<and> rget m result_2 = rget m lhs + b + of_bool c \<longrightarrow>
     sets_byte e off_af (x86_af_add (rget m lhs) b c) m m')"
proof -
  obtain a t where *: "scratch_gprs ! scratch_index e = a" "scratch_gprs ! Suc (scratch_index e) = t"
    "a \<in> free e" "t \<in> free e" "a \<noteq> t" "a \<noteq> 0" "t \<noteq> 0" "a \<noteq> 27" "t \<noteq> 27"
    by (rule two_scratch [OF i])
  then have n: "lhs \<noteq> a" "lhs \<noteq> t" "result \<noteq> a" "result_2 \<noteq> a" "result_2 \<noteq> t" "cy \<noteq> a" "cy \<noteq> t"
    using regs by auto
  let ?c = "[Ri iANDI a result 0xF, Ri iANDI t lhs 0xF, Rr rSLTU a a t, Ri iANDI t result_2 0xF,
    Rr rSLTU t t cy, Rr rOR a a t, St 1 a off_af 27]"
  have "mem (exec ?c m) = (mem m)(rget m 27 + off_af := of_bool (x86_af_add (rget m lhs) b c))"
    if "rget m result = rget m lhs + b" "rget m cy = of_bool c" "rget m result_2 = rget m lhs + b + of_bool c" for m b c
    using that low_carry_in [of 4 "rget m lhs" b c] * n
    by (simp add: exec_simps and_15 take_bit_less_iff low_bool or_of_bool store_1 x86_af_add_def)
  moreover have "keeps (free e) m (exec ?c m)" for m
    using * by (simp add: exec_simps keeps_rset)
  ultimately show ?thesis
    using i * by (intro genI [where c = ?c]) (auto simp: updateAuxiliaryAdc_def emits_index sets_byte_def)
qed

lemma updateAuxiliarySbb_gen:
  assumes i: "Suc (scratch_index e) < 7"
    and regs: "lhs \<notin> free e" "rhs \<notin> free e" "result \<notin> free e" "cy \<notin> free e"
  shows "gen (updateAuxiliarySbb lhs rhs result cy) e (\<lambda>m m'. \<forall>c.
     rget m result = rget m lhs - rget m rhs \<and> rget m cy = of_bool c \<longrightarrow>
     sets_byte e off_af (x86_af_sub (rget m lhs) (rget m rhs) c) m m')"
proof -
  obtain a t where *: "scratch_gprs ! scratch_index e = a" "scratch_gprs ! Suc (scratch_index e) = t"
    "a \<in> free e" "t \<in> free e" "a \<noteq> t" "a \<noteq> 0" "t \<noteq> 0" "a \<noteq> 27" "t \<noteq> 27"
    by (rule two_scratch [OF i])
  then have n: "lhs \<noteq> a" "lhs \<noteq> t" "rhs \<noteq> a" "result \<noteq> a" "result \<noteq> t" "cy \<noteq> a" "cy \<noteq> t"
    using regs by auto
  let ?c = "[Ri iANDI a rhs 0xF, Ri iANDI t lhs 0xF, Rr rSLTU a t a, Ri iANDI t result 0xF,
    Rr rSLTU t t cy, Rr rOR a a t, St 1 a off_af 27]"
  have "mem (exec ?c m) = (mem m)(rget m 27 + off_af := of_bool (x86_af_sub (rget m lhs) (rget m rhs) c))"
    if "rget m result = rget m lhs - rget m rhs" "rget m cy = of_bool c" for m c
    using that low_borrow_in [of 4 "rget m lhs" "rget m rhs" c] * n
    by (simp add: exec_simps and_15 take_bit_less_iff low_bool or_of_bool store_1 x86_af_sub_def)
  moreover have "keeps (free e) m (exec ?c m)" for m
    using * by (simp add: exec_simps keeps_rset)
  ultimately show ?thesis
    using i * by (intro genI [where c = ?c]) (auto simp: updateAuxiliarySbb_def emits_index sets_byte_def)
qed

lemma updateCarryAdd_gen:
  assumes gp: "gp_size sz" and regs: "lhs \<noteq> 21"
  shows "gen (updateCarryAdd V lhs result sz) e (\<lambda>m m'. \<forall>b.
     rget m result = rget m lhs + b \<and> take_bit (bits sz) (rget m lhs) = rget m lhs \<longrightarrow>
     sets_reg e 21 (of_bool (x86_cf_add (bits sz) (rget m lhs) b False)) m m')"
proof -
  let ?c = "zext_code V 21 result sz @ [Rr rSLTU 21 21 lhs]"
  have "rget (exec ?c m) 21 = of_bool (x86_cf_add (bits sz) (rget m lhs) b False)"
    if "rget m result = rget m lhs + b" "take_bit (bits sz) (rget m lhs) = rget m lhs" for m b
    using low_carry [OF bits_bounds(2), of sz "rget m lhs" b] that(1) regs
      take_bit_less_iff [of "bits sz" "rget m lhs + b" "rget m lhs", unfolded that(2)]
    by (simp add: exec_simps zext_exec [OF gp])
  moreover have "mem (exec ?c m) = mem m" "keeps (insert 21 (free e)) m (exec ?c m)" for m
    by (simp_all add: exec_simps zext_exec [OF gp] keeps_rset)
  ultimately show ?thesis
    by (intro genI [where c = ?c]) (simp_all add: updateCarryAdd_def zext_eq [OF gp] sets_reg_def)
qed

lemma updateCarrySub_gen:
  "gen (updateCarrySub lhs rhs) e (\<lambda>m m'. sets_reg e 21 (of_bool (rget m lhs < rget m rhs)) m m')"
  by (intro genI [where c = "[Rr rSLTU 21 lhs rhs]"])
     (simp_all add: updateCarrySub_def exec_simps sets_reg_def keeps_rset)

lemma updateCarryAdc_gen:
  assumes i: "Suc (scratch_index e) < 7" and gp: "gp_size sz"
    and regs: "lhs \<notin> insert 21 (free e)" "result \<notin> free e" "result_2 \<notin> free e"
  shows "gen (updateCarryAdc V lhs result result_2 sz) e (\<lambda>m m'. \<forall>b c.
     rget m result = rget m lhs + b \<and> rget m 21 = of_bool c \<and> rget m result_2 = rget m lhs + b + of_bool c
       \<and> take_bit (bits sz) (rget m lhs) = rget m lhs \<longrightarrow>
     sets_reg e 21 (of_bool (x86_cf_add (bits sz) (rget m lhs) b c)) m m')"
proof -
  obtain t u where *: "scratch_gprs ! scratch_index e = t" "scratch_gprs ! Suc (scratch_index e) = u"
    "t \<in> free e" "u \<in> free e" "t \<noteq> u" "t \<noteq> 0" "u \<noteq> 0" "t \<noteq> 21" "u \<noteq> 21"
    by (rule two_scratch [OF i])
  then have n: "lhs \<noteq> t" "lhs \<noteq> u" "lhs \<noteq> 21" "result_2 \<noteq> t"
    using regs by auto
  let ?c = "zext_code V t result sz @ zext_code V u result_2 sz @ [Rr rSLTU t t lhs, Rr rSLTU u u 21, Rr rOR 21 t u]"
  have "rget (exec ?c m) 21 = of_bool (x86_cf_add (bits sz) (rget m lhs) b c)"
    if "rget m result = rget m lhs + b" "rget m 21 = of_bool c" "rget m result_2 = rget m lhs + b + of_bool c"
      and z: "take_bit (bits sz) (rget m lhs) = rget m lhs" for m b c
    using low_carry_in [OF bits_bounds(2), of sz "rget m lhs" b c] bits_bounds(1) [of sz] that(1-3) * n
      take_bit_less_iff [of "bits sz" "rget m lhs + b" "rget m lhs", unfolded z]
    by (simp add: exec_simps zext_exec [OF gp] or_of_bool low_bool)
  moreover have "mem (exec ?c m) = mem m" "keeps (insert 21 (free e)) m (exec ?c m)" for m
    using * by (simp_all add: exec_simps zext_exec [OF gp] keeps_rset)
  ultimately show ?thesis
    using i * by (intro genI [where c = ?c])
      (simp_all add: updateCarryAdc_def zext_eq [OF gp] emits_index sets_reg_def)
qed

lemma updateZero_gen:
  assumes gp: "gp_size sz"
  shows "gen (updateZero V result sz) e (\<lambda>m m'.
     sets_reg e 23 (of_bool (x86_zf (bits sz) (rget m result))) m m')"
  by (intro genI [where c = "zext_code V 23 result sz @ [Rm uSEQZ 23 23]"])
     (simp_all add: updateZero_def zext_eq [OF gp] exec_simps zext_exec [OF gp] sets_reg_def keeps_rset x86_zf_def)

lemma updateSign_gen:
  assumes gp: "gp_size sz"
  shows "gen (updateSign result sz) e (\<lambda>m m'.
     sets_reg e 24 (of_bool (x86_sf (bits sz) (rget m result))) m m')"
  using sign_bits [OF bits_bounds(2), of sz]
  by (intro genI [where c = "[Sh sSRLI 24 result (bits sz - 1), Ri iANDI 24 24 1]"])
     (simp_all add: updateSign_def getBitSize_gp [OF gp] exec_simps sets_reg_def keeps_rset)

lemma updateParity_gen:
  assumes i: "Suc (scratch_index e) < 7" and regs: "result \<notin> free e"
  shows "gen (updateParity V result) e (\<lambda>m m'. sets_byte e off_pf (x86_pf (rget m result)) m m')"
proof -
  obtain p t where *: "scratch_gprs ! scratch_index e = p" "scratch_gprs ! Suc (scratch_index e) = t"
    "p \<in> free e" "t \<in> free e" "p \<noteq> t" "p \<noteq> 0" "t \<noteq> 0" "p \<noteq> 27" "t \<noteq> 27"
    by (rule two_scratch [OF i])
  then have n: "result \<noteq> p" "result \<noteq> t" using regs by auto
  let ?b = "[Ri iANDI p result 0xFF, Rm uCPOPW p p]"
  let ?x = "[Sh sSRLI p result 4, Rr rXOR p p result, Sh sSRLI t p 2, Rr rXOR t p t, Sh sSRLI p t 1, Rr rXOR p p t]"
  let ?c = "(if ext_B V then ?b else ?x) @ [Ri iANDI p p 1, Ri iXORI p p 1, St 1 p off_pf 27]"
  have "mem (exec ?c m) = (mem m)(rget m 27 + off_pf := of_bool (x86_pf (rget m result)))" for m
    using parity_cpop_bits [of "rget m result"] parity_xor_bits [OF refl refl, of "rget m result"] * n
    by (simp add: exec_simps store_1 del: drop_bit_xor drop_bit_drop_bit)
  moreover have "keeps (free e) m (exec ?c m)" for m
    using * by (simp add: exec_simps keeps_rset)
  ultimately show ?thesis
    using i * by (intro genI [where c = ?c])
      (auto simp: updateParity_def emits_index sets_byte_def)
qed

lemma clearFlag_gen:
  "gen (clearFlag X86_REF_CF) e (\<lambda>m m'. sets_reg e 21 0 m m')"
  "gen (clearFlag X86_REF_OF) e (\<lambda>m m'. sets_reg e 25 0 m m')"
  by (auto simp: clearFlag_def exec_simps sets_reg_def keeps_rset intro!: genI)

lemma setFlag_gen: "gen (setFlag X86_REF_ZF) e (\<lambda>m m'. sets_reg e 23 1 m m')"
  by (auto simp: setFlag_def exec_simps sets_reg_def keeps_rset intro!: genI)

end
