(* ===== verification/GuestSim.thy ===== *)
theory GuestSim
  imports EmitterSpec
begin

text \<open>
  The guest as the architecture sees it, its instruction semantics, and the simulation
  relation between a host machine that runs recompiled code and the guest.
\<close>

section \<open>Guest state\<close>

record x86 =
  xgpr :: "nat \<Rightarrow> u64"
  xflag :: "x86_ref \<Rightarrow> bool"
  xmem :: memory

text \<open>Writing \<open>v\<close> to the part of a register named by \<open>sz\<close>: the 8- and 16-bit parts leave the
  rest alone, a 32-bit write clears the upper half.\<close>

fun write_part :: "x86_size \<Rightarrow> u64 \<Rightarrow> u64 \<Rightarrow> u64" where
  "write_part X86_SIZE_BYTE v old = push_bit 8 (drop_bit 8 old) OR take_bit 8 v"
| "write_part X86_SIZE_BYTE_HIGH v old =
     push_bit 16 (drop_bit 16 old) OR push_bit 8 (take_bit 8 v) OR take_bit 8 old"
| "write_part X86_SIZE_WORD v old = push_bit 16 (drop_bit 16 old) OR take_bit 16 v"
| "write_part X86_SIZE_DWORD v old = take_bit 32 v"
| "write_part _ v old = v"

fun read_part :: "x86_size \<Rightarrow> u64 \<Rightarrow> u64" where
  "read_part X86_SIZE_BYTE_HIGH x = take_bit 8 (drop_bit 8 x)"
| "read_part sz x = take_bit (bits sz) x"

lemma read_write_part: "gp_size sz \<Longrightarrow> read_part sz (write_part sz v old) = take_bit (bits sz) v"
  by (cases sz; simp; rule bit_word_eqI; auto simp: bit_simps)

section \<open>Emitted register access\<close>

lemma and_m256: "(x :: u64) AND - 256 = push_bit 8 (drop_bit 8 x)"
  using and_not_mask_eq [of x 8] minus_exp_eq_not_mask [of 8, where ?'a = u64] by simp

lemma high_byte_mask:
  "k = push_bit 8 (mask 8) \<Longrightarrow> ((old AND NOT k) OR (push_bit 8 v AND k) :: u64) = write_part X86_SIZE_BYTE_HIGH v old"
  by (rule bit_word_eqI) (auto simp: bit_simps)

lemma high_byte_rotate:
  "word_rotr 56 (push_bit 8 (drop_bit 8 (word_rotr 8 old)) OR take_bit 8 v) = write_part X86_SIZE_BYTE_HIGH v old"
proof (rule bit_word_eqI)
  fix n assume "n < LENGTH(64)"
  then have n: "n < 64" by simp
  show "bit (word_rotr 56 (push_bit 8 (drop_bit 8 (word_rotr 8 old)) OR take_bit 8 v)) n
      \<longleftrightarrow> bit (write_part X86_SIZE_BYTE_HIGH v old) n"
  proof (cases "n < 8")
    case True
    then have "(n + 56) mod 64 = n + 56" "(n + 56 + 8) mod 64 = n" by simp_all
    then show ?thesis using True by (simp add: bit_word_rotr_iff bit_simps)
  next
    case False
    then have "(n + 56) mod 64 = n - 8" "(n - 8 + 8) mod 64 = n"
      using n mod_if [of "n + 56" 64] by simp_all
    then show ?thesis using False n by (auto simp: bit_word_rotr_iff bit_simps)
  qed
qed

lemma low_parts:
  "push_bit 16 (drop_bit 16 old) OR take_bit 16 v = write_part X86_SIZE_WORD v old"
  "push_bit 8 (drop_bit 8 old) OR take_bit 8 v = write_part X86_SIZE_BYTE v old"
  by simp_all

lemma gpr_alloc_special: "i < 16 \<Longrightarrow> gpr_alloc ! i \<in> {5, 26, 12, 8, 9, 18, 11, 10, 14, 15, 13, 16, 17, 22, 19, 20}"
  using nth_mem [of i gpr_alloc] by (simp add: gpr_alloc_def)

lemma gpr_alloc_not_free: "i < 16 \<Longrightarrow> gpr_alloc ! i \<notin> free e"
  using gpr_alloc_special [of i] free_special [of "gpr_alloc ! i" e] by auto

lemma gpr_alloc_inj: "i < 16 \<Longrightarrow> j < 16 \<Longrightarrow> gpr_alloc ! i = gpr_alloc ! j \<longleftrightarrow> i = j"
  by (subst nth_eq_iff_index_eq) (auto simp: gpr_alloc_def)

lemma allocatedGPR_gpr: "i < 16 \<Longrightarrow> allocatedGPR i = Some (gpr_alloc ! i)"
  by (simp add: allocatedGPR_def)

fun setGPR_code :: "env \<Rightarrow> x86_size \<Rightarrow> reg \<Rightarrow> reg \<Rightarrow> reg \<Rightarrow> reg \<Rightarrow> rv list" where
  "setGPR_code V X86_SIZE_BYTE d r t u = [Ri iANDI t r 0xff, Ri iANDI d d (NOT 0xff), Rr rOR d d t]"
| "setGPR_code V X86_SIZE_BYTE_HIGH d r t u = (if ext_B V
     then [Ri iANDI t r 0xFF, Sh sRORI d d 8, Ri iANDI d d (NOT 0xFF), Rr rOR d d t, Sh sRORI d d 56]
     else [LI u 0xff00, Sh sSLLI t r 8, Rr rAND t t u, Rm uNOT u u, Rr rAND d d u, Rr rOR d d t])"
| "setGPR_code V X86_SIZE_WORD d r t u =
     (if ext_B V then [Rm uZEXTH t r] else [Sh sSLLI t r 48, Sh sSRLI t t 48])
     @ [Sh sSRLI d d 16, Sh sSLLI d d 16, Rr rOR d d t]"
| "setGPR_code V X86_SIZE_DWORD d r t u =
     (if ext_B V then [Rm uZEXTW d r] else [Sh sSLLI d r 32, Sh sSRLI d d 32])"
| "setGPR_code V _ d r t u = (if d = r then [] else [Rm uMV d r])"

lemma setGPR_code_straight [simp]: "list_all straight (setGPR_code V sz d r t u)"
  by (cases sz) simp_all

lemma setGPR_code_value:
  assumes "gp_size sz" "distinct [0, d, t, u]" "r \<noteq> t" "r \<noteq> u" "r = d \<longrightarrow> sz = X86_SIZE_DWORD \<or> sz = X86_SIZE_QWORD"
  shows "rget (exec (setGPR_code V sz d r t u) m) d = write_part sz (rget m r) (rget m d)"
proof -
  have "(old AND NOT 0xff00) OR (push_bit 8 v AND 0xff00) = write_part X86_SIZE_BYTE_HIGH v old" for old v
    using high_byte_mask [of "0xff00" old v] by (simp add: mask_eq_exp_minus_1)
  then show ?thesis
    using assms by (cases sz) (auto simp: exec_simps and_255 and_m256 drop_push_u64 high_byte_rotate)
qed

lemma setGPR_code_keeps:
  "mem (exec (setGPR_code V sz d r t u) m) = mem m"
  "d \<in> S \<Longrightarrow> t \<in> S \<Longrightarrow> u \<in> S \<Longrightarrow> keeps S m (exec (setGPR_code V sz d r t u) m)"
  by (cases sz; simp add: exec_simps keeps_rset)+

lemma setGPR_ref_gen:
  assumes i: "Suc (scratch_index e) < 7" and gp: "gp_size sz" and ref: "ref < 16"
    and r: "r \<notin> free e" "r = gpr_alloc ! ref \<longrightarrow> sz = X86_SIZE_DWORD \<or> sz = X86_SIZE_QWORD"
  shows "gen (setGPR_ref V ref sz r) e (\<lambda>m m'.
     sets_reg e (gpr_alloc ! ref) (write_part sz (rget m r) (rget m (gpr_alloc ! ref))) m m')"
proof -
  define d where "d = gpr_alloc ! ref"
  have d: "d \<noteq> 0" "d \<notin> free e" using gpr_alloc_special [OF ref] gpr_alloc_not_free [OF ref] by (auto simp: d_def)
  obtain t u where *: "scratch_gprs ! scratch_index e = t" "scratch_gprs ! Suc (scratch_index e) = u"
    "t \<in> free e" "u \<in> free e" "t \<noteq> u" "t \<noteq> 0" "u \<noteq> 0"
    by (rule two_scratch [OF i])
  then have n: "distinct [0, d, t, u]" "r \<noteq> t" "r \<noteq> u" using r(1) d by auto
  have "setGPR_ref V ref sz r e = Some (emits (setGPR_code V sz d r t u) e)"
    using gp r(2) i * by (cases sz) (auto simp: setGPR_ref_def allocatedGPR_gpr [OF ref] emits_index d_def)
  then show ?thesis
    using setGPR_code_value [OF gp n(1) n(2) n(3) r(2) [folded d_def]] * unfolding d_def [symmetric]
    by (intro genI [where c = "setGPR_code V sz d r t u"]) (simp_all add: sets_reg_def setGPR_code_keeps)
qed

section \<open>Reading operands\<close>

text \<open>Register and immediate operands that the handlers accept. In 32-bit mode there are no
  64-bit registers.\<close>

fun plain_reg :: "env \<Rightarrow> ZydisRegister \<Rightarrow> bool" where
  "plain_reg V (Z_8 n) = (n < 16)"
| "plain_reg V (Z_8H n) = (n < 4)"
| "plain_reg V (Z_16 n) = (n < 16)"
| "plain_reg V (Z_32 n) = (n < 16)"
| "plain_reg V (Z_64 n) = (n < 16 \<and> \<not> g_mode32 V)"
| "plain_reg V _ = False"

fun reg_no :: "ZydisRegister \<Rightarrow> nat" where
  "reg_no (Z_8 n) = n"
| "reg_no (Z_8H n) = n"
| "reg_no (Z_16 n) = n"
| "reg_no (Z_32 n) = n"
| "reg_no (Z_64 n) = n"
| "reg_no _ = 0"

fun reg_size :: "ZydisRegister \<Rightarrow> x86_size" where
  "reg_size (Z_8 n) = X86_SIZE_BYTE"
| "reg_size (Z_8H n) = X86_SIZE_BYTE_HIGH"
| "reg_size (Z_16 n) = X86_SIZE_WORD"
| "reg_size (Z_32 n) = X86_SIZE_DWORD"
| "reg_size _ = X86_SIZE_QWORD"

lemma plain_reg_facts:
  assumes "plain_reg V r"
  shows "reg_no r < 16" "gp_size (reg_size r)" "zydisToRef r = Some (reg_no r)" "zydisToSize r = Some (reg_size r)"
  using assms by (cases r; simp)+

fun x86_value :: "operand \<Rightarrow> x86 \<Rightarrow> u64" where
  "x86_value (RegOp r) s = read_part (reg_size r) (xgpr s (reg_no r))"
| "x86_value (ImmOp v n) s = v"
| "x86_value (MemOp _ _ _ _ _ _) s = 0"

definition x86_write :: "ZydisRegister \<Rightarrow> u64 \<Rightarrow> x86 \<Rightarrow> x86" where
  "x86_write r v s = s\<lparr>xgpr := (xgpr s)(reg_no r := write_part (reg_size r) v (xgpr s (reg_no r)))\<rparr>"

fun plain_operand :: "env \<Rightarrow> operand \<Rightarrow> bool" where
  "plain_operand V (RegOp r) = plain_reg V r"
| "plain_operand V (ImmOp v n) = True"
| "plain_operand V (MemOp _ _ _ _ _ _) = False"

section \<open>The simulation relation\<close>

text \<open>The value that stands for a flag: a host register for CF, ZF, SF and OF, a byte of the
  thread state for PF and AF.\<close>

definition flag_val :: "machine \<Rightarrow> x86_ref \<Rightarrow> u64" where
  "flag_val m f = (
     if f = X86_REF_CF then rget m 21
     else if f = X86_REF_ZF then rget m 23
     else if f = X86_REF_SF then rget m 24
     else if f = X86_REF_OF then rget m 25
     else if f = X86_REF_PF then ucast (mem m (rget m threadStatePointer + off_pf))
     else ucast (mem m (rget m threadStatePointer + off_af)))"

definition status_flags :: "x86_ref set" where
  "status_flags = {X86_REF_CF, X86_REF_PF, X86_REF_AF, X86_REF_ZF, X86_REF_SF, X86_REF_OF}"

text \<open>\<open>sim V tsp L m s\<close>: host machine \<open>m\<close> with the thread state at \<open>tsp\<close> represents guest state
  \<open>s\<close>; only the flags in \<open>L\<close> (the live ones) are represented. In 32-bit mode the host
  registers hold zero-extended values.\<close>

definition sim :: "env \<Rightarrow> u64 \<Rightarrow> x86_ref set \<Rightarrow> machine \<Rightarrow> x86 \<Rightarrow> bool" where
  "sim V tsp L m s \<longleftrightarrow>
     rget m threadStatePointer = tsp
     \<and> (\<forall>i < 16. rget m (gpr_alloc ! i) = xgpr s i)
     \<and> (\<forall>f \<in> L \<inter> status_flags. flag_val m f = of_bool (xflag s f))
     \<and> (\<forall>a. a \<noteq> tsp + off_pf \<and> a \<noteq> tsp + off_af \<longrightarrow> mem m a = xmem s a)
     \<and> (g_mode32 V \<longrightarrow> (\<forall>i < 16. take_bit 32 (xgpr s i) = xgpr s i))"

abbreviation set_flag :: "x86_ref \<Rightarrow> bool \<Rightarrow> x86 \<Rightarrow> x86" where
  "set_flag f b s \<equiv> s\<lparr>xflag := (xflag s)(f := b)\<rparr>"

lemma simI:
  assumes "rget m threadStatePointer = tsp" "\<And>i. i < 16 \<Longrightarrow> rget m (gpr_alloc ! i) = xgpr s i"
    "\<And>f. f \<in> L \<Longrightarrow> f \<in> status_flags \<Longrightarrow> flag_val m f = of_bool (xflag s f)"
    "\<And>a. a \<noteq> tsp + off_pf \<Longrightarrow> a \<noteq> tsp + off_af \<Longrightarrow> mem m a = xmem s a"
    "\<And>i. g_mode32 V \<Longrightarrow> i < 16 \<Longrightarrow> take_bit 32 (xgpr s i) = xgpr s i"
  shows "sim V tsp L m s"
  using assms unfolding sim_def by blast

lemma simD:
  assumes "sim V tsp L m s"
  shows "rget m threadStatePointer = tsp" "i < 16 \<Longrightarrow> rget m (gpr_alloc ! i) = xgpr s i"
    "f \<in> L \<Longrightarrow> f \<in> status_flags \<Longrightarrow> flag_val m f = of_bool (xflag s f)"
    "a \<noteq> tsp + off_pf \<Longrightarrow> a \<noteq> tsp + off_af \<Longrightarrow> mem m a = xmem s a"
    "g_mode32 V \<Longrightarrow> i < 16 \<Longrightarrow> take_bit 32 (xgpr s i) = xgpr s i"
  using assms unfolding sim_def by blast+

text \<open>Which host registers a helper leaves alone.\<close>

abbreviation scratches :: "reg set" where "scratches \<equiv> {1, 6, 28, 29, 7, 30, 31}"

lemma free_scratches: "free e \<subseteq> scratches"
  using free_special by blast

lemma keeps_scratches: "keeps (insert r (free e)) m m' \<Longrightarrow> x \<noteq> r \<Longrightarrow> x \<notin> scratches \<Longrightarrow> rget m' x = rget m x"
  using free_scratches unfolding keeps_def by blast

lemma gpr_alloc_range:
  assumes "i < 16"
  shows "gpr_alloc ! i \<notin> scratches" "gpr_alloc ! i \<notin> {0, 21, 23, 24, 25, 27}"
  using gpr_alloc_special [OF assms] by auto

lemma flag_val_keeps:
  assumes "\<And>r. r \<in> {21, 23, 24, 25, 27} \<Longrightarrow> rget m' r = rget m r" "mem m' = mem m"
  shows "flag_val m' f = flag_val m f"
  using assms by (simp add: flag_val_def)

text \<open>A change of free scratch registers is invisible.\<close>

lemma sim_keeps:
  assumes sim: "sim V tsp L m s" and k: "keeps (free e) m m'" and "mem m' = mem m"
  shows "sim V tsp L m' s"
proof -
  have k: "rget m' r = rget m r" if "r \<notin> scratches" for r
    using k free_scratches [of e] that unfolding keeps_def by blast
  have f: "flag_val m' f = flag_val m f" for f
    using assms(3) by (intro flag_val_keeps k) auto
  have gpr: "rget m' (gpr_alloc ! i) = rget m (gpr_alloc ! i)" if "i < 16" for i
    by (rule k [OF gpr_alloc_range(1) [OF that]])
  show ?thesis
    using simD [OF sim] assms(3) by (intro simI) (simp_all add: k gpr f)
qed

text \<open>The flag helpers implement a flag update of the guest.\<close>

lemma sim_sets_reg:
  assumes sim: "sim V tsp L m s" and sets: "sets_reg e r (of_bool b) m m'"
    and f: "(f, r) \<in> {(X86_REF_CF, 21), (X86_REF_ZF, 23), (X86_REF_SF, 24), (X86_REF_OF, 25)}"
  shows "sim V tsp (insert f L) m' (set_flag f b s)"
proof -
  have k: "x \<noteq> r \<Longrightarrow> x \<notin> scratches \<Longrightarrow> rget m' x = rget m x" for x
    using sets keeps_scratches unfolding sets_reg_def by blast
  have m: "mem m' = mem m" "rget m' r = of_bool b"
    using sets by (simp_all add: sets_reg_def)
  have tsp: "rget m' 27 = rget m 27" using f by (intro k) auto
  have gpr: "rget m' (gpr_alloc ! i) = rget m (gpr_alloc ! i)" if "i < 16" for i
    using gpr_alloc_range [OF that] f by (intro k) auto
  have "flag_val m' g = (if g = f then of_bool b else flag_val m g)" if "g \<in> status_flags" for g
    using f m that tsp k [of 21] k [of 23] k [of 24] k [of 25] by (auto simp: flag_val_def status_flags_def)
  then show ?thesis
    using simD [OF sim] m(1) by (intro simI) (auto simp: tsp gpr)
qed

lemma sim_sets_byte:
  assumes sim: "sim V tsp L m s" and sets: "sets_byte e off b m m'"
    and f: "(f, off) \<in> {(X86_REF_PF, off_pf), (X86_REF_AF, off_af)}"
  shows "sim V tsp (insert f L) m' (set_flag f b s)"
proof -
  have k: "x \<notin> scratches \<Longrightarrow> rget m' x = rget m x" for x
    using sets free_scratches [of e] unfolding sets_byte_def keeps_def by blast
  have m: "mem m' = (mem m)(rget m 27 + off := of_bool b)"
    using sets by (simp add: sets_byte_def)
  have "flag_val m' g = (if g = f then of_bool b else flag_val m g)" if "g \<in> status_flags" for g
    using f that by (auto simp: flag_val_def status_flags_def k m)
  moreover have "rget m' (gpr_alloc ! i) = rget m (gpr_alloc ! i)" if "i < 16" for i
    by (rule k [OF gpr_alloc_range(1) [OF that]])
  ultimately show ?thesis
    using simD [OF sim] f by (intro simI) (auto simp: k m)
qed

lemma sim_dead: "sim V tsp L m s \<Longrightarrow> sim V tsp (L - {f}) m (set_flag f b s)"
  by (simp add: sim_def)

lemma sim_write:
  assumes sim: "sim V tsp L m s" and r: "plain_reg V r"
    and sets: "sets_reg e (gpr_alloc ! reg_no r) (write_part (reg_size r) v (rget m (gpr_alloc ! reg_no r))) m m'"
  shows "sim V tsp L m' (x86_write r v s)"
proof -
  note n = plain_reg_facts(1) [OF r]
  let ?d = "gpr_alloc ! reg_no r"
  have k: "x \<noteq> ?d \<Longrightarrow> x \<notin> scratches \<Longrightarrow> rget m' x = rget m x" for x
    using sets keeps_scratches unfolding sets_reg_def by blast
  have other: "rget m' (gpr_alloc ! i) = rget m (gpr_alloc ! i)" if "i < 16" "i \<noteq> reg_no r" for i
    using gpr_alloc_range [OF that(1)] gpr_alloc_inj [OF that(1) n] that(2) by (intro k) auto
  have special: "rget m' x = rget m x" if "x \<in> {21, 23, 24, 25, 27}" for x
    using gpr_alloc_range [OF n] that by (intro k) auto
  have m: "mem m' = mem m" "rget m' ?d = write_part (reg_size r) v (rget m ?d)"
    using sets by (simp_all add: sets_reg_def)
  have wide: "take_bit 32 (write_part (reg_size r) v x) = write_part (reg_size r) v x"
    if "g_mode32 V" "take_bit 32 x = x" for x
  proof -
    have "bit x i \<longrightarrow> i < 32" for i using that(2) by (metis bit_take_bit_iff)
    then show ?thesis
      using r that(1) by (cases r) (auto simp: bit_eq_iff bit_simps)
  qed
  have f: "flag_val m' f = flag_val m f" for f
    using m(1) by (intro flag_val_keeps special) auto
  show ?thesis
    using simD [OF sim] n special m(1)
    by (intro simI) (auto simp: x86_write_def m(2) other f wide)
qed

section \<open>Emitted operand access\<close>

definition advance :: "nat \<Rightarrow> emitter \<Rightarrow> emitter" where
  "advance k e = e\<lparr>scratch_index := scratch_index e + k\<rparr>"

lemma advance_simps [simp]:
  "scratch_index (advance k e) = scratch_index e + k" "code (advance k e) = code e" "advance 0 e = e"
  "emits c (advance k e) = advance k (emits c e)"
  by (simp_all add: advance_def emits_def)

lemma free_advance: "free (advance k e) \<subseteq> free e"
  by (auto simp: free_def advance_def set_drop_subset_set_drop intro: subsetD [OF set_drop_subset_set_drop])

lemma scratch_advance: "scratch_index e < 7 \<Longrightarrow> scratch e = Some (scratch_gprs ! scratch_index e, advance 1 e)"
  by (simp add: advance_def)

lemma scratch_not_free: "scratch_index e < 7 \<Longrightarrow> scratch_gprs ! scratch_index e \<notin> free (advance 1 e)"
  by (auto simp: free_def in_set_conv_nth scratch_distinct)

text \<open>\<open>reads V f e op r k\<close>: operation \<open>f\<close> leaves the value of operand \<open>op\<close> in register \<open>r\<close>, using \<open>k\<close>
  scratch registers and changing nothing but free scratch registers.\<close>

definition reads :: "env \<Rightarrow> (emitter \<Rightarrow> (reg \<times> emitter) option) \<Rightarrow> emitter \<Rightarrow> (x86 \<Rightarrow> u64) \<Rightarrow> reg \<Rightarrow> nat \<Rightarrow> bool" where
  "reads V f e val r k \<longleftrightarrow> (\<exists>c. f e = Some (r, emits c (advance k e)) \<and> list_all straight c
     \<and> r \<notin> free (advance k e) \<and> (r \<in> free e \<or> r \<in> set gpr_alloc)
     \<and> (\<forall>m. keeps (free e) m (exec c m) \<and> mem (exec c m) = mem m)
     \<and> (\<forall>tsp L m s. sim V tsp L m s \<longrightarrow> rget (exec c m) r = val s))"

lemma readsI:
  assumes "f e = Some (r, emits c (advance k e))" "list_all straight c" "r \<notin> free (advance k e)"
    "r \<in> free e \<or> r \<in> set gpr_alloc" "\<And>m. keeps (free e) m (exec c m)" "\<And>m. mem (exec c m) = mem m"
    "\<And>tsp L m s. sim V tsp L m s \<Longrightarrow> rget (exec c m) r = val s"
  shows "reads V f e val r k"
  using assms by (auto simp: reads_def)

text \<open>A value that has to be extracted into a scratch register.\<close>

lemma reads_scratch:
  assumes i: "scratch_index e < 7" and t: "t = scratch_gprs ! scratch_index e"
    and f: "f e = Some (t, emits c (advance 1 e))" and c: "list_all straight c"
    and x: "\<And>m. exec c m = rset t (v m) m" "\<And>tsp L m s. sim V tsp L m s \<Longrightarrow> v m = val s"
  shows "reads V f e val t 1"
proof (rule readsI [where c = c])
  have "t \<in> free e" "t \<noteq> 0" "t \<notin> free (advance 1 e)"
    using scratch_in_free [OF i] scratch_not_special [OF i] scratch_not_free [OF i] by (auto simp: t)
  then show "t \<notin> free (advance 1 e)" "t \<in> free e \<or> t \<in> set gpr_alloc" "keeps (free e) m (exec c m)"
    "mem (exec c m) = mem m" "sim V tsp L m' s \<Longrightarrow> rget (exec c m') t = val s" for m m' tsp L s
    by (simp_all add: x keeps_rset)
qed (rule f c)+

lemma getGPR_ref_reads:
  assumes i: "scratch_index e < 7" and r: "plain_reg V r"
  shows "\<exists>x k. k \<le> 1 \<and> reads V (getGPR_ref V (reg_no r) (reg_size r)) e (x86_value (RegOp r)) x k"
proof -
  define t where "t = scratch_gprs ! scratch_index e"
  define g where "g = gpr_alloc ! reg_no r"
  note n = plain_reg_facts(1) [OF r]
  have t: "t \<noteq> 0" using scratch_not_special [OF i] by (simp add: t_def)
  have g: "sim V tsp L m s \<Longrightarrow> rget m g = xgpr s (reg_no r)" for tsp L m s
    using simD(2) n by (auto simp: g_def)
  have direct: "reads V (getGPR_ref V (reg_no r) (reg_size r)) e (x86_value (RegOp r)) g 0"
    if "getGPR_ref V (reg_no r) (reg_size r) e = Some (g, e)"
      and "\<And>tsp L m s. sim V tsp L m s \<Longrightarrow> xgpr s (reg_no r) = x86_value (RegOp r) s"
    using that gpr_alloc_not_free [OF n, of e] n g
    by (intro readsI [where c = "[]"]) (simp_all add: exec_Nil g_def)
  show ?thesis
  proof (cases "reg_size r = X86_SIZE_QWORD \<or> (reg_size r = X86_SIZE_DWORD \<and> g_mode32 V)")
    case True
    then show ?thesis
      using simD(5) [OF _ _ n] n
      by (intro exI [of _ g] exI [of _ 0] conjI direct)
         (auto simp: getGPR_ref_def allocatedGPR_gpr g_def)
  next
    case False
    let ?c = "if reg_size r = X86_SIZE_BYTE_HIGH then Sh sSRLI t g 8 # zext_code V t t X86_SIZE_BYTE
              else zext_code V t g (reg_size r)"
    have "reads V (getGPR_ref V (reg_no r) (reg_size r)) e (x86_value (RegOp r)) t 1"
    proof (rule reads_scratch [OF i t_def, where c = ?c and v = "\<lambda>m. read_part (reg_size r) (rget m g)"])
      show "getGPR_ref V (reg_no r) (reg_size r) e = Some (t, emits ?c (advance 1 e))"
        using False i r n by (cases r) (auto simp: getGPR_ref_def allocatedGPR_gpr g_def t_def advance_def emits_index)
      show "exec ?c m = rset t (read_part (reg_size r) (rget m g)) m" for m
        using t plain_reg_facts(2) [OF r] by (cases r) (auto simp: exec_simps zext_exec and_255 drop_push_u64)
      show "sim V tsp L m s \<Longrightarrow> read_part (reg_size r) (rget m g) = x86_value (RegOp r) s" for tsp L m s
        using g by simp
    qed simp
    then show ?thesis by blast
  qed
qed

lemma getGPR_reads:
  assumes i: "scratch_index e < 7" and oper: "plain_operand V oper"
  shows "\<exists>x k. k \<le> 1 \<and> reads V (getGPR V ptr oper) e (x86_value oper) x k"
proof (cases oper)
  case (RegOp r)
  then show ?thesis
    using getGPR_ref_reads [OF i, of V r] oper plain_reg_facts [of V r]
    by (simp add: reads_def getGPR_reg_def)
next
  case (ImmOp v n)
  have "reads V (getGPR V ptr oper) e (x86_value oper) (scratch_gprs ! scratch_index e) 1"
    by (rule reads_scratch [OF i refl, where c = "[LI (scratch_gprs ! scratch_index e) v]" and v = "\<lambda>_. v"])
       (use ImmOp i in \<open>simp_all add: exec_simps advance_def emits_index\<close>)
  then show ?thesis by blast
qed (use oper in simp)

end
