(* ===== verification/Handlers.thy ===== *)
theory Handlers
  imports Emitter
begin

text \<open>
  The instruction handlers of \<^verbatim>\<open>v2/handlers.cpp\<close> for integer arithmetic, logic, the
  one-operand instructions and shifts by a constant. A handler takes the decoded operands
  and appends the translation of one guest instruction.
\<close>

definition emit_if :: "bool \<Rightarrow> (emitter \<Rightarrow> emitter option) \<Rightarrow> emitter \<Rightarrow> emitter option" where
  "emit_if b f e = (if b then f e else Some e)"

section \<open>Arithmetic\<close>

definition SetCmpFlags :: "env \<Rightarrow> reg \<Rightarrow> reg \<Rightarrow> reg \<Rightarrow> x86_size \<Rightarrow> bool \<Rightarrow> bool \<Rightarrow> emitter \<Rightarrow> emitter option" where
  "SetCmpFlags V dst src result sz zext_src always_emit e = do {
     e \<leftarrow> emit_if (always_emit \<or> needs_flag V X86_REF_CF) (\<lambda>e. do {
            (test, e) \<leftarrow> scratch e;
            (if zext_src then do {
               e \<leftarrow> zext V test src sz e;
               e \<leftarrow> updateCarrySub dst test e;
               popScratch e
             } else do {
               e \<leftarrow> updateCarrySub dst src e;
               popScratch e
             })
          }) e;
     e \<leftarrow> emit_if (always_emit \<or> needs_flag V X86_REF_PF) (updateParity V result) e;
     e \<leftarrow> emit_if (always_emit \<or> needs_flag V X86_REF_AF) (updateAuxiliarySub dst src) e;
     e \<leftarrow> emit_if (always_emit \<or> needs_flag V X86_REF_ZF) (updateZero V result sz) e;
     e \<leftarrow> emit_if (always_emit \<or> needs_flag V X86_REF_SF) (updateSign result sz) e;
     emit_if (always_emit \<or> needs_flag V X86_REF_OF) (updateOverflowSub dst src result sz) e
   }"

text \<open>The flag-free form on a register destination: 8- and 16-bit operations rotate the operand
  into the top of the register, so that the carry out is lost.\<close>

definition OP_noflags_destreg :: "env \<Rightarrow> operand \<Rightarrow> operand \<Rightarrow> rop \<Rightarrow> rop \<Rightarrow> emitter \<Rightarrow> emitter option" where
  "OP_noflags_destreg V op0 op1 func64 func32 e = do {
     (dst, e) \<leftarrow> getGPR_size V op0 X86_SIZE_QWORD e;
     (src, e) \<leftarrow> (if is_reg op1 then getGPR_size V op1 X86_SIZE_QWORD e else getGPR V (Operand 1) op1 e);
     e \<leftarrow> (let w = operand_width (current_instruction V) in
       if w = 8 then do {
         s0 \<leftarrow> zydisToSize (reg_value V op0);
         s1 \<leftarrow> zydisToSize (reg_value V op1);
         let dst_high = (s0 = X86_SIZE_BYTE_HIGH);
         let src_high = (s1 = X86_SIZE_BYTE_HIGH);
         (temp, e) \<leftarrow> scratch e;
         Some (emits (
           if \<not> dst_high \<and> \<not> src_high then
             [Sh sSLLI temp src 56, Sh sRORI dst dst 8, Rr func64 dst dst temp, Sh sRORI dst dst 56]
           else if \<not> dst_high \<and> src_high then
             [Sh sSRLI temp src 8, Sh sSLLI temp temp 56, Sh sRORI dst dst 8, Rr func64 dst dst temp, Sh sRORI dst dst 56]
           else if dst_high \<and> \<not> src_high then
             [Sh sSLLI temp src 56, Sh sRORI dst dst 16, Rr func64 dst dst temp, Sh sRORI dst dst 48]
           else
             [Sh sSRLI temp src 8, Sh sSLLI temp temp 56, Sh sRORI dst dst 16, Rr func64 dst dst temp, Sh sRORI dst dst 48]) e)
       } else if w = 16 then do {
         (temp, e) \<leftarrow> scratch e;
         Some (emits [Sh sSLLI temp src 48, Sh sRORI dst dst 16, Rr func64 dst dst temp, Sh sRORI dst dst 48] e)
       } else if w = 32 then
         zext V dst dst X86_SIZE_DWORD (emits [Rr func32 dst dst src] e)
       else if w = 64 then Some (emits [Rr func64 dst dst src] e)
       else Some e);
     ref \<leftarrow> zydisToRef (reg_value V op0);
     setGPR_ref V ref X86_SIZE_QWORD dst e
   }"

text \<open>The compare-and-swap loops for locked additions narrower than 32 bits.\<close>

definition lock_loop :: "reg \<Rightarrow> reg \<Rightarrow> reg \<Rightarrow> reg \<Rightarrow> reg \<Rightarrow> rv list" where
  "lock_loop dst result address masked_address msk =
     [LR_W dst masked_address,
      Rr rADD result dst address,
      Rr rXOR result result dst,
      Rr rAND result result msk,
      Rr rXOR result result dst,
      SC_W result result masked_address,
      BNEZ result (- 6)]"

definition lock_add_8 :: "reg \<Rightarrow> reg \<Rightarrow> reg \<Rightarrow> reg \<Rightarrow> emitter \<Rightarrow> emitter option" where
  "lock_add_8 dst src result address e = do {
     (masked_address, e) \<leftarrow> scratch e;
     (msk, e) \<leftarrow> scratch e;
     let e = emits (
       [Ri iANDI masked_address address (- 4),
        Sh sSLLI address address 3,
        LI msk 0xFF,
        Rr rSLLW msk msk address,
        Rr rSLLW address src address]
       @ lock_loop dst result address masked_address msk
       @ [Rr rSRLW dst dst address, Ri iANDI dst dst 0xFF]) e;
     e \<leftarrow> popScratch e;
     popScratch e
   }"

definition lock_add_16 :: "env \<Rightarrow> reg \<Rightarrow> reg \<Rightarrow> reg \<Rightarrow> reg \<Rightarrow> emitter \<Rightarrow> emitter option" where
  "lock_add_16 V dst src result address e = do {
     (masked_address, e) \<leftarrow> scratch e;
     (msk, e) \<leftarrow> scratch e;
     let e = emits [LI msk 3, Ri iANDI masked_address address 3] e;
     let branch = length (code e);
     let e = emits (
       [BEQ masked_address msk 0,
        Ri iANDI masked_address address (- 4),
        Sh sSLLI address address 3,
        LI msk 0xFFFF,
        Rr rSLLW msk msk address,
        Rr rSLLW address src address]
       @ lock_loop dst result address masked_address msk
       @ [Rr rSRLW dst dst address]) e;
     let e = sexth V dst dst e;
     let jump = length (code e);
     let e = bind_label branch (emits [J 0] e);
     let e = bind_label jump (emits [EBREAK] e);
     e \<leftarrow> popScratch e;
     popScratch e
   }"

definition needs_any :: "env \<Rightarrow> bool" where
  "needs_any V \<longleftrightarrow> needs_flag V X86_REF_CF \<or> needs_flag V X86_REF_OF \<or> needs_flag V X86_REF_PF
     \<or> needs_flag V X86_REF_SF \<or> needs_flag V X86_REF_ZF"

definition locked :: "env \<Rightarrow> operand \<Rightarrow> bool" where
  "locked V op0 \<longleftrightarrow> is_mem op0 \<and> has_lock (current_instruction V)"

definition too_small_for_atomic :: "operand \<Rightarrow> bool" where
  "too_small_for_atomic op0 \<longleftrightarrow> operand_size op0 = 8 \<or> operand_size op0 = 16"

text \<open>The atomic read-modify-write of the 32- and 64-bit sizes.\<close>

definition amo_code :: "amoop \<Rightarrow> nat \<Rightarrow> reg \<Rightarrow> reg \<Rightarrow> reg \<Rightarrow> rv list" where
  "amo_code f sz dst src address = (
     if sz = 32 then [AMO f 4 dst src address]
     else if sz = 64 then [AMO f 8 dst src address]
     else [])"

definition fast_ADD :: "env \<Rightarrow> operand \<Rightarrow> operand \<Rightarrow> emitter \<Rightarrow> emitter option" where
  "fast_ADD V op0 op1 e = (
     let needs_any_flag = (needs_any V \<or> needs_flag V X86_REF_AF) in
     if ext_B V \<and> noflag_opts V \<and> \<not> needs_any_flag \<and> is_reg op0
     then OP_noflags_destreg V op0 op1 rADD rADDW e
     else do {
       (result, e) \<leftarrow> scratch e;
       (src, e) \<leftarrow> getGPR V (Operand 1) op1 e;
       (dst, e) \<leftarrow> (if locked V op0 then do {
           (address, e) \<leftarrow> lea V (Operand 0) op0 True e;
           (dst, e) \<leftarrow> scratch e;
           e \<leftarrow> (if operand_size op0 = 8 then
                   (if ext_Zabha V then Some (emits [AMO amoADD 1 dst src address] e)
                    else lock_add_8 dst src result address e)
                 else if operand_size op0 = 16 then
                   (if ext_Zabha V then Some (emits [AMO amoADD 2 dst src address] e)
                    else lock_add_16 V dst src result address e)
                 else Some (emits (amo_code amoADD (operand_size op0) dst src address) e));
           Some (dst, if needs_any_flag \<or> \<not> noflag_opts V then emits [Rr rADD result dst src] e else e)
         } else do {
           (dst, e) \<leftarrow> getGPR V (Operand 0) op0 e;
           Some (dst, emits [Rr rADD result dst src] e)
         });
       sz \<leftarrow> getSize op0;
       e \<leftarrow> emit_if (needs_flag V X86_REF_CF) (updateCarryAdd V dst result sz) e;
       e \<leftarrow> emit_if (needs_flag V X86_REF_PF) (updateParity V result) e;
       e \<leftarrow> emit_if (needs_flag V X86_REF_AF) (updateAuxiliaryAdd dst result) e;
       e \<leftarrow> emit_if (needs_flag V X86_REF_ZF) (updateZero V result sz) e;
       e \<leftarrow> emit_if (needs_flag V X86_REF_SF) (updateSign result sz) e;
       e \<leftarrow> emit_if (needs_flag V X86_REF_OF) (updateOverflowAdd dst src result sz) e;
       emit_if (\<not> locked V op0) (setGPR V (Operand 0) op0 result) e
     })"

definition fast_SUB :: "env \<Rightarrow> operand \<Rightarrow> operand \<Rightarrow> emitter \<Rightarrow> emitter option" where
  "fast_SUB V op0 op1 e = (
     let needs_any_flag = (needs_any V \<or> needs_flag V X86_REF_AF);
         atomic = (locked V op0 \<and> \<not> too_small_for_atomic op0) in
     if ext_B V \<and> noflag_opts V \<and> \<not> needs_any_flag \<and> is_reg op0
     then OP_noflags_destreg V op0 op1 rSUB rSUBW e
     else do {
       (result, e) \<leftarrow> scratch e;
       (src, e) \<leftarrow> getGPR V (Operand 1) op1 e;
       (dst, e) \<leftarrow> (if atomic then do {
           (address, e) \<leftarrow> lea V (Operand 0) op0 True e;
           (dst, e) \<leftarrow> scratch e;
           (src_neg, e) \<leftarrow> scratch e;
           e \<leftarrow> popScratch (emits (Rm uNEG src_neg src # amo_code amoADD (operand_size op0) dst src_neg address) e);
           Some (dst, emits [Rr rSUB result dst src] e)
         } else do {
           (dst, e) \<leftarrow> getGPR V (Operand 0) op0 e;
           Some (dst, emits [Rr rSUB result dst src] e)
         });
       sz \<leftarrow> getSize op0;
       e \<leftarrow> SetCmpFlags V dst src result sz (is_imm op1 \<and> sz \<noteq> X86_SIZE_QWORD) False e;
       emit_if (\<not> atomic) (setGPR V (Operand 0) op0 result) e
     })"

definition fast_SBB :: "env \<Rightarrow> operand \<Rightarrow> operand \<Rightarrow> emitter \<Rightarrow> emitter option" where
  "fast_SBB V op0 op1 e = do {
     (result, e) \<leftarrow> scratch e;
     (result_2, e) \<leftarrow> scratch e;
     (src, e) \<leftarrow> getGPR V (Operand 1) op1 e;
     (dst, e) \<leftarrow> getGPR V (Operand 0) op0 e;
     (cy, e) \<leftarrow> flag X86_REF_CF e;
     sz \<leftarrow> getSize op0;
     sign_mask \<leftarrow> getSignMask sz;
     let e = emits [Rr rSUB result dst src, Rr rSUB result_2 result cy] e;
     e \<leftarrow> emit_if (needs_flag V X86_REF_PF) (updateParity V result_2) e;
     e \<leftarrow> emit_if (needs_flag V X86_REF_AF) (updateAuxiliarySbb dst src result cy) e;
     e \<leftarrow> emit_if (needs_flag V X86_REF_OF) (\<lambda>e. do {
            (t, e) \<leftarrow> scratch e;
            (t2, e) \<leftarrow> scratch e;
            (ovf, e) \<leftarrow> flag X86_REF_OF e;
            let e = emits [
              LI t2 sign_mask,
              Rr rXOR t dst src,
              Rr rXOR ovf dst result,
              Rr rAND ovf ovf t,
              Rr rAND ovf ovf t2,
              Rm uSNEZ ovf ovf,
              Rr rXOR t result cy,
              Rr rXOR t2 result result_2,
              Rr rAND t t t2,
              LI t2 sign_mask,
              Rr rAND t t t2,
              Rm uSNEZ t t,
              Rr rOR ovf ovf t] e;
            e \<leftarrow> popScratch e;
            popScratch e
          }) e;
     e \<leftarrow> emit_if (needs_flag V X86_REF_CF) (\<lambda>e. do {
            (t, e) \<leftarrow> scratch e;
            (cy, e) \<leftarrow> flag X86_REF_CF e;
            e \<leftarrow> zext V t result sz e;
            let e = emits [Rr rSLTU t t cy] e;
            e \<leftarrow> (if is_imm op1 \<and> sz \<noteq> X86_SIZE_QWORD then do {
                    e \<leftarrow> zext V cy src sz e;
                    Some (emits [Rr rSLTU cy dst cy] e)
                  } else Some (emits [Rr rSLTU cy dst src] e));
            popScratch (emits [Rr rOR cy cy t] e)
          }) e;
     e \<leftarrow> emit_if (needs_flag V X86_REF_ZF) (updateZero V result_2 sz) e;
     e \<leftarrow> emit_if (needs_flag V X86_REF_SF) (updateSign result_2 sz) e;
     setGPR V (Operand 0) op0 result_2 e
   }"

definition fast_ADC :: "env \<Rightarrow> operand \<Rightarrow> operand \<Rightarrow> emitter \<Rightarrow> emitter option" where
  "fast_ADC V op0 op1 e = do {
     (result, e) \<leftarrow> scratch e;
     (result_2, e) \<leftarrow> scratch e;
     (src, e) \<leftarrow> getGPR V (Operand 1) op1 e;
     (dst, e) \<leftarrow> getGPR V (Operand 0) op0 e;
     (cy, e) \<leftarrow> flag X86_REF_CF e;
     sz \<leftarrow> getSize op0;
     let e = emits [Rr rADD result dst src, Rr rADD result_2 result cy] e;
     e \<leftarrow> emit_if (needs_flag V X86_REF_PF) (updateParity V result_2) e;
     e \<leftarrow> emit_if (needs_flag V X86_REF_AF) (updateAuxiliaryAdc dst result cy result_2) e;
     e \<leftarrow> emit_if (needs_flag V X86_REF_OF) (updateOverflowAdd dst src result_2 sz) e;
     e \<leftarrow> emit_if (needs_flag V X86_REF_CF) (updateCarryAdc V dst result result_2 sz) e;
     e \<leftarrow> emit_if (needs_flag V X86_REF_ZF) (updateZero V result_2 sz) e;
     e \<leftarrow> emit_if (needs_flag V X86_REF_SF) (updateSign result_2 sz) e;
     setGPR V (Operand 0) op0 result_2 e
   }"

definition fast_CMP :: "env \<Rightarrow> operand \<Rightarrow> operand \<Rightarrow> emitter \<Rightarrow> emitter option" where
  "fast_CMP V op0 op1 e = (
     if \<not> (needs_any V \<or> needs_flag V X86_REF_AF) then Some e
     else do {
       (result, e) \<leftarrow> scratch e;
       (src, e) \<leftarrow> getGPR V (Operand 1) op1 e;
       (dst, e) \<leftarrow> getGPR V (Operand 0) op0 e;
       let e = emits [Rr rSUB result dst src] e;
       sz \<leftarrow> getSize op0;
       SetCmpFlags V dst src result sz (is_imm op1 \<and> sz \<noteq> X86_SIZE_QWORD) False e
     })"

section \<open>Logic\<close>

text \<open>The common part of \<^verbatim>\<open>OR\<close>, \<^verbatim>\<open>XOR\<close> and \<^verbatim>\<open>AND\<close> after the operands are combined.\<close>

definition logic_flags :: "env \<Rightarrow> reg \<Rightarrow> x86_size \<Rightarrow> emitter \<Rightarrow> emitter option" where
  "logic_flags V result sz e = do {
     e \<leftarrow> emit_if (needs_flag V X86_REF_CF) (clearFlag X86_REF_CF) e;
     e \<leftarrow> emit_if (needs_flag V X86_REF_PF) (updateParity V result) e;
     e \<leftarrow> emit_if (needs_flag V X86_REF_ZF) (updateZero V result sz) e;
     e \<leftarrow> emit_if (needs_flag V X86_REF_SF) (updateSign result sz) e;
     emit_if (needs_flag V X86_REF_OF) (clearFlag X86_REF_OF) e
   }"

definition fast_OR :: "env \<Rightarrow> operand \<Rightarrow> operand \<Rightarrow> emitter \<Rightarrow> emitter option" where
  "fast_OR V op0 op1 e = (
     let atomic = (locked V op0 \<and> \<not> too_small_for_atomic op0) in
     if ext_B V \<and> noflag_opts V \<and> \<not> needs_any V \<and> is_reg op0
     then OP_noflags_destreg V op0 op1 rOR rOR e
     else do {
       (result, e) \<leftarrow> scratch e;
       (src, e) \<leftarrow> getGPR V (Operand 1) op1 e;
       e \<leftarrow> (if atomic then do {
           (address, e) \<leftarrow> lea V (Operand 0) op0 True e;
           (dst, e) \<leftarrow> scratch e;
           let e = emits (amo_code amoOR (operand_size op0) dst src address) e;
           Some (if needs_any V \<or> \<not> noflag_opts V then emits [Rr rOR result dst src] e else e)
         } else do {
           (dst, e) \<leftarrow> getGPR V (Operand 0) op0 e;
           Some (emits [Rr rOR result dst src] e)
         });
       sz \<leftarrow> getSize op0;
       e \<leftarrow> logic_flags V result sz e;
       emit_if (\<not> atomic) (setGPR V (Operand 0) op0 result) e
     })"

definition fast_XOR :: "env \<Rightarrow> operand \<Rightarrow> operand \<Rightarrow> emitter \<Rightarrow> emitter option" where
  "fast_XOR V op0 op1 e = do {
     sz \<leftarrow> getSize op0;
     (if (sz = X86_SIZE_DWORD \<or> sz = X86_SIZE_QWORD) \<and> is_reg op0 \<and> op0 = op1 then do {
        ref \<leftarrow> zydisToRef (reg_value V op0);
        e \<leftarrow> setGPR_ref V ref X86_SIZE_QWORD 0 e;
        e \<leftarrow> emit_if (needs_flag V X86_REF_CF) (clearFlag X86_REF_CF) e;
        e \<leftarrow> emit_if (needs_flag V X86_REF_PF) (\<lambda>e. do {
               (p, e) \<leftarrow> scratch e;
               popScratch (emits [LI p 1, St 1 p off_pf threadStatePointer] e)
             }) e;
        e \<leftarrow> emit_if (needs_flag V X86_REF_ZF) (setFlag X86_REF_ZF) e;
        e \<leftarrow> emit_if (needs_flag V X86_REF_SF) (\<lambda>e. do {
               (s, e) \<leftarrow> flag X86_REF_SF e;
               Some (emits [Rm uMV s 0] e)
             }) e;
        emit_if (needs_flag V X86_REF_OF) (clearFlag X86_REF_OF) e
      } else if ext_B V \<and> noflag_opts V \<and> \<not> needs_any V \<and> is_reg op0
      then OP_noflags_destreg V op0 op1 rXOR rXOR e
      else let atomic = (locked V op0 \<and> \<not> too_small_for_atomic op0) in do {
        (result, e) \<leftarrow> scratch e;
        (src, e) \<leftarrow> getGPR V (Operand 1) op1 e;
        e \<leftarrow> (if atomic then do {
            (dst, e) \<leftarrow> scratch e;
            (address, e) \<leftarrow> lea V (Operand 0) op0 True e;
            e \<leftarrow> (if sz = X86_SIZE_DWORD then Some (emits [AMO amoXOR 4 dst src address] e)
                  else if sz = X86_SIZE_QWORD then Some (emits [AMO amoXOR 8 dst src address] e)
                  else None);
            Some (if needs_any V \<or> \<not> noflag_opts V then emits [Rr rXOR result dst src] e else e)
          } else do {
            (dst, e) \<leftarrow> getGPR V (Operand 0) op0 e;
            Some (emits [Rr rXOR result dst src] e)
          });
        e \<leftarrow> logic_flags V result sz e;
        emit_if (\<not> atomic) (setGPR V (Operand 0) op0 result) e
      })
   }"

definition fast_AND :: "env \<Rightarrow> operand \<Rightarrow> operand \<Rightarrow> emitter \<Rightarrow> emitter option" where
  "fast_AND V op0 op1 e = (
     let atomic = (locked V op0 \<and> \<not> too_small_for_atomic op0) in do {
       (result, e) \<leftarrow> scratch e;
       (src, e) \<leftarrow> getGPR V (Operand 1) op1 e;
       e \<leftarrow> (if atomic then do {
           (address, e) \<leftarrow> lea V (Operand 0) op0 True e;
           (dst, e) \<leftarrow> scratch e;
           Some (emits (amo_code amoAND (operand_size op0) dst src address @ [Rr rAND result dst src]) e)
         } else do {
           (dst, e) \<leftarrow> getGPR V (Operand 0) op0 e;
           Some (emits [Rr rAND result dst src] e)
         });
       sz \<leftarrow> getSize op0;
       e \<leftarrow> logic_flags V result sz e;
       emit_if (\<not> atomic) (setGPR V (Operand 0) op0 result) e
     })"

text \<open>\<^verbatim>\<open>needs_cf\<close> is initialised from the request for OF and \<^verbatim>\<open>needs_of\<close> from the request for CF.\<close>

definition fast_TEST :: "env \<Rightarrow> operand \<Rightarrow> operand \<Rightarrow> emitter \<Rightarrow> emitter option" where
  "fast_TEST V op0 op1 e = (
     let needs_cf = needs_flag V X86_REF_OF; needs_of = needs_flag V X86_REF_CF in
     if \<not> needs_any V then Some e
     else do {
       (result, e) \<leftarrow> scratch e;
       (src, e) \<leftarrow> getGPR V (Operand 1) op1 e;
       (dst, e) \<leftarrow> getGPR V (Operand 0) op0 e;
       let e = emits [Rr rAND result dst src] e;
       sz \<leftarrow> getSize op0;
       e \<leftarrow> emit_if needs_cf (clearFlag X86_REF_CF) e;
       e \<leftarrow> emit_if (needs_flag V X86_REF_PF) (updateParity V result) e;
       e \<leftarrow> emit_if (needs_flag V X86_REF_ZF) (updateZero V result sz) e;
       e \<leftarrow> emit_if (needs_flag V X86_REF_SF) (updateSign result sz) e;
       emit_if needs_of (clearFlag X86_REF_OF) e
     })"

definition fast_NOT :: "env \<Rightarrow> operand \<Rightarrow> emitter \<Rightarrow> emitter option" where
  "fast_NOT V op0 e = do {
     (result, e) \<leftarrow> scratch e;
     (dst, e) \<leftarrow> getGPR V (Operand 0) op0 e;
     setGPR V (Operand 0) op0 result (emits [Rm uNOT result dst] e)
   }"

section \<open>Increment, decrement, negation\<close>

definition locked_step :: "env \<Rightarrow> operand \<Rightarrow> u64 \<Rightarrow> emitter \<Rightarrow> (reg \<times> emitter) option" where
  "locked_step V op0 delta e = do {
     (address, e) \<leftarrow> lea V (Operand 0) op0 True e;
     (one, e) \<leftarrow> scratch e;
     (dst, e) \<leftarrow> scratch e;
     let e = emits [LI one delta] e;
     e \<leftarrow> (if operand_size op0 = 32 then Some (emits [AMO amoADD 4 dst one address] e)
           else if operand_size op0 = 64 then Some (emits [AMO amoADD 8 dst one address] e)
           else None);
     Some (dst, e)
   }"

definition fast_INC :: "env \<Rightarrow> operand \<Rightarrow> emitter \<Rightarrow> emitter option" where
  "fast_INC V op0 e = do {
     sz \<leftarrow> getSize op0;
     (res, e) \<leftarrow> scratch e;
     let atomic = (locked V op0 \<and> \<not> too_small_for_atomic op0);
     (dst, e) \<leftarrow> (if atomic then locked_step V op0 1 e else getGPR V (Operand 0) op0 e);
     let e = emits [Ri iADDI res dst 1] e;
     e \<leftarrow> emit_if (needs_flag V X86_REF_AF) (updateAuxiliaryAdd dst res) e;
     e \<leftarrow> emit_if (needs_flag V X86_REF_OF) (\<lambda>e. do {
            (one, e) \<leftarrow> scratch e;
            e \<leftarrow> updateOverflowAdd dst one res sz (emits [LI one 1] e);
            popScratch e
          }) e;
     e \<leftarrow> emit_if (needs_flag V X86_REF_PF) (updateParity V res) e;
     e \<leftarrow> emit_if (needs_flag V X86_REF_ZF) (updateZero V res sz) e;
     e \<leftarrow> emit_if (needs_flag V X86_REF_SF) (updateSign res sz) e;
     emit_if (\<not> atomic) (setGPR V (Operand 0) op0 res) e
   }"

definition fast_DEC :: "env \<Rightarrow> operand \<Rightarrow> emitter \<Rightarrow> emitter option" where
  "fast_DEC V op0 e = do {
     sz \<leftarrow> getSize op0;
     (res, e) \<leftarrow> scratch e;
     let atomic = (locked V op0 \<and> \<not> too_small_for_atomic op0);
     (dst, e) \<leftarrow> (if atomic then locked_step V op0 (- 1) e else getGPR V (Operand 0) op0 e);
     let e = emits [Ri iADDI res dst (- 1)] e;
     e \<leftarrow> emit_if (needs_flag V X86_REF_AF) (\<lambda>e. do {
            (one, e) \<leftarrow> scratch e;
            e \<leftarrow> updateAuxiliarySub dst one (emits [LI one 1] e);
            popScratch e
          }) e;
     e \<leftarrow> emit_if (needs_flag V X86_REF_OF) (\<lambda>e. do {
            (one, e) \<leftarrow> scratch e;
            e \<leftarrow> updateOverflowSub dst one res sz (emits [LI one 1] e);
            popScratch e
          }) e;
     e \<leftarrow> emit_if (needs_flag V X86_REF_PF) (updateParity V res) e;
     e \<leftarrow> emit_if (needs_flag V X86_REF_ZF) (updateZero V res sz) e;
     e \<leftarrow> emit_if (needs_flag V X86_REF_SF) (updateSign res sz) e;
     emit_if (\<not> atomic) (setGPR V (Operand 0) op0 res) e
   }"

definition fast_NEG :: "env \<Rightarrow> operand \<Rightarrow> emitter \<Rightarrow> emitter option" where
  "fast_NEG V op0 e = do {
     sz \<leftarrow> getSize op0;
     (result, e) \<leftarrow> scratch e;
     (dst, e) \<leftarrow> getGPR V (Operand 0) op0 e;
     e \<leftarrow> (if sz = X86_SIZE_BYTE \<or> sz = X86_SIZE_BYTE_HIGH then
             Some (emits [Rm uNEG result result] (sextb V result dst e))
           else if sz = X86_SIZE_WORD then Some (emits [Rm uNEG result result] (sexth V result dst e))
           else if sz = X86_SIZE_DWORD then Some (emits [Rr rSUBW result 0 dst] e)
           else if sz = X86_SIZE_QWORD then Some (emits [Rm uNEG result dst] e)
           else None);
     e \<leftarrow> emit_if (needs_flag V X86_REF_CF) (\<lambda>e. do {
            (cy, e) \<leftarrow> flag X86_REF_CF e;
            Some (emits [Rm uSNEZ cy dst] e)
          }) e;
     e \<leftarrow> emit_if (needs_flag V X86_REF_ZF) (updateZero V result sz) e;
     e \<leftarrow> emit_if (needs_flag V X86_REF_OF) (updateOverflowSub 0 dst result sz) e;
     e \<leftarrow> emit_if (needs_flag V X86_REF_SF) (updateSign result sz) e;
     e \<leftarrow> emit_if (needs_flag V X86_REF_AF) (\<lambda>e. do {
            (a, e) \<leftarrow> scratch e;
            popScratch (emits [Ri iANDI a dst 0xF, Rm uSNEZ a a, St 1 a off_af threadStatePointer] e)
          }) e;
     e \<leftarrow> emit_if (needs_flag V X86_REF_PF) (updateParity V result) e;
     setGPR V (Operand 0) op0 result e
   }"

section \<open>Shifts by a constant\<close>

definition shift_count :: "env \<Rightarrow> u64 \<Rightarrow> nat" where
  "shift_count V imm = unat (imm AND (if operand_width (current_instruction V) = 64 then 0x3F else 0x1F))"

text \<open>A shift by zero only normalises a 32-bit register.\<close>

definition shift_zero :: "env \<Rightarrow> operand \<Rightarrow> reg \<Rightarrow> emitter \<Rightarrow> emitter option" where
  "shift_zero V op0 dst e = (
     if operand_size op0 = 32 \<and> is_reg op0 then do {
       ref \<leftarrow> zydisToRef (reg_value V op0);
       setGPR_ref V ref X86_SIZE_QWORD dst e
     } else Some e)"

definition fast_SHL_imm :: "env \<Rightarrow> operand \<Rightarrow> operand \<Rightarrow> emitter \<Rightarrow> emitter option" where
  "fast_SHL_imm V op0 op1 e = do {
     sz \<leftarrow> getSize op0;
     (result, e) \<leftarrow> scratch e;
     (dst, e) \<leftarrow> getGPR V (Operand 0) op0 e;
     imm \<leftarrow> getImmediate op1;
     n \<leftarrow> getBitSize sz;
     let sh = shift_count V imm;
     let needs_of = (needs_flag V X86_REF_OF \<and> sh = 1);
     let needs_any_flag = (needs_flag V X86_REF_CF \<or> needs_of \<or> needs_flag V X86_REF_PF
           \<or> needs_flag V X86_REF_SF \<or> needs_flag V X86_REF_ZF);
     let result = (if \<not> needs_any_flag \<and> operand_size op0 = 64 \<and> noflag_opts V then dst else result);
     (if sh \<noteq> 0 then do {
        let e = emits [Sh sSLLI result dst sh] e;
        e \<leftarrow> emit_if (needs_flag V X86_REF_PF) (updateParity V result) e;
        e \<leftarrow> emit_if (needs_flag V X86_REF_ZF) (updateZero V result sz) e;
        e \<leftarrow> emit_if (needs_flag V X86_REF_SF) (updateSign result sz) e;
        e \<leftarrow> emit_if (needs_flag V X86_REF_CF) (\<lambda>e. do {
               (cy, e) \<leftarrow> flag X86_REF_CF e;
               Some (emits [Sh sSRLI cy dst (nat ((int n - int sh) mod 64)), Ri iANDI cy cy 1] e)
             }) e;
        e \<leftarrow> emit_if needs_of (\<lambda>e. do {
               (ovf, e) \<leftarrow> flag X86_REF_OF e;
               (cy, e) \<leftarrow> flag X86_REF_CF e;
               Some (emits [Sh sSRLI ovf dst (n - 1), Ri iANDI ovf ovf 1, Rr rXOR ovf ovf cy] e)
             }) e;
        setGPR V (Operand 0) op0 result e
      } else shift_zero V op0 dst e)
   }"

definition fast_SHR_imm :: "env \<Rightarrow> operand \<Rightarrow> operand \<Rightarrow> emitter \<Rightarrow> emitter option" where
  "fast_SHR_imm V op0 op1 e = do {
     sz \<leftarrow> getSize op0;
     (result, e) \<leftarrow> scratch e;
     (dst, e) \<leftarrow> getGPR V (Operand 0) op0 e;
     imm \<leftarrow> getImmediate op1;
     let sh = shift_count V imm;
     (if sh \<noteq> 0 then do {
        let e = emits [Sh sSRLI result dst sh] e;
        e \<leftarrow> emit_if (needs_flag V X86_REF_PF) (updateParity V result) e;
        e \<leftarrow> emit_if (needs_flag V X86_REF_ZF) (updateZero V result sz) e;
        e \<leftarrow> emit_if (needs_flag V X86_REF_SF) (updateSign result sz) e;
        e \<leftarrow> emit_if (needs_flag V X86_REF_CF) (\<lambda>e. do {
               (cy, e) \<leftarrow> flag X86_REF_CF e;
               Some (emits [Sh sSRLI cy dst (sh - 1), Ri iANDI cy cy 1] e)
             }) e;
        e \<leftarrow> emit_if (needs_flag V X86_REF_OF \<and> sh = 1) (\<lambda>e. do {
               (ovf, e) \<leftarrow> flag X86_REF_OF e;
               n \<leftarrow> getBitSize sz;
               Some (emits [Sh sSRLI ovf dst (n - 1), Ri iANDI ovf ovf 1] e)
             }) e;
        setGPR V (Operand 0) op0 result e
      } else shift_zero V op0 dst e)
   }"

definition fast_SAR_imm :: "env \<Rightarrow> operand \<Rightarrow> operand \<Rightarrow> emitter \<Rightarrow> emitter option" where
  "fast_SAR_imm V op0 op1 e = do {
     sz \<leftarrow> getSize op0;
     (result, e) \<leftarrow> scratch e;
     (dst, e) \<leftarrow> getGPR V (Operand 0) op0 e;
     imm \<leftarrow> getImmediate op1;
     let sh = shift_count V imm;
     (if sh \<noteq> 0 then do {
        c \<leftarrow> (case sz of
            X86_SIZE_BYTE \<Rightarrow> Some [Sh sSLLI result dst 56, Sh sSRAI result result (if sh + 56 < 64 then 56 + sh else 63)]
          | X86_SIZE_BYTE_HIGH \<Rightarrow> Some [Sh sSLLI result dst 56, Sh sSRAI result result (if sh + 56 < 64 then 56 + sh else 63)]
          | X86_SIZE_WORD \<Rightarrow> Some [Sh sSLLI result dst 48, Sh sSRAI result result (if sh + 48 < 64 then 48 + sh else 63)]
          | X86_SIZE_DWORD \<Rightarrow> Some [Sh sSRAIW result dst sh]
          | X86_SIZE_QWORD \<Rightarrow> Some [Sh sSRAI result dst sh]
          | _ \<Rightarrow> None);
        let e = emits c e;
        e \<leftarrow> emit_if (needs_flag V X86_REF_PF) (updateParity V result) e;
        e \<leftarrow> emit_if (needs_flag V X86_REF_ZF) (updateZero V result sz) e;
        e \<leftarrow> emit_if (needs_flag V X86_REF_SF) (updateSign result sz) e;
        e \<leftarrow> emit_if (needs_flag V X86_REF_CF) (\<lambda>e. do {
               (cy, e) \<leftarrow> flag X86_REF_CF e;
               Some (emits [Sh sSRLI cy dst (sh - 1), Ri iANDI cy cy 1] e)
             }) e;
        e \<leftarrow> emit_if (needs_flag V X86_REF_OF) (\<lambda>e. do {
               (ovf, e) \<leftarrow> flag X86_REF_OF e;
               Some (emits [Rm uMV ovf 0] e)
             }) e;
        setGPR V (Operand 0) op0 result e
      } else shift_zero V op0 dst e)
   }"

end
