(* ===== verification/HandlersSpec.thy ===== *)
theory HandlersSpec
  imports GuestSim Handlers
begin

text \<open>
  Correctness of the integer handlers: the emitted code simulates the x86 instruction.
  Assertions about the machine between two helper calls name the guest state reached so far,
  which flags are represented, and the host registers that hold operands and results.
\<close>

section \<open>Assertions between helper calls\<close>

text \<open>The auxiliary data of an assertion: address of the thread state, live flags and guest
  state at the start of the instruction.\<close>

type_synonym start = "u64 \<times> x86_ref set \<times> x86"

type_synonym pins = "(reg \<times> (x86 \<Rightarrow> u64)) list"

definition pinned :: "pins \<Rightarrow> x86 \<Rightarrow> machine \<Rightarrow> bool" where
  "pinned ps s m \<longleftrightarrow> (\<forall>r v. (r, v) \<in> set ps \<longrightarrow> rget m r = v s)"

definition avoids :: "reg set \<Rightarrow> pins \<Rightarrow> bool" where
  "avoids S ps \<longleftrightarrow> (\<forall>r v. (r, v) \<in> set ps \<longrightarrow> r \<notin> S)"

definition holds :: "env \<Rightarrow> pins \<Rightarrow> (x86_ref set \<Rightarrow> x86_ref set) \<Rightarrow> (x86 \<Rightarrow> x86) \<Rightarrow> start \<Rightarrow> machine \<Rightarrow> bool" where
  "holds V ps live now x m \<longleftrightarrow> (case x of (tsp, L, s) \<Rightarrow>
     sim V tsp (live L) m (now s) \<and> pinned ps s m)"

text \<open>\<open>triple e f P Q\<close>: \<open>f\<close> succeeds on \<open>e\<close> and only appends straight-line code that takes every
  machine with \<open>P\<close> to one with \<open>Q\<close>, for the same auxiliary data.\<close>

definition triple :: "emitter \<Rightarrow> (emitter \<Rightarrow> emitter option) \<Rightarrow> (start \<Rightarrow> machine \<Rightarrow> bool)
    \<Rightarrow> (start \<Rightarrow> machine \<Rightarrow> bool) \<Rightarrow> bool" where
  "triple e f P Q \<longleftrightarrow> (\<exists>c. f e = Some (emits c e) \<and> list_all straight c
     \<and> (\<forall>x m. P x m \<longrightarrow> Q x (exec c m)))"

lemma tripleI:
  "f e = Some (emits c e) \<Longrightarrow> list_all straight c \<Longrightarrow> (\<And>x m. P x m \<Longrightarrow> Q x (exec c m)) \<Longrightarrow> triple e f P Q"
  by (auto simp: triple_def)

lemma triple_seq:
  assumes "triple e f P Q" and "\<And>c. triple (emits c e) g Q R"
  shows "triple e (\<lambda>e. f e \<bind> g) P R"
proof -
  obtain c where c: "f e = Some (emits c e)" "list_all straight c" "\<And>x m. P x m \<Longrightarrow> Q x (exec c m)"
    using assms(1) unfolding triple_def by blast
  obtain d where d: "g (emits c e) = Some (emits d (emits c e))" "list_all straight d"
    "\<And>x m. Q x m \<Longrightarrow> R x (exec d m)"
    using assms(2) [of c] unfolding triple_def by blast
  show ?thesis
    using c d by (intro tripleI [where c = "c @ d"]) (auto simp: exec_append)
qed

lemma triple_post: "triple e f P Q \<Longrightarrow> (\<And>x m. Q x m \<Longrightarrow> R x m) \<Longrightarrow> triple e f P R"
  unfolding triple_def by blast

lemma triple_gen:
  "gen f e E \<Longrightarrow> (\<And>x m m'. P x m \<Longrightarrow> E m m' \<Longrightarrow> Q x m') \<Longrightarrow> triple e f P Q"
  unfolding gen_def triple_def by blast

section \<open>Flag steps\<close>

text \<open>\<open>upd n f\<close>: the represented flags after flag \<open>f\<close> has been computed if requested.\<close>

definition upd :: "bool \<Rightarrow> x86_ref \<Rightarrow> x86_ref set \<Rightarrow> x86_ref set" where
  "upd n f L = (if n then insert f L else L - {f})"

lemma holds_dead:
  "holds V ps live now x m \<Longrightarrow> holds V ps (\<lambda>L. upd False f (live L)) (\<lambda>s. set_flag f (v s) (now s)) x m"
  by (auto simp: holds_def upd_def sim_dead split: prod.splits)

lemma triple_flag:
  assumes "triple e g (holds V ps live now) (holds V ps (\<lambda>L. upd True f (live L)) (\<lambda>s. set_flag f (v s) (now s)))"
  shows "triple e (emit_if n g) (holds V ps live now)
    (holds V ps (\<lambda>L. upd n f (live L)) (\<lambda>s. set_flag f (v s) (now s)))"
proof (cases n)
  case True
  then show ?thesis using assms by (simp add: emit_if_def triple_def)
next
  case False
  then show ?thesis
    by (intro tripleI [where c = "[]"]) (simp_all add: emit_if_def exec_Nil holds_dead)
qed

abbreviation after :: "env \<Rightarrow> pins \<Rightarrow> (x86_ref set \<Rightarrow> x86_ref set) \<Rightarrow> (x86 \<Rightarrow> x86) \<Rightarrow> bool \<Rightarrow> x86_ref
    \<Rightarrow> (x86 \<Rightarrow> bool) \<Rightarrow> start \<Rightarrow> machine \<Rightarrow> bool" where
  "after V ps live now n f v \<equiv> holds V ps (\<lambda>L. upd n f (live L)) (\<lambda>s. set_flag f (v s) (now s))"

lemma pinnedD: "pinned ps s m \<Longrightarrow> (r, v) \<in> set ps \<Longrightarrow> rget m r = v s"
  by (auto simp: pinned_def)

lemma holds_iff: "holds V ps live now (tsp, L, s) m \<longleftrightarrow> sim V tsp (live L) m (now s) \<and> pinned ps s m"
  by (simp add: holds_def)

lemma holds_cong:
  "holds V ps live now x m \<Longrightarrow> (\<And>L. live L = live' L) \<Longrightarrow> (\<And>s. now s = now' s) \<Longrightarrow> holds V ps live' now' x m"
  by (cases x) (simp add: holds_iff)

lemma avoids_pin: "avoids S ps \<Longrightarrow> (r, v) \<in> set ps \<Longrightarrow> r \<notin> S"
  by (auto simp: avoids_def)

lemma pinned_keeps: "pinned ps s m \<Longrightarrow> keeps S m m' \<Longrightarrow> avoids S ps \<Longrightarrow> pinned ps s m'"
  by (auto simp: pinned_def keeps_def avoids_def)

text \<open>From the effect of a helper to the step it is: one rule for flags in host registers, one
  for flags in the thread state.\<close>

lemma triple_reg_flag:
  assumes g: "gen g e E" and f: "(f, r) \<in> {(X86_REF_CF, 21), (X86_REF_ZF, 23), (X86_REF_SF, 24), (X86_REF_OF, 25)}"
    and a: "avoids (insert r (free e)) ps"
    and E: "\<And>tsp L s m m'. sim V tsp (live L) m (now s) \<Longrightarrow> pinned ps s m \<Longrightarrow> E m m' \<Longrightarrow> sets_reg e r (of_bool (v s)) m m'"
  shows "triple e (emit_if n g) (holds V ps live now) (after V ps live now n f v)"
proof (rule triple_flag, rule triple_gen [OF g])
  fix x m m' assume h: "holds V ps live now x m" and e: "E m m'"
  obtain tsp L s where x: "x = (tsp, L, s)" by (cases x)
  have s: "sets_reg e r (of_bool (v s)) m m'" using h e unfolding x holds_iff by (blast intro: E)
  show "after V ps live now True f v x m'"
    using sim_sets_reg [OF _ s f] pinned_keeps [OF _ _ a] h s
    unfolding x holds_iff upd_def sets_reg_def by auto
qed

lemma triple_byte_flag:
  assumes g: "gen g e E" and f: "(f, off) \<in> {(X86_REF_PF, off_pf), (X86_REF_AF, off_af)}"
    and a: "avoids (free e) ps"
    and E: "\<And>tsp L s m m'. sim V tsp (live L) m (now s) \<Longrightarrow> pinned ps s m \<Longrightarrow> E m m' \<Longrightarrow> sets_byte e off (v s) m m'"
  shows "triple e (emit_if n g) (holds V ps live now) (after V ps live now n f v)"
proof (rule triple_flag, rule triple_gen [OF g])
  fix x m m' assume h: "holds V ps live now x m" and e: "E m m'"
  obtain tsp L s where x: "x = (tsp, L, s)" by (cases x)
  have s: "sets_byte e off (v s) m m'" using h e unfolding x holds_iff by (blast intro: E)
  show "after V ps live now True f v x m'"
    using sim_sets_byte [OF _ s f] pinned_keeps [OF _ _ a] h s
    unfolding x holds_iff upd_def sets_byte_def by auto
qed

lemma step_PF:
  assumes i: "Suc (scratch_index e) < 7" and a: "avoids (free e) ps" and r: "(r, R) \<in> set ps"
  shows "triple e (emit_if n (updateParity V r)) (holds V ps live now)
    (after V ps live now n X86_REF_PF (\<lambda>s. x86_pf (R s)))"
  by (rule triple_byte_flag [OF updateParity_gen [OF i avoids_pin [OF a r]] _ a])
     (auto simp: pinnedD [OF _ r])

lemma step_ZF:
  assumes gp: "gp_size sz" and a: "avoids (insert 23 (free e)) ps" and r: "(r, R) \<in> set ps"
  shows "triple e (emit_if n (updateZero V r sz)) (holds V ps live now)
    (after V ps live now n X86_REF_ZF (\<lambda>s. x86_zf (bits sz) (R s)))"
proof (rule triple_reg_flag [OF updateZero_gen [OF gp] _ a])
  fix s m m' assume "pinned ps s m" "sets_reg e 23 (of_bool (x86_zf (bits sz) (rget m r))) m m'"
  then show "sets_reg e 23 (of_bool (x86_zf (bits sz) (R s))) m m'" by (simp add: pinnedD [OF _ r])
qed simp


lemma step_SF:
  assumes gp: "gp_size sz" and a: "avoids (insert 24 (free e)) ps" and r: "(r, R) \<in> set ps"
  shows "triple e (emit_if n (updateSign r sz)) (holds V ps live now)
    (after V ps live now n X86_REF_SF (\<lambda>s. x86_sf (bits sz) (R s)))"
proof (rule triple_reg_flag [OF updateSign_gen [OF gp] _ a])
  fix s m m' assume "pinned ps s m" "sets_reg e 24 (of_bool (x86_sf (bits sz) (rget m r))) m m'"
  then show "sets_reg e 24 (of_bool (x86_sf (bits sz) (R s))) m m'" by (simp add: pinnedD [OF _ r])
qed simp

lemma step_AF_add:
  assumes i: "Suc (scratch_index e) < 7" and av: "avoids (free e) ps"
    and a: "(a, A) \<in> set ps" and r: "(r, R) \<in> set ps" and R: "\<And>s. R s = A s + B s"
  shows "triple e (emit_if n (updateAuxiliaryAdd a r)) (holds V ps live now)
    (after V ps live now n X86_REF_AF (\<lambda>s. x86_af_add (A s) (B s) False))"
proof (rule triple_byte_flag [OF updateAuxiliaryAdd_gen [OF i avoids_pin [OF av a] avoids_pin [OF av r]] _ av])
  fix s m m' assume p: "pinned ps s m"
    and E: "\<forall>b. rget m r = rget m a + b \<longrightarrow> sets_byte e off_af (x86_af_add (rget m a) b False) m m'"
  show "sets_byte e off_af (x86_af_add (A s) (B s) False) m m'"
    using E [rule_format, of "B s"] by (simp add: pinnedD [OF p a] pinnedD [OF p r] R)
qed simp

lemma step_AF_sub:
  assumes i: "Suc (scratch_index e) < 7" and av: "avoids (free e) ps"
    and a: "(a, A) \<in> set ps" and b: "(b, B) \<in> set ps"
  shows "triple e (emit_if n (updateAuxiliarySub a b)) (holds V ps live now)
    (after V ps live now n X86_REF_AF (\<lambda>s. x86_af_sub (A s) (B s) False))"
proof (rule triple_byte_flag [OF updateAuxiliarySub_gen [OF i avoids_pin [OF av a] avoids_pin [OF av b]] _ av])
  fix s m m' assume p: "pinned ps s m"
    and E: "sets_byte e off_af (x86_af_sub (rget m a) (rget m b) False) m m'"
  show "sets_byte e off_af (x86_af_sub (A s) (B s) False) m m'"
    using E by (simp add: pinnedD [OF p a] pinnedD [OF p b])
qed simp

lemma step_OF_add:
  assumes i: "scratch_index e < 7" and gp: "gp_size sz" and av: "avoids (insert 25 (free e)) ps"
    and a: "(a, A) \<in> set ps" and b: "(b, B) \<in> set ps" and r: "(r, R) \<in> set ps"
    and R: "\<And>s. R s = A s + B s + of_bool (C s)"
  shows "triple e (emit_if n (updateOverflowAdd a b r sz)) (holds V ps live now)
    (after V ps live now n X86_REF_OF (\<lambda>s. x86_of_add (bits sz) (A s) (B s) (C s)))"
proof (rule triple_reg_flag [OF updateOverflowAdd_gen [OF i gp avoids_pin [OF av a] avoids_pin [OF av b] avoids_pin [OF av r]] _ av])
  fix s m m' assume p: "pinned ps s m"
    and E: "\<forall>c. rget m r = rget m a + rget m b + of_bool c \<longrightarrow>
      sets_reg e 25 (of_bool (x86_of_add (bits sz) (rget m a) (rget m b) c)) m m'"
  show "sets_reg e 25 (of_bool (x86_of_add (bits sz) (A s) (B s) (C s))) m m'"
    using E [rule_format, of "C s"] by (simp add: pinnedD [OF p a] pinnedD [OF p b] pinnedD [OF p r] R)
qed simp

lemma step_OF_sub:
  assumes i: "scratch_index e < 7" and gp: "gp_size sz" and av: "avoids (insert 25 (free e)) ps"
    and a: "(a, A) \<in> set ps" and b: "(b, B) \<in> set ps" and r: "(r, R) \<in> set ps"
    and R: "\<And>s. R s = A s - B s - of_bool (C s)"
  shows "triple e (emit_if n (updateOverflowSub a b r sz)) (holds V ps live now)
    (after V ps live now n X86_REF_OF (\<lambda>s. x86_of_sub (bits sz) (A s) (B s) (C s)))"
proof (rule triple_reg_flag [OF updateOverflowSub_gen [OF i gp avoids_pin [OF av a] avoids_pin [OF av b] avoids_pin [OF av r]] _ av])
  fix s m m' assume p: "pinned ps s m"
    and E: "\<forall>c. rget m r = rget m a - rget m b - of_bool c \<longrightarrow>
      sets_reg e 25 (of_bool (x86_of_sub (bits sz) (rget m a) (rget m b) c)) m m'"
  show "sets_reg e 25 (of_bool (x86_of_sub (bits sz) (A s) (B s) (C s))) m m'"
    using E [rule_format, of "C s"] by (simp add: pinnedD [OF p a] pinnedD [OF p b] pinnedD [OF p r] R)
qed simp

lemma step_CF_add:
  assumes gp: "gp_size sz" and av: "avoids (insert 21 (free e)) ps"
    and a: "(a, A) \<in> set ps" and r: "(r, R) \<in> set ps"
    and R: "\<And>s. R s = A s + B s" and z: "\<And>s. take_bit (bits sz) (A s) = A s"
  shows "triple e (emit_if n (updateCarryAdd V a r sz)) (holds V ps live now)
    (after V ps live now n X86_REF_CF (\<lambda>s. x86_cf_add (bits sz) (A s) (B s) False))"
proof (rule triple_reg_flag [OF updateCarryAdd_gen [OF gp] _ av])
  show "a \<noteq> 21" using avoids_pin [OF av a] by simp
  fix s m m' assume p: "pinned ps s m"
    and E: "\<forall>b. rget m r = rget m a + b \<and> take_bit (bits sz) (rget m a) = rget m a \<longrightarrow>
      sets_reg e 21 (of_bool (x86_cf_add (bits sz) (rget m a) b False)) m m'"
  show "sets_reg e 21 (of_bool (x86_cf_add (bits sz) (A s) (B s) False)) m m'"
    using E [rule_format, of "B s"] by (simp add: pinnedD [OF p a] pinnedD [OF p r] R z)
qed simp

lemma step_clear:
  "avoids (insert 21 (free e)) ps \<Longrightarrow> triple e (emit_if n (clearFlag X86_REF_CF)) (holds V ps live now)
    (after V ps live now n X86_REF_CF (\<lambda>_. False))"
  "avoids (insert 25 (free e)) ps \<Longrightarrow> triple e (emit_if n (clearFlag X86_REF_OF)) (holds V ps live now)
    (after V ps live now n X86_REF_OF (\<lambda>_. False))"
  by (rule triple_reg_flag [OF clearFlag_gen(1)] triple_reg_flag [OF clearFlag_gen(2)]; simp)+

section \<open>Carry in\<close>

text \<open>The carry flag as an operand: host register 21 holds it while it is represented.\<close>

abbreviation carry_pin :: "reg \<times> (x86 \<Rightarrow> u64)" where
  "carry_pin \<equiv> (21, \<lambda>s. of_bool (xflag s X86_REF_CF))"

lemma step_AF_adc:
  assumes i: "Suc (scratch_index e) < 7" and av: "avoids (free e) ps"
    and a: "(a, A) \<in> set ps" and r: "(r, R) \<in> set ps" and r2: "(r2, R2) \<in> set ps" and c: "carry_pin \<in> set ps"
    and R: "\<And>s. R s = A s + B s" "\<And>s. R2 s = A s + B s + of_bool (xflag s X86_REF_CF)"
  shows "triple e (emit_if n (updateAuxiliaryAdc a r 21 r2)) (holds V ps live now)
    (after V ps live now n X86_REF_AF (\<lambda>s. x86_af_add (A s) (B s) (xflag s X86_REF_CF)))"
proof (rule triple_byte_flag [OF updateAuxiliaryAdc_gen [OF i avoids_pin [OF av a] avoids_pin [OF av r]
      avoids_pin [OF av r2] avoids_pin [OF av c]] _ av])
  fix s m m' assume p: "pinned ps s m"
    and E: "\<forall>b c. rget m r = rget m a + b \<and> rget m 21 = of_bool c \<and> rget m r2 = rget m a + b + of_bool c \<longrightarrow>
      sets_byte e off_af (x86_af_add (rget m a) b c) m m'"
  show "sets_byte e off_af (x86_af_add (A s) (B s) (xflag s X86_REF_CF)) m m'"
    using E [rule_format, of "B s" "xflag s X86_REF_CF"]
    by (simp add: pinnedD [OF p a] pinnedD [OF p r] pinnedD [OF p r2] pinnedD [OF p c] R)
qed simp

lemma step_AF_sbb:
  assumes i: "Suc (scratch_index e) < 7" and av: "avoids (free e) ps"
    and a: "(a, A) \<in> set ps" and b: "(b, B) \<in> set ps" and r: "(r, R) \<in> set ps" and c: "carry_pin \<in> set ps"
    and R: "\<And>s. R s = A s - B s"
  shows "triple e (emit_if n (updateAuxiliarySbb a b r 21)) (holds V ps live now)
    (after V ps live now n X86_REF_AF (\<lambda>s. x86_af_sub (A s) (B s) (xflag s X86_REF_CF)))"
proof (rule triple_byte_flag [OF updateAuxiliarySbb_gen [OF i avoids_pin [OF av a] avoids_pin [OF av b]
      avoids_pin [OF av r] avoids_pin [OF av c]] _ av])
  fix s m m' assume p: "pinned ps s m"
    and E: "\<forall>c. rget m r = rget m a - rget m b \<and> rget m 21 = of_bool c \<longrightarrow>
      sets_byte e off_af (x86_af_sub (rget m a) (rget m b) c) m m'"
  show "sets_byte e off_af (x86_af_sub (A s) (B s) (xflag s X86_REF_CF)) m m'"
    using E [rule_format, of "xflag s X86_REF_CF"]
    by (simp add: pinnedD [OF p a] pinnedD [OF p b] pinnedD [OF p r] pinnedD [OF p c] R)
qed simp

text \<open>Computing the carry consumes the old one: its pin is given up.\<close>

lemma holds_drop: "set qs \<subseteq> set ps \<Longrightarrow> holds V ps live now x m \<Longrightarrow> holds V qs live now x m"
  by (cases x) (auto simp: holds_iff pinned_def)

lemma triple_drop:
  "triple e f (holds V qs live now) Q \<Longrightarrow> set qs \<subseteq> set ps \<Longrightarrow> triple e f (holds V ps live now) Q"
  unfolding triple_def using holds_drop by blast

lemma triple_carry:
  assumes g: "gen g e E" and a: "avoids (insert 21 (free e)) qs" and qs: "set qs \<subseteq> set ps"
    and E: "\<And>s m m'. pinned ps s m \<Longrightarrow> E m m' \<Longrightarrow> sets_reg e 21 (of_bool (v s)) m m'"
  shows "triple e (emit_if n g) (holds V ps live now) (after V qs live now n X86_REF_CF v)"
proof (cases n)
  case False
  then show ?thesis using holds_drop [OF qs] holds_dead
    by (intro tripleI [where c = "[]"]) (auto simp: emit_if_def exec_Nil)
next
  case True
  have "triple e g (holds V ps live now) (after V qs live now True X86_REF_CF v)"
  proof (rule triple_gen [OF g])
    fix x m m' assume h: "holds V ps live now x m" and e: "E m m'"
    obtain tsp L s where x: "x = (tsp, L, s)" by (cases x)
    have s: "sets_reg e 21 (of_bool (v s)) m m'" using h e unfolding x holds_iff by (blast intro: E)
    show "after V qs live now True X86_REF_CF v x m'"
      using sim_sets_reg [OF _ s] pinned_keeps [OF _ _ a] holds_drop [OF qs h] s
      unfolding x holds_iff upd_def sets_reg_def by auto
  qed
  then show ?thesis using True by (simp add: emit_if_def triple_def)
qed

lemma step_CF_adc:
  assumes i: "Suc (scratch_index e) < 7" and gp: "gp_size sz"
    and av: "avoids (insert 21 (free e)) qs" and qs: "ps = carry_pin # qs"
    and a: "(a, A) \<in> set qs" and r: "(r, R) \<in> set qs" and r2: "(r2, R2) \<in> set qs"
    and R: "\<And>s. R s = A s + B s" "\<And>s. R2 s = A s + B s + of_bool (xflag s X86_REF_CF)"
    and z: "\<And>s. take_bit (bits sz) (A s) = A s"
  shows "triple e (emit_if n (updateCarryAdc V a r r2 sz)) (holds V ps live now)
    (after V qs live now n X86_REF_CF (\<lambda>s. x86_cf_add (bits sz) (A s) (B s) (xflag s X86_REF_CF)))"
proof (rule triple_carry [OF updateCarryAdc_gen [OF i gp] av])
  have "a \<notin> insert 21 (free e)" "r \<notin> insert 21 (free e)" "r2 \<notin> insert 21 (free e)"
    by (rule avoids_pin [OF av a] avoids_pin [OF av r] avoids_pin [OF av r2])+
  then show "a \<notin> insert 21 (free e)" "r \<notin> free e" "r2 \<notin> free e" by simp_all
  fix s m m' assume p: "pinned ps s m"
    and E: "\<forall>b c. rget m r = rget m a + b \<and> rget m 21 = of_bool c \<and> rget m r2 = rget m a + b + of_bool c
        \<and> take_bit (bits sz) (rget m a) = rget m a \<longrightarrow>
      sets_reg e 21 (of_bool (x86_cf_add (bits sz) (rget m a) b c)) m m'"
  note pin = pinnedD [OF p, unfolded qs]
  show "sets_reg e 21 (of_bool (x86_cf_add (bits sz) (A s) (B s) (xflag s X86_REF_CF))) m m'"
    using E [rule_format, of "B s" "xflag s X86_REF_CF"] a r r2
    by (simp add: pin [of a A] pin [of r R] pin [of r2 R2] pin [of 21 "\<lambda>s. of_bool (xflag s X86_REF_CF)"] R z)
qed (auto simp: qs)

section \<open>Whole handlers\<close>

text \<open>\<open>compiles e h P Q\<close> is \<open>triple\<close> without the condition that \<open>h\<close> gives all scratch registers
  back.\<close>

definition compiles :: "emitter \<Rightarrow> (emitter \<Rightarrow> emitter option) \<Rightarrow> (start \<Rightarrow> machine \<Rightarrow> bool)
    \<Rightarrow> (start \<Rightarrow> machine \<Rightarrow> bool) \<Rightarrow> bool" where
  "compiles e h P Q \<longleftrightarrow> (\<exists>c e'. h e = Some e' \<and> code e' = code e @ c \<and> list_all straight c
     \<and> (\<forall>x m. P x m \<longrightarrow> Q x (exec c m)))"

lemma comp_triple: "triple e f P Q \<Longrightarrow> compiles e f P Q"
  unfolding triple_def compiles_def by fastforce

lemma comp_seq:
  assumes "triple e f P Q" and "\<And>c. compiles (emits c e) g Q R"
  shows "compiles e (\<lambda>e. f e \<bind> g) P R"
proof -
  obtain c where c: "f e = Some (emits c e)" "list_all straight c" "\<And>x m. P x m \<Longrightarrow> Q x (exec c m)"
    using assms(1) unfolding triple_def by blast
  obtain d e' where d: "g (emits c e) = Some e'" "code e' = code (emits c e) @ d" "list_all straight d"
    "\<And>x m. Q x m \<Longrightarrow> R x (exec d m)"
    using assms(2) [of c] unfolding compiles_def by blast
  show ?thesis
    unfolding compiles_def by (rule exI [of _ "c @ d"], rule exI [of _ e']) (use c d in \<open>simp add: exec_append\<close>)
qed

lemma comp_mono: "compiles e h P Q \<Longrightarrow> (\<And>x m. Q x m \<Longrightarrow> R x m) \<Longrightarrow> compiles e h P R"
  unfolding compiles_def by blast

lemma comp_scratch:
  assumes "scratch_index e < 7" "compiles (advance 1 e) (g (scratch_gprs ! scratch_index e)) P Q"
  shows "compiles e (\<lambda>e. scratch e \<bind> (\<lambda>(r, e). g r e)) P Q"
  using assms by (simp add: compiles_def scratch_advance del: scratch_next)

text \<open>Registers that can hold operands, and the pins that survive helper calls when the first
  \<open>i\<close> scratch registers are taken.\<close>

definition safe :: "nat \<Rightarrow> pins \<Rightarrow> bool" where
  "safe i ps \<longleftrightarrow> (\<forall>r v. (r, v) \<in> set ps \<longrightarrow> r \<notin> set (drop i scratch_gprs) \<and> r \<in> scratches \<union> set gpr_alloc)"

lemma safe_avoids:
  assumes "safe (scratch_index e) ps"
  shows "avoids (free e) ps" "f \<in> {21, 23, 24, 25} \<Longrightarrow> avoids (insert f (free e)) ps"
proof -
  have "f \<notin> scratches \<union> set gpr_alloc" if "f \<in> {21, 23, 24, 25}" for f
    using that by (auto simp: gpr_alloc_def)
  then show "avoids (free e) ps" "f \<in> {21, 23, 24, 25} \<Longrightarrow> avoids (insert f (free e)) ps"
    using assms unfolding safe_def avoids_def free_def by blast+
qed

lemma safe_mono: "safe i ps \<Longrightarrow> i \<le> j \<Longrightarrow> safe j ps"
  using set_drop_subset_set_drop [of i j scratch_gprs] unfolding safe_def by blast

lemma safe_Cons: "safe i ((r, v) # ps) \<longleftrightarrow> r \<notin> set (drop i scratch_gprs) \<and> r \<in> scratches \<union> set gpr_alloc \<and> safe i ps"
  by (auto simp: safe_def)

lemma safe_Nil [simp]: "safe i []"
  by (simp add: safe_def)

lemma safe_scratch: "i < 7 \<Longrightarrow> i < j \<Longrightarrow> safe j ps \<Longrightarrow> safe j ((scratch_gprs ! i, v) # ps)"
  using scratch_gprs_less [of i] by (auto simp: safe_Cons in_set_conv_nth scratch_distinct)

text \<open>Reading an operand at the start of an instruction.\<close>

lemma comp_reads:
  assumes r: "reads V f e val r k" and ps: "safe (scratch_index e) ps"
    and g: "\<And>c. safe (scratch_index e + k) ((r, val) # ps) \<Longrightarrow> r \<in> free e \<or> r \<in> set gpr_alloc \<Longrightarrow>
      compiles (advance k (emits c e)) (g r) (holds V ((r, val) # ps) (\<lambda>L. L) (\<lambda>s. s)) Q"
  shows "compiles e (\<lambda>e. f e \<bind> (\<lambda>(r, e). g r e)) (holds V ps (\<lambda>L. L) (\<lambda>s. s)) Q"
proof -
  obtain c where c: "f e = Some (r, emits c (advance k e))" "list_all straight c" "r \<notin> free (advance k e)"
    "r \<in> free e \<or> r \<in> set gpr_alloc" "\<And>m. keeps (free e) m (exec c m)" "\<And>m. mem (exec c m) = mem m"
    "\<And>tsp L m s. sim V tsp L m s \<Longrightarrow> rget (exec c m) r = val s"
    using r unfolding reads_def by blast
  have "safe (scratch_index e + k) ((r, val) # ps)"
    using c(3,4) free_scratches [of e] safe_mono [OF ps] by (auto simp: safe_Cons free_def)
  from g [OF this c(4), of c] obtain d e' where d: "g r (advance k (emits c e)) = Some e'"
    "code e' = code e @ c @ d" "list_all straight d"
    "\<And>x m. holds V ((r, val) # ps) (\<lambda>L. L) (\<lambda>s. s) x m \<Longrightarrow> Q x (exec d m)"
    unfolding compiles_def by auto
  have "holds V ((r, val) # ps) (\<lambda>L. L) (\<lambda>s. s) x (exec c m)" if "holds V ps (\<lambda>L. L) (\<lambda>s. s) x m" for x m
    using that sim_keeps [OF _ c(5,6)] c(7) pinned_keeps [OF _ c(5) safe_avoids(1) [OF ps]]
    by (cases x) (auto simp: holds_iff pinned_def)
  then show ?thesis
    unfolding compiles_def
    by (intro exI [of _ "c @ d"] exI [of _ e']) (use c(1,2) d in \<open>simp add: exec_append\<close>)
qed

text \<open>Computing a result into a register that holds nothing yet.\<close>

lemma triple_result:
  assumes c: "list_all straight c" and r: "\<And>m. exec c m = rset r (v m) m" "r \<in> scratches"
    and ps: "avoids {r} ps" and v: "\<And>tsp L s m. sim V tsp (live L) m (now s) \<Longrightarrow> pinned ps s m \<Longrightarrow> v m = val s"
  shows "triple e (\<lambda>e. Some (emits c e)) (holds V ps live now) (holds V ((r, val) # ps) live now)"
proof (rule tripleI [OF refl c])
  fix x m assume h: "holds V ps live now x m"
  obtain tsp L s where x: "x = (tsp, L, s)" by (cases x)
  have "keeps scratches m (exec c m)" "mem (exec c m) = mem m"
    using r by (simp_all add: keeps_rset)
  then have "sim V tsp (live L) (exec c m) (now s)"
    using sim_keeps [of V tsp "live L" m "now s" "\<lparr>code = [], scratch_index = 0, cached_lea = 0, cached_lea_operand = None\<rparr>"] h
    unfolding x holds_iff by (auto simp: free_def scratch_gprs_def insert_commute)
  moreover have "pinned ps s (exec c m)" "rget (exec c m) r = val s"
    using h v ps r(2) unfolding x holds_iff r(1) by (auto simp: pinned_def avoids_def)
  ultimately show "holds V ((r, val) # ps) live now x (exec c m)"
    unfolding x holds_iff by (auto simp: pinned_def)
qed

text \<open>Both operands of a two-operand instruction, the destination last.\<close>

lemma free_taken: "r \<in> free e \<or> r \<in> set gpr_alloc \<Longrightarrow> r \<notin> set (take (scratch_index e) scratch_gprs)"
proof
  assume r: "r \<in> free e \<or> r \<in> set gpr_alloc" and t: "r \<in> set (take (scratch_index e) scratch_gprs)"
  have "distinct scratch_gprs" by (simp add: scratch_gprs_def)
  then have "set (take (scratch_index e) scratch_gprs) \<inter> free e = {}"
    unfolding free_def by (rule set_take_disj_set_drop_if_distinct) simp
  moreover have "set gpr_alloc \<inter> set scratch_gprs = {}" by (auto simp: gpr_alloc_def scratch_gprs_def)
  moreover have "r \<in> set scratch_gprs" using t by (rule in_set_takeD)
  ultimately show False using r t by blast
qed

lemma free_advance_emits: "free (advance k (emits c e)) \<subseteq> free e"
  using free_advance [of k "emits c e"] by simp

lemma comp_operands:
  assumes e: "scratch_index e \<le> 2" and op0: "plain_operand V op0" and op1: "plain_operand V op1"
    and g: "\<And>e' src dst. scratch_index e \<le> scratch_index e' \<Longrightarrow> scratch_index e' \<le> scratch_index e + 2 \<Longrightarrow>
      safe (scratch_index e') [(dst, x86_value op0), (src, x86_value op1)] \<Longrightarrow>
      src \<notin> set (take (scratch_index e) scratch_gprs) \<Longrightarrow> dst \<notin> set (take (scratch_index e) scratch_gprs) \<Longrightarrow>
      compiles e' (g src dst) (holds V [(dst, x86_value op0), (src, x86_value op1)] (\<lambda>L. L) (\<lambda>s. s)) Q"
  shows "compiles e (\<lambda>e. getGPR V (Operand 1) op1 e \<bind> (\<lambda>(src, e). getGPR V (Operand 0) op0 e \<bind> (\<lambda>(dst, e). g src dst e)))
    (holds V [] (\<lambda>L. L) (\<lambda>s. s)) Q"
proof -
  obtain src k where src: "k \<le> 1" "reads V (getGPR V (Operand 1) op1) e (x86_value op1) src k"
    using getGPR_reads [OF _ op1, of e "Operand 1"] e by auto
  show ?thesis
  proof (rule comp_reads [OF src(2) safe_Nil])
    fix c assume s1: "safe (scratch_index e + k) [(src, x86_value op1)]" "src \<in> free e \<or> src \<in> set gpr_alloc"
    obtain dst j where dst: "j \<le> 1" "reads V (getGPR V (Operand 0) op0) (advance k (emits c e)) (x86_value op0) dst j"
      using getGPR_reads [OF _ op0, of "advance k (emits c e)" "Operand 0"] e src(1) by auto
    show "compiles (advance k (emits c e)) (\<lambda>e. getGPR V (Operand 0) op0 e \<bind> (\<lambda>(dst, e). g src dst e))
      (holds V [(src, x86_value op1)] (\<lambda>L. L) (\<lambda>s. s)) Q"
    proof (rule comp_reads [OF dst(2)])
      show "safe (scratch_index (advance k (emits c e))) [(src, x86_value op1)]" using s1(1) by simp
      fix d assume s2: "safe (scratch_index (advance k (emits c e)) + j) [(dst, x86_value op0), (src, x86_value op1)]"
        "dst \<in> free (advance k (emits c e)) \<or> dst \<in> set gpr_alloc"
      have "dst \<in> free e \<or> dst \<in> set gpr_alloc" using s2(2) free_advance_emits by blast
      then show "compiles (advance j (emits d (advance k (emits c e)))) (g src dst)
          (holds V [(dst, x86_value op0), (src, x86_value op1)] (\<lambda>L. L) (\<lambda>s. s)) Q"
        using s1(2) s2(1) src(1) dst(1) by (intro g free_taken) simp_all
    qed
  qed
qed

text \<open>Writing a result back.\<close>

lemma comp_write:
  assumes i: "Suc (scratch_index e) < 7" and r: "plain_reg V r" and x: "(x, R) \<in> set ps"
    and ps: "safe (scratch_index e) ps" and d: "x \<in> scratches"
  shows "compiles e (setGPR V ptr (RegOp r) x) (holds V ps live now) (holds V [] live (\<lambda>s. x86_write r (R s) (now s)))"
proof (rule comp_triple)
  note f = plain_reg_facts [OF r]
  have free: "x \<notin> free e" using avoids_pin [OF safe_avoids(1) [OF ps] x] .
  have "x \<noteq> gpr_alloc ! reg_no r" using d gpr_alloc_range(1) [OF f(1)] by blast
  then have g: "gen (setGPR_ref V (reg_no r) (reg_size r) x) e (\<lambda>m m'. sets_reg e (gpr_alloc ! reg_no r)
      (write_part (reg_size r) (rget m x) (rget m (gpr_alloc ! reg_no r))) m m')"
    using setGPR_ref_gen [OF i f(2,1) free] by simp
  have "triple e (setGPR_ref V (reg_no r) (reg_size r) x) (holds V ps live now)
      (holds V [] live (\<lambda>s. x86_write r (R s) (now s)))"
  proof (rule triple_gen [OF g])
    fix y m m' assume h: "holds V ps live now y m"
      and s: "sets_reg e (gpr_alloc ! reg_no r) (write_part (reg_size r) (rget m x) (rget m (gpr_alloc ! reg_no r))) m m'"
    obtain tsp L st where y: "y = (tsp, L, st)" by (cases y)
    have "rget m x = R st" using h pinnedD [OF _ x] unfolding y holds_iff by blast
    then show "holds V [] live (\<lambda>s. x86_write r (R s) (now s)) y m'"
      using sim_write [OF _ r] h s unfolding y holds_iff by (auto simp: pinned_def)
  qed
  then show "triple e (setGPR V ptr (RegOp r) x) (holds V ps live now)
      (holds V [] live (\<lambda>s. x86_write r (R s) (now s)))"
    using f(3,4) by (simp add: triple_def)
qed

section \<open>Comparison flags\<close>

definition cmp_carry :: "env \<Rightarrow> reg \<Rightarrow> reg \<Rightarrow> x86_size \<Rightarrow> bool \<Rightarrow> emitter \<Rightarrow> emitter option" where
  "cmp_carry V dst src sz zext_src e = do {
     (test, e) \<leftarrow> scratch e;
     (if zext_src then do {
        e \<leftarrow> zext V test src sz e;
        e \<leftarrow> updateCarrySub dst test e;
        popScratch e
      } else do {
        e \<leftarrow> updateCarrySub dst src e;
        popScratch e
      })
   }"

lemma cmp_carry_gen:
  assumes i: "scratch_index e < 7" and gp: "gp_size sz" and d: "dst \<notin> free e"
  shows "gen (cmp_carry V dst src sz z) e (\<lambda>m m'. take_bit (bits sz) (rget m dst) = rget m dst
      \<and> (\<not> z \<longrightarrow> take_bit (bits sz) (rget m src) = rget m src) \<longrightarrow>
    sets_reg e 21 (of_bool (x86_cf_sub (bits sz) (rget m dst) (rget m src) False)) m m')"
proof -
  define t where "t = scratch_gprs ! scratch_index e"
  have t: "t \<in> free e" "t \<noteq> 0" "t \<noteq> 21" "dst \<noteq> t"
    using scratch_in_free [OF i] scratch_not_special [OF i] d by (auto simp: t_def)
  let ?c = "if z then zext_code V t src sz @ [Rr rSLTU 21 dst t] else [Rr rSLTU 21 dst src]"
  have "rget (exec ?c m) 21 = of_bool (x86_cf_sub (bits sz) (rget m dst) (rget m src) False)"
    if "take_bit (bits sz) (rget m dst) = rget m dst" "\<not> z \<longrightarrow> take_bit (bits sz) (rget m src) = rget m src" for m
    using that t take_bit_less_iff [of "bits sz" "rget m dst" "rget m src"]
    by (cases z) (simp_all add: exec_simps zext_exec [OF gp] x86_cf_sub_def)
  moreover have "mem (exec ?c m) = mem m" "keeps (insert 21 (free e)) m (exec ?c m)" for m
    using t by (simp_all add: exec_simps zext_exec [OF gp] keeps_rset)
  ultimately show ?thesis
    using i by (intro genI [where c = ?c])
      (simp_all add: cmp_carry_def updateCarrySub_def zext_eq [OF gp] emits_index sets_reg_def flip: t_def)
qed

lemma step_CF_sub:
  assumes i: "scratch_index e < 7" and gp: "gp_size sz" and av: "avoids (insert 21 (free e)) ps"
    and a: "(a, A) \<in> set ps" and b: "(b, B) \<in> set ps"
    and z: "\<And>s. take_bit (bits sz) (A s) = A s" "\<And>s. \<not> z \<Longrightarrow> take_bit (bits sz) (B s) = B s"
  shows "triple e (emit_if n (cmp_carry V a b sz z)) (holds V ps live now)
    (after V ps live now n X86_REF_CF (\<lambda>s. x86_cf_sub (bits sz) (A s) (B s) False))"
proof (rule triple_reg_flag [OF cmp_carry_gen [OF i gp] _ av])
  show "a \<notin> free e" using avoids_pin [OF av a] by simp
  fix s m m' assume p: "pinned ps s m"
    and E: "take_bit (bits sz) (rget m a) = rget m a \<and> (\<not> z \<longrightarrow> take_bit (bits sz) (rget m b) = rget m b) \<longrightarrow>
      sets_reg e 21 (of_bool (x86_cf_sub (bits sz) (rget m a) (rget m b) False)) m m'"
  show "sets_reg e 21 (of_bool (x86_cf_sub (bits sz) (A s) (B s) False)) m m'"
    using E z by (simp add: pinnedD [OF p a] pinnedD [OF p b])
qed simp

text \<open>All six flags of a comparison of values \<open>A\<close> and \<open>B\<close>.\<close>

definition set_cmp :: "x86_size \<Rightarrow> u64 \<Rightarrow> u64 \<Rightarrow> x86 \<Rightarrow> x86" where
  "set_cmp sz a b s = s\<lparr>xflag := (xflag s)(
     X86_REF_CF := x86_cf_sub (bits sz) a b False,
     X86_REF_PF := x86_pf (a - b),
     X86_REF_AF := x86_af_sub a b False,
     X86_REF_ZF := x86_zf (bits sz) (a - b),
     X86_REF_SF := x86_sf (bits sz) (a - b),
     X86_REF_OF := x86_of_sub (bits sz) a b False)\<rparr>"

definition live_after :: "env \<Rightarrow> x86_ref set \<Rightarrow> x86_ref set \<Rightarrow> x86_ref set" where
  "live_after V D L = (L - D) \<union> {f \<in> D. needs_flag V f}"

lemma SetCmpFlags_step:
  assumes i: "Suc (scratch_index e) < 7" and gp: "gp_size sz" and sf: "safe (scratch_index e) ps"
    and a: "(a, A) \<in> set ps" and b: "(b, B) \<in> set ps" and r: "(r, R) \<in> set ps" and R: "\<And>s. R s = A s - B s"
    and z: "\<And>s. take_bit (bits sz) (A s) = A s" "\<And>s. \<not> z \<Longrightarrow> take_bit (bits sz) (B s) = B s"
  shows "triple e (SetCmpFlags V a b r sz z False) (holds V ps (\<lambda>L. L) (\<lambda>s. s))
    (holds V ps (live_after V status_flags) (\<lambda>s. set_cmp sz (A s) (B s) s))"
proof -
  have i1: "scratch_index e < 7" "scratch_index e < 6" using i by simp_all
  note av = safe_avoids(1) [OF sf] safe_avoids(2) [OF sf, of 21] safe_avoids(2) [OF sf, of 23]
    safe_avoids(2) [OF sf, of 24] safe_avoids(2) [OF sf, of 25]
  show ?thesis
    unfolding SetCmpFlags_def cmp_carry_def [symmetric] simp_thms
    apply (rule triple_post)
     apply (rule triple_seq [OF step_CF_sub [OF i1(1) gp av(2) a b z]], simp, simp)
     apply (rule triple_seq [OF step_PF [OF _ _ r]], simp add: i1, simp add: av)
     apply (rule triple_seq [OF step_AF_sub [OF _ _ a b]], simp add: i1, simp add: av)
     apply (rule triple_seq [OF step_ZF [OF gp _ r]], simp add: av)
     apply (rule triple_seq [OF step_SF [OF gp _ r]], simp add: av)
     apply (rule step_OF_sub [OF _ gp _ a b r, where C = "\<lambda>_. False"]; simp add: i1 av R)
    apply (erule holds_cong)
     apply (auto simp: upd_def live_after_def status_flags_def)[1]
    apply (simp add: set_cmp_def R)
    done
qed

end
