(* ===== verification/ArithSpec.thy ===== *)
theory ArithSpec
  imports HandlersSpec
begin

text \<open>
  The reference semantics of the integer instructions and the theorems that the handlers
  translate them: whatever machine represents the guest state before the instruction, the
  emitted code runs to one that represents the guest state after it.
\<close>

section \<open>Translation\<close>

text \<open>\<open>lands c m m'\<close>: wherever code \<open>c\<close> is placed, entering it at its start in state \<open>m\<close> leads to the
  instruction after it in state \<open>m'\<close>.\<close>

definition lands :: "rv list \<Rightarrow> machine \<Rightarrow> machine \<Rightarrow> bool" where
  "lands c m m' \<longleftrightarrow> (\<forall>pre post. \<exists>k \<le> length c. \<forall>n.
     run (k + n) (pre @ c @ post) (int (length pre)) m
     = run n (pre @ c @ post) (int (length pre + length c)) m')"

lemma lands_run: "lands c m m' \<Longrightarrow> run (length c) c 0 m = Some m'"
proof -
  assume "lands c m m'"
  then obtain k where "k \<le> length c" "\<And>n. run (k + n) ([] @ c @ []) (int (length ([] :: rv list))) m
      = run n ([] @ c @ []) (int (length ([] :: rv list) + length c)) m'"
    unfolding lands_def by meson
  from this(1) this(2) [of "length c - k"] show ?thesis by simp
qed

lemma lands_append: "lands c m m' \<Longrightarrow> lands d m' m'' \<Longrightarrow> lands (c @ d) m m''"
  unfolding lands_def
proof (intro allI)
  fix pre post
  assume c: "\<forall>pre post. \<exists>k \<le> length c. \<forall>n. run (k + n) (pre @ c @ post) (int (length pre)) m
      = run n (pre @ c @ post) (int (length pre + length c)) m'"
    and d: "\<forall>pre post. \<exists>k \<le> length d. \<forall>n. run (k + n) (pre @ d @ post) (int (length pre)) m'
      = run n (pre @ d @ post) (int (length pre + length d)) m''"
  obtain j where j: "j \<le> length c" "\<And>n. run (j + n) (pre @ c @ (d @ post)) (int (length pre)) m
      = run n (pre @ c @ (d @ post)) (int (length pre + length c)) m'"
    using c by blast
  obtain k where k: "k \<le> length d" "\<And>n. run (k + n) ((pre @ c) @ d @ post) (int (length (pre @ c))) m'
      = run n ((pre @ c) @ d @ post) (int (length (pre @ c) + length d)) m''"
    using d by blast
  have "run (j + k + n) (pre @ (c @ d) @ post) (int (length pre)) m
      = run n (pre @ (c @ d) @ post) (int (length pre + length (c @ d))) m''" for n
    using j(2) [of "k + n"] k(2) [of n] by (simp add: add.assoc)
  then show "\<exists>k \<le> length (c @ d). \<forall>n. run (k + n) (pre @ (c @ d) @ post) (int (length pre)) m
      = run n (pre @ (c @ d) @ post) (int (length pre + length (c @ d))) m''"
    using j(1) k(1) by (intro exI [of _ "j + k"]) simp
qed

lemma lands_step:
  assumes "step i m = Some (m', 1)"
  shows "lands [i] m m'"
  unfolding lands_def by (intro allI exI [of _ 1]) (simp add: assms add.commute)

lemma lands_straight: "list_all straight c \<Longrightarrow> lands c m (exec c m)"
proof (induction c arbitrary: m)
  case Nil
  show ?case unfolding lands_def by (intro allI exI [of _ 0]) (simp add: exec_Nil)
next
  case (Cons i c)
  then show ?case
    using lands_append [OF lands_step [OF step_straight, of i m], of c] by (simp add: exec_Cons)
qed

text \<open>\<open>implements V h e G D instr\<close>: handler \<open>h\<close> succeeds on emitter \<open>e\<close> and appends code that
  simulates \<open>instr\<close>, under condition \<open>G\<close> on the place of the thread state, the represented flags
  and the guest state. The instruction defines the flags in \<open>D\<close>; afterwards they are represented
  as far as they were requested.\<close>

definition implements :: "env \<Rightarrow> (emitter \<Rightarrow> emitter option) \<Rightarrow> emitter \<Rightarrow> (u64 \<Rightarrow> x86_ref set \<Rightarrow> x86 \<Rightarrow> bool) \<Rightarrow> x86_ref set
    \<Rightarrow> (x86 \<Rightarrow> x86) \<Rightarrow> bool" where
  "implements V h e G D instr \<longleftrightarrow> (\<exists>c e'. h e = Some e' \<and> code e' = code e @ c \<and>
     (\<forall>tsp L m s. G tsp L s \<and> sim V tsp L m s \<longrightarrow>
       (\<exists>m'. lands c m m' \<and> sim V tsp (live_after V D L) m' (instr s))))"

lemma implements_runs:
  assumes "implements V h e G D instr"
  shows "\<exists>c e'. h e = Some e' \<and> code e' = code e @ c \<and> (\<forall>tsp L m s. G tsp L s \<and> sim V tsp L m s \<longrightarrow>
    (\<exists>m'. run (length c) c 0 m = Some m' \<and> sim V tsp (live_after V D L) m' (instr s)))"
proof -
  obtain c e' where c: "h e = Some e'" "code e' = code e @ c" and
    run: "\<forall>tsp L m s. G tsp L s \<and> sim V tsp L m s \<longrightarrow> (\<exists>m'. lands c m m' \<and> sim V tsp (live_after V D L) m' (instr s))"
    using assms unfolding implements_def by (elim exE conjE)
  show ?thesis
  proof (rule exI [of _ c], rule exI [of _ e'], intro conjI allI impI)
    fix tsp L m s assume h: "G tsp L s \<and> sim V tsp L m s"
    obtain m' where "lands c m m'" "sim V tsp (live_after V D L) m' (instr s)"
      using run [THEN spec, THEN spec, THEN spec, THEN spec, THEN mp, OF h] by (elim exE conjE)
    then show "\<exists>m'. run (length c) c 0 m = Some m' \<and> sim V tsp (live_after V D L) m' (instr s)"
      using lands_run by (intro exI [of _ m'] conjI)
  qed (fact c)+
qed

text \<open>\<open>translates V h e R D instr\<close>: the instruction reads the flags in \<open>R\<close>, which is all it needs.\<close>

definition translates :: "env \<Rightarrow> (emitter \<Rightarrow> emitter option) \<Rightarrow> emitter \<Rightarrow> x86_ref set \<Rightarrow> x86_ref set
    \<Rightarrow> (x86 \<Rightarrow> x86) \<Rightarrow> bool" where
  "translates V h e R D instr \<longleftrightarrow> (\<exists>c e'. h e = Some e' \<and> code e' = code e @ c \<and>
     (\<forall>tsp L m s. R \<subseteq> L \<and> sim V tsp L m s \<longrightarrow>
       (\<exists>m'. lands c m m' \<and> sim V tsp (live_after V D L) m' (instr s))))"

lemma translates_implements: "translates V h e R D instr \<longleftrightarrow> implements V h e (\<lambda>tsp L s. R \<subseteq> L) D instr"
  by (simp add: translates_def implements_def)

lemma translates_runs:
  assumes "translates V h e R D instr"
  shows "\<exists>c e'. h e = Some e' \<and> code e' = code e @ c \<and> (\<forall>tsp L m s. R \<subseteq> L \<and> sim V tsp L m s \<longrightarrow>
    (\<exists>m'. run (length c) c 0 m = Some m' \<and> sim V tsp (live_after V D L) m' (instr s)))"
  using implements_runs [OF assms [unfolded translates_implements]] .

lemma translatesI:
  assumes "compiles e h (holds V [] (\<lambda>L. L) (\<lambda>s. s)) (holds V [] (live_after V D) instr)"
  shows "translates V h e R D instr"
proof -
  obtain c e' where c: "h e = Some e'" "code e' = code e @ c" "list_all straight c"
    and h: "\<And>x m. holds V [] (\<lambda>L. L) (\<lambda>s. s) x m \<Longrightarrow> holds V [] (live_after V D) instr x (exec c m)"
    using assms unfolding compiles_def by blast
  have "sim V tsp (live_after V D L) (exec c m) (instr s)" if "sim V tsp L m s" for tsp L m s
    using h [of "(tsp, L, s)" m] that by (simp add: holds_iff pinned_def)
  then show ?thesis
    unfolding translates_def using c lands_straight [OF c(3)] by blast
qed

section \<open>Reference semantics\<close>

text \<open>Both operands have the size of the destination; an immediate may be wider, only its low
  bits count.\<close>

definition fits :: "ZydisRegister \<Rightarrow> operand \<Rightarrow> bool" where
  "fits r oper = (case oper of RegOp r' \<Rightarrow> bits (reg_size r') = bits (reg_size r) | _ \<Rightarrow> True)"

definition set_add :: "x86_size \<Rightarrow> u64 \<Rightarrow> u64 \<Rightarrow> x86 \<Rightarrow> x86" where
  "set_add sz a b s = s\<lparr>xflag := (xflag s)(
     X86_REF_CF := x86_cf_add (bits sz) a b False,
     X86_REF_PF := x86_pf (a + b),
     X86_REF_AF := x86_af_add a b False,
     X86_REF_ZF := x86_zf (bits sz) (a + b),
     X86_REF_SF := x86_sf (bits sz) (a + b),
     X86_REF_OF := x86_of_add (bits sz) a b False)\<rparr>"

definition x86_ADD :: "ZydisRegister \<Rightarrow> operand \<Rightarrow> x86 \<Rightarrow> x86" where
  "x86_ADD r src s = (let a = x86_value (RegOp r) s; b = x86_value src s in
     x86_write r (a + b) (set_add (reg_size r) a b s))"

definition set_adc :: "x86_size \<Rightarrow> u64 \<Rightarrow> u64 \<Rightarrow> bool \<Rightarrow> x86 \<Rightarrow> x86" where
  "set_adc sz a b c s = s\<lparr>xflag := (xflag s)(
     X86_REF_PF := x86_pf (a + b + of_bool c),
     X86_REF_AF := x86_af_add a b c,
     X86_REF_OF := x86_of_add (bits sz) a b c,
     X86_REF_CF := x86_cf_add (bits sz) a b c,
     X86_REF_ZF := x86_zf (bits sz) (a + b + of_bool c),
     X86_REF_SF := x86_sf (bits sz) (a + b + of_bool c))\<rparr>"

definition x86_ADC :: "ZydisRegister \<Rightarrow> operand \<Rightarrow> x86 \<Rightarrow> x86" where
  "x86_ADC r src s = (let a = x86_value (RegOp r) s; b = x86_value src s; c = xflag s X86_REF_CF in
     x86_write r (a + b + of_bool c) (set_adc (reg_size r) a b c s))"

definition x86_CMP :: "ZydisRegister \<Rightarrow> operand \<Rightarrow> x86 \<Rightarrow> x86" where
  "x86_CMP r src s = set_cmp (reg_size r) (x86_value (RegOp r) s) (x86_value src s) s"

definition x86_SUB :: "ZydisRegister \<Rightarrow> operand \<Rightarrow> x86 \<Rightarrow> x86" where
  "x86_SUB r src s = x86_write r (x86_value (RegOp r) s - x86_value src s) (x86_CMP r src s)"

text \<open>The logical operations clear CF and OF; AF, which the architecture leaves undefined, keeps
  its value.\<close>

definition set_logic :: "x86_size \<Rightarrow> u64 \<Rightarrow> x86 \<Rightarrow> x86" where
  "set_logic sz v s = s\<lparr>xflag := (xflag s)(
     X86_REF_CF := False,
     X86_REF_PF := x86_pf v,
     X86_REF_ZF := x86_zf (bits sz) v,
     X86_REF_SF := x86_sf (bits sz) v,
     X86_REF_OF := False)\<rparr>"

definition x86_logic :: "(u64 \<Rightarrow> u64 \<Rightarrow> u64) \<Rightarrow> ZydisRegister \<Rightarrow> operand \<Rightarrow> x86 \<Rightarrow> x86" where
  "x86_logic f r src s = (let v = f (x86_value (RegOp r) s) (x86_value src s) in
     x86_write r v (set_logic (reg_size r) v s))"

definition logic_defs :: "x86_ref set" where
  "logic_defs = {X86_REF_CF, X86_REF_PF, X86_REF_ZF, X86_REF_SF, X86_REF_OF}"

definition x86_NOT :: "ZydisRegister \<Rightarrow> x86 \<Rightarrow> x86" where
  "x86_NOT r s = x86_write r (NOT (x86_value (RegOp r) s)) s"

text \<open>Increment and decrement leave CF alone.\<close>

definition x86_INC :: "ZydisRegister \<Rightarrow> x86 \<Rightarrow> x86" where
  "x86_INC r s = (let n = bits (reg_size r); a = x86_value (RegOp r) s in
     x86_write r (a + 1) (s\<lparr>xflag := (xflag s)(
       X86_REF_AF := x86_af_add a 1 False,
       X86_REF_OF := x86_of_add n a 1 False,
       X86_REF_PF := x86_pf (a + 1),
       X86_REF_ZF := x86_zf n (a + 1),
       X86_REF_SF := x86_sf n (a + 1))\<rparr>))"

definition x86_DEC :: "ZydisRegister \<Rightarrow> x86 \<Rightarrow> x86" where
  "x86_DEC r s = (let n = bits (reg_size r); a = x86_value (RegOp r) s in
     x86_write r (a - 1) (s\<lparr>xflag := (xflag s)(
       X86_REF_AF := x86_af_sub a 1 False,
       X86_REF_OF := x86_of_sub n a 1 False,
       X86_REF_PF := x86_pf (a - 1),
       X86_REF_ZF := x86_zf n (a - 1),
       X86_REF_SF := x86_sf n (a - 1))\<rparr>))"

definition inc_defs :: "x86_ref set" where
  "inc_defs = {X86_REF_AF, X86_REF_OF, X86_REF_PF, X86_REF_ZF, X86_REF_SF}"

definition x86_NEG :: "ZydisRegister \<Rightarrow> x86 \<Rightarrow> x86" where
  "x86_NEG r s = (let a = x86_value (RegOp r) s in
     x86_write r (- a) (set_cmp (reg_size r) 0 a s))"

text \<open>An environment and an emitter at the start of an instruction, for examples.\<close>

definition sample_env :: env where
  "sample_env = \<lparr>ext_B = True, ext_Zabha = False, ext_Zicond = False, ext_TSO = False, g_mode32 = False,
     paranoid = False, noflag_opts = True, always_tso = False, current_rip = 0x401000,
     current_instruction = \<lparr>ilength = 2, operand_width = 32, address_width = 64, has_segment = False,
       has_lock = False, opcode = 0\<rparr>,
     needs_flag = (\<lambda>_. True), local_get = 0, local_set = 1, punned_reg = Z_8 0\<rparr>"

definition sample_emitter :: emitter where
  "sample_emitter = \<lparr>code = [], scratch_index = 0, cached_lea = 0, cached_lea_operand = None\<rparr>"

section \<open>Comparison and subtraction\<close>

declare x86_value.simps [simp del] One_nat_def [simp del]

lemma value_zext: "take_bit (bits (reg_size r)) (x86_value (RegOp r) s) = x86_value (RegOp r) s"
  by (cases r) (simp_all add: x86_value.simps)

lemma source_zext:
  "plain_operand V src \<Longrightarrow> fits r src \<Longrightarrow> \<not> (is_imm src \<and> reg_size r \<noteq> X86_SIZE_QWORD) \<Longrightarrow>
    take_bit (bits (reg_size r)) (x86_value src s) = x86_value src s"
  using value_zext [of r] value_zext [where r = "case src of RegOp r' \<Rightarrow> r'"]
  by (cases src) (auto simp: fits_def)

lemma sim_flags:
  assumes "sim V tsp L m s" "xgpr s' = xgpr s" "xmem s' = xmem s"
    "\<And>f. f \<in> L' \<Longrightarrow> f \<in> status_flags \<Longrightarrow> f \<in> L \<and> xflag s' f = xflag s f"
  shows "sim V tsp L' m s'"
  using simD [OF assms(1)] assms(2-4) by (intro simI) auto

lemma scratch_0: "scratch_gprs ! 0 = 1" "scratch_gprs ! 1 = 6" "take 1 scratch_gprs = [1]"
    "take (Suc 0) scratch_gprs = [1]" "take 2 scratch_gprs = [1, 6]"
  by (simp_all add: scratch_gprs_def One_nat_def)

text \<open>The handlers allocate the result register first and then read their operands.\<close>

lemma comp_binary:
  assumes e: "scratch_index e = 0" and op0: "plain_operand V op0" and op1: "plain_operand V op1"
    and g: "\<And>e' src dst. scratch_index e' \<le> 3 \<Longrightarrow> 1 \<le> scratch_index e' \<Longrightarrow>
      safe (scratch_index e') [(dst, x86_value op0), (src, x86_value op1)] \<Longrightarrow> src \<noteq> 1 \<Longrightarrow> dst \<noteq> 1 \<Longrightarrow>
      compiles e' (g 1 src dst) (holds V [(dst, x86_value op0), (src, x86_value op1)] (\<lambda>L. L) (\<lambda>s. s)) Q"
  shows "compiles e (\<lambda>e. scratch e \<bind> (\<lambda>(result, e). getGPR V (Operand 1) op1 e \<bind>
      (\<lambda>(src, e). getGPR V (Operand 0) op0 e \<bind> (\<lambda>(dst, e). g result src dst e))))
    (holds V [] (\<lambda>L. L) (\<lambda>s. s)) Q"
  apply (rule comp_scratch)
   apply (simp add: e)
  apply (simp only: e scratch_0)
  apply (rule comp_operands [OF _ op0 op1])
   apply (simp add: e)
  apply (rule g)
      apply (simp_all add: e scratch_0)
  done

lemma safe_result:
  assumes "safe i ps" "1 \<le> i" "i \<le> 7"
  shows "safe i ((1, v) # ps)"
  using safe_scratch [of 0 i ps v] assms by (simp add: scratch_0)

lemma avoids_single: "avoids {x} [] " "avoids {x} ((r, v) # ps) \<longleftrightarrow> r \<noteq> x \<and> avoids {x} ps"
  by (auto simp: avoids_def)

lemma step_result:
  assumes "dst \<noteq> 1" "src \<noteq> 1" "\<And>s. rop_sem f (A s) (B s) = R s"
  shows "triple e (\<lambda>e. Some (emits [Rr f 1 dst src] e)) (holds V [(dst, A), (src, B)] live now)
    (holds V [(1, R), (dst, A), (src, B)] live now)"
  by (rule triple_result [where r = 1 and v = "\<lambda>m. rop_sem f (rget m dst) (rget m src)"])
     (use assms in \<open>auto simp: exec_simps avoids_single pinned_def\<close>)

lemma translates_nothing:
  assumes "h e = Some e" "\<And>tsp L m s. sim V tsp L m s \<Longrightarrow> sim V tsp (live_after V D L) m (instr s)"
  shows "translates V h e R D instr"
  unfolding translates_def using assms lands_straight [of "[]"] by (simp add: exec_Nil) blast

lemma comp_emits:
  assumes "triple e (\<lambda>e. Some (emits c e)) P Q" "\<And>c. compiles (emits c e) g Q R"
  shows "compiles e (\<lambda>e. g (emits c e)) P R"
  using comp_seq [OF assms] by simp

lemma comp_done: "triple e f P (holds V ps live now) \<Longrightarrow> compiles e f P (holds V [] live now)"
  using comp_mono [OF comp_triple] holds_drop [of "[]" ps] by simp

lemma bind_pair: "(x \<bind> (\<lambda>(a, e). Some (a, h a e))) \<bind> g = x \<bind> (\<lambda>(a, e). g (a, h a e))" for x :: "('a \<times> 'b) option"
  by (cases x) auto

lemma bind_case_pair: "(case y of (a, e) \<Rightarrow> Some (h a e)) \<bind> g = (case y of (a, e) \<Rightarrow> g (h a e))"
  by (cases y) simp

lemma emit_True: "emit_if True f = f"
  by (simp add: emit_if_def fun_eq_iff)

lemmas handler_simps = locked_def is_mem.simps simp_thms if_False if_True emit_True bind_pair bind_case_pair prod.case
  Option.bind_assoc bind.bind_lunit getSize.simps

abbreviation result_pins :: "(u64 \<Rightarrow> u64 \<Rightarrow> u64) \<Rightarrow> operand \<Rightarrow> operand \<Rightarrow> reg \<Rightarrow> reg \<Rightarrow> pins" where
  "result_pins f op0 op1 dst src \<equiv>
     [(1, \<lambda>s. f (x86_value op0 s) (x86_value op1 s)), (dst, x86_value op0), (src, x86_value op1)]"

lemma SetCmpFlags_binary:
  assumes i: "scratch_index e \<le> 3" and sf: "safe (scratch_index e) (result_pins (-) (RegOp r) src dst x)"
    and r: "plain_reg V r" and src: "plain_operand V src" "fits r src"
  shows "triple e (SetCmpFlags V dst x 1 (reg_size r) (is_imm src \<and> reg_size r \<noteq> X86_SIZE_QWORD) False)
    (holds V (result_pins (-) (RegOp r) src dst x) (\<lambda>L. L) (\<lambda>s. s))
    (holds V (result_pins (-) (RegOp r) src dst x) (live_after V status_flags) (x86_CMP r src))"
proof -
  have "Suc (scratch_index e) < 7" using i by simp
  from SetCmpFlags_step [OF this plain_reg_facts(2) [OF r] sf, of dst "x86_value (RegOp r)" x "x86_value src" 1
      "\<lambda>s. x86_value (RegOp r) s - x86_value src s" "is_imm src \<and> reg_size r \<noteq> X86_SIZE_QWORD" V,
      OF _ _ _ _ value_zext source_zext [OF src]]
  show ?thesis by (simp add: x86_CMP_def [abs_def])
qed

lemma comp_finish:
  assumes "scratch_index e \<le> 4" "plain_reg V r" "safe (scratch_index e) ((x, R) # ps)" "x \<in> scratches"
    "\<And>s. instr s = x86_write r (R s) (now s)"
  shows "compiles e (setGPR V ptr (RegOp r) x) (holds V ((x, R) # ps) live now) (holds V [] live instr)"
  using comp_write [of e V r x R "(x, R) # ps" ptr live now] assms(1-4)
  unfolding ext [of instr, OF assms(5)] by simp

lemma fast_CMP_translates:
  assumes e: "scratch_index e = 0" and r: "plain_reg V r" and src: "plain_operand V src" "fits r src"
  shows "translates V (fast_CMP V (RegOp r) src) e {} status_flags (x86_CMP r src)"
proof (cases "needs_any V \<or> needs_flag V X86_REF_AF")
  case False
  then have "sim V tsp (live_after V status_flags L) m (x86_CMP r src s)" if "sim V tsp L m s" for tsp L m s
    by (rule_tac sim_flags [OF that]) (auto simp: x86_CMP_def set_cmp_def live_after_def status_flags_def needs_any_def)
  then show ?thesis using False by (intro translates_nothing) (auto simp: fast_CMP_def)
next
  case True
  have op0: "plain_operand V (RegOp r)" using r by simp
  show ?thesis
    apply (rule translatesI)
    apply (unfold fast_CMP_def Let_def)
    apply (simp only: True not_True_eq_False if_False)
    apply (rule comp_binary [OF e op0 src(1)])
    apply (simp add: plain_reg_facts [OF r])
    apply (rule comp_emits [OF step_result], assumption, assumption, simp)
    apply (rule comp_done [OF SetCmpFlags_binary])
    apply (simp_all add: safe_result r src)
    done
qed

lemma fast_SUB_flags_path:
  assumes e: "scratch_index e = 0" and r: "plain_reg V r" and src: "plain_operand V src" "fits r src"
    and flags: "\<not> (ext_B V \<and> noflag_opts V \<and> \<not> (needs_any V \<or> needs_flag V X86_REF_AF))"
  shows "translates V (fast_SUB V (RegOp r) src) e {} status_flags (x86_SUB r src)"
proof (rule translatesI)
  have op0: "plain_operand V (RegOp r)" using r by simp
  show "compiles e (fast_SUB V (RegOp r) src) (holds V [] (\<lambda>L. L) (\<lambda>s. s))
      (holds V [] (live_after V status_flags) (x86_SUB r src))"
    apply (unfold fast_SUB_def Let_def)
    apply (subst if_not_P) using flags apply simp
    apply (simp only: locked_def is_mem.simps simp_thms if_False emit_True bind_pair prod.case)
    apply (rule comp_binary [OF e op0 src(1)])
    apply (simp add: plain_reg_facts [OF r] del: setGPR.simps)
    apply (rule comp_emits [OF step_result], assumption, assumption, simp)
    apply (rule comp_seq [OF SetCmpFlags_binary])
    apply (simp_all add: safe_result r src del: setGPR.simps)
    apply (rule comp_finish)
    apply (simp_all add: safe_result r x86_SUB_def)
    done
qed

section \<open>Addition\<close>

definition add_flags :: "env \<Rightarrow> reg \<Rightarrow> reg \<Rightarrow> reg \<Rightarrow> x86_size \<Rightarrow> emitter \<Rightarrow> emitter option" where
  "add_flags V dst src result sz e = do {
     e \<leftarrow> emit_if (needs_flag V X86_REF_CF) (updateCarryAdd V dst result sz) e;
     e \<leftarrow> emit_if (needs_flag V X86_REF_PF) (updateParity V result) e;
     e \<leftarrow> emit_if (needs_flag V X86_REF_AF) (updateAuxiliaryAdd dst result) e;
     e \<leftarrow> emit_if (needs_flag V X86_REF_ZF) (updateZero V result sz) e;
     e \<leftarrow> emit_if (needs_flag V X86_REF_SF) (updateSign result sz) e;
     emit_if (needs_flag V X86_REF_OF) (updateOverflowAdd dst src result sz) e
   }"

lemma add_flags_step:
  assumes i: "scratch_index e \<le> 3" and gp: "gp_size sz" and sf: "safe (scratch_index e) ps"
    and a: "(a, A) \<in> set ps" and b: "(b, B) \<in> set ps" and r: "(r, R) \<in> set ps" and R: "\<And>s. R s = A s + B s"
    and z: "\<And>s. take_bit (bits sz) (A s) = A s"
  shows "triple e (add_flags V a b r sz) (holds V ps (\<lambda>L. L) (\<lambda>s. s))
    (holds V ps (live_after V status_flags) (\<lambda>s. set_add sz (A s) (B s) s))"
proof -
  note av = safe_avoids(1) [OF sf] safe_avoids(2) [OF sf, of 21] safe_avoids(2) [OF sf, of 23]
    safe_avoids(2) [OF sf, of 24] safe_avoids(2) [OF sf, of 25]
  have i1: "scratch_index e < 7" "scratch_index e < 6" "Suc (scratch_index e) < 7" using i by simp_all
  show ?thesis
    unfolding add_flags_def
    apply (rule triple_post)
     apply (rule triple_seq [OF step_CF_add [OF gp av(2) a r R z]], simp)
     apply (rule triple_seq [OF step_PF [OF _ _ r]], simp add: i1, simp add: av)
     apply (rule triple_seq [OF step_AF_add [OF _ _ a r R]], simp add: i1, simp add: av)
     apply (rule triple_seq [OF step_ZF [OF gp _ r]], simp add: av)
     apply (rule triple_seq [OF step_SF [OF gp _ r]], simp add: av)
     apply (rule step_OF_add [OF _ gp _ a b r, where C = "\<lambda>_. False"]; simp add: i1 av R)
    apply (erule holds_cong)
     apply (auto simp: upd_def live_after_def status_flags_def)[1]
    apply (simp add: set_add_def R)
    done
qed

lemma fast_ADD_flags_path:
  assumes e: "scratch_index e = 0" and r: "plain_reg V r" and src: "plain_operand V src"
    and flags: "\<not> (ext_B V \<and> noflag_opts V \<and> \<not> (needs_any V \<or> needs_flag V X86_REF_AF))"
  shows "translates V (fast_ADD V (RegOp r) src) e {} status_flags (x86_ADD r src)"
proof (rule translatesI)
  have op0: "plain_operand V (RegOp r)" using r by simp
  have split: "fast_ADD V (RegOp r) src e = do {
      (result, e) \<leftarrow> scratch e;
      (x, e) \<leftarrow> getGPR V (Operand 1) src e;
      (dst, e) \<leftarrow> getGPR V (Operand 0) (RegOp r) e;
      e \<leftarrow> add_flags V dst x result (reg_size r) (emits [Rr rADD result dst x] e);
      setGPR V (Operand 0) (RegOp r) result e }" for e
    unfolding fast_ADD_def add_flags_def Let_def
    by (subst if_not_P, use flags in simp, simp only: handler_simps plain_reg_facts [OF r])
  show "compiles e (fast_ADD V (RegOp r) src) (holds V [] (\<lambda>L. L) (\<lambda>s. s))
      (holds V [] (live_after V status_flags) (x86_ADD r src))"
    apply (unfold ext [OF split])
    apply (rule comp_binary [OF e op0 src])
    apply (rule comp_emits [OF step_result], assumption, assumption, simp)
    apply (rule comp_seq [OF add_flags_step [where A = "x86_value (RegOp r)" and B = "x86_value src"]])
    apply (simp_all add: safe_result r src plain_reg_facts [OF r] value_zext del: setGPR.simps)
    apply (rule comp_finish)
    apply (simp_all add: safe_result r x86_ADD_def Let_def)
    done
qed

section \<open>Logic\<close>

lemma logic_flags_step:
  assumes i: "scratch_index e \<le> 3" and gp: "gp_size sz" and sf: "safe (scratch_index e) ps" and r: "(r, R) \<in> set ps"
  shows "triple e (logic_flags V r sz) (holds V ps (\<lambda>L. L) (\<lambda>s. s))
    (holds V ps (live_after V logic_defs) (\<lambda>s. set_logic sz (R s) s))"
proof -
  note av = safe_avoids(1) [OF sf] safe_avoids(2) [OF sf, of 21] safe_avoids(2) [OF sf, of 23]
    safe_avoids(2) [OF sf, of 24] safe_avoids(2) [OF sf, of 25]
  have i1: "scratch_index e < 6" using i by simp
  show ?thesis
    unfolding logic_flags_def
    apply (rule triple_post)
     apply (rule triple_seq [OF step_clear(1)], simp add: av)
     apply (rule triple_seq [OF step_PF [OF _ _ r]], simp add: i1, simp add: av)
     apply (rule triple_seq [OF step_ZF [OF gp _ r]], simp add: av)
     apply (rule triple_seq [OF step_SF [OF gp _ r]], simp add: av)
     apply (rule step_clear(2), simp add: av)
    apply (erule holds_cong)
     apply (auto simp: upd_def live_after_def logic_defs_def)[1]
    apply (simp add: set_logic_def)
    done
qed

text \<open>The shape all three two-operand logical operations share.\<close>

definition logic_handler :: "env \<Rightarrow> rop \<Rightarrow> ZydisRegister \<Rightarrow> operand \<Rightarrow> emitter \<Rightarrow> emitter option" where
  "logic_handler V f r src e = do {
     (result, e) \<leftarrow> scratch e;
     (x, e) \<leftarrow> getGPR V (Operand 1) src e;
     (dst, e) \<leftarrow> getGPR V (Operand 0) (RegOp r) e;
     e \<leftarrow> logic_flags V result (reg_size r) (emits [Rr f result dst x] e);
     setGPR V (Operand 0) (RegOp r) result e }"

lemma logic_handler_correct:
  assumes e: "scratch_index e = 0" and r: "plain_reg V r" and src: "plain_operand V src"
  shows "translates V (logic_handler V f r src) e {} logic_defs (x86_logic (rop_sem f) r src)"
proof (rule translatesI)
  have op0: "plain_operand V (RegOp r)" using r by simp
  show "compiles e (logic_handler V f r src) (holds V [] (\<lambda>L. L) (\<lambda>s. s))
      (holds V [] (live_after V logic_defs) (x86_logic (rop_sem f) r src))"
    apply (unfold logic_handler_def)
    apply (rule comp_binary [OF e op0 src])
    apply (rule comp_emits [OF step_result], assumption, assumption, simp)
    apply (rule comp_seq [OF logic_flags_step [where r = 1]])
    apply (simp_all add: safe_result r plain_reg_facts [OF r] del: setGPR.simps)
    apply (rule comp_finish)
    apply (simp_all add: safe_result r x86_logic_def Let_def)
    done
qed

lemma fast_AND_translates:
  assumes e: "scratch_index e = 0" and r: "plain_reg V r" and src: "plain_operand V src"
  shows "translates V (fast_AND V (RegOp r) src) e {} logic_defs (x86_logic (AND) r src)"
proof -
  have "fast_AND V (RegOp r) src = logic_handler V rAND r src"
    unfolding fast_AND_def logic_handler_def Let_def by (simp only: handler_simps plain_reg_facts [OF r])
  moreover have "rop_sem rAND = (AND)" by (simp add: fun_eq_iff)
  ultimately show ?thesis using logic_handler_correct [OF assms, of rAND] by simp
qed

lemma fast_OR_flags_path:
  assumes e: "scratch_index e = 0" and r: "plain_reg V r" and src: "plain_operand V src"
    and flags: "\<not> (ext_B V \<and> noflag_opts V \<and> \<not> needs_any V)"
  shows "translates V (fast_OR V (RegOp r) src) e {} logic_defs (x86_logic (OR) r src)"
proof -
  have "fast_OR V (RegOp r) src = logic_handler V rOR r src"
    unfolding fast_OR_def logic_handler_def Let_def
    by (rule ext, subst if_not_P, use flags in simp, simp only: handler_simps plain_reg_facts [OF r])
  moreover have "rop_sem rOR = (OR)" by (simp add: fun_eq_iff)
  ultimately show ?thesis using logic_handler_correct [OF e r src, of rOR] by simp
qed

section \<open>Addition with carry\<close>

lemma translatesI_reads:
  assumes "compiles e h (holds V [] (\<lambda>L. L) (\<lambda>s. s))
    (\<lambda>x m. R \<subseteq> fst (snd x) \<longrightarrow> holds V [] (live_after V D) instr x m)"
  shows "translates V h e R D instr"
proof -
  obtain c e' where c: "h e = Some e'" "code e' = code e @ c" "list_all straight c"
    and h: "\<And>x m. holds V [] (\<lambda>L. L) (\<lambda>s. s) x m \<Longrightarrow> R \<subseteq> fst (snd x) \<Longrightarrow> holds V [] (live_after V D) instr x (exec c m)"
    using assms unfolding compiles_def by blast
  have "sim V tsp (live_after V D L) (exec c m) (instr s)" if "R \<subseteq> L" "sim V tsp L m s" for tsp L m s
    using h [of "(tsp, L, s)" m] that by (simp add: holds_iff pinned_def)
  then show ?thesis
    unfolding translates_def using c lands_straight [OF c(3)] by blast
qed

lemma comp_carry:
  assumes "compiles e h (holds V (carry_pin # ps) (\<lambda>L. L) (\<lambda>s. s)) Q"
  shows "compiles e h (holds V ps (\<lambda>L. L) (\<lambda>s. s)) (\<lambda>x m. {X86_REF_CF} \<subseteq> fst (snd x) \<longrightarrow> Q x m)"
proof -
  have "holds V (carry_pin # ps) (\<lambda>L. L) (\<lambda>s. s) x m"
    if "holds V ps (\<lambda>L. L) (\<lambda>s. s) x m" "X86_REF_CF \<in> fst (snd x)" for x m
    using that simD(3) [of V "fst x" "fst (snd x)" m "snd (snd x)" X86_REF_CF]
    by (cases x) (auto simp: holds_iff pinned_def flag_val_def status_flags_def)
  then show ?thesis using assms unfolding compiles_def insert_subset by blast
qed

lemma triple_emits2:
  assumes "triple e (\<lambda>e. Some (emits [a] e)) P Q" "\<And>c. triple (emits c e) (\<lambda>e. Some (emits [b] e)) Q R"
  shows "triple e (\<lambda>e. Some (emits [a, b] e)) P R"
  using triple_seq [OF assms] by simp

abbreviation carry_pins :: "operand \<Rightarrow> operand \<Rightarrow> reg \<Rightarrow> reg \<Rightarrow> pins" where
  "carry_pins op0 op1 dst src \<equiv> [(6, \<lambda>s. x86_value op0 s + x86_value op1 s + of_bool (xflag s X86_REF_CF)),
     (1, \<lambda>s. x86_value op0 s + x86_value op1 s), (dst, x86_value op0), (src, x86_value op1)]"

lemma adc_result_step:
  assumes "dst \<noteq> 1" "src \<noteq> 1" "dst \<noteq> 6" "src \<noteq> 6"
  shows "triple e (\<lambda>e. Some (emits [Rr rADD 1 dst src, Rr rADD 6 1 21] e))
    (holds V (carry_pin # [(dst, x86_value op0), (src, x86_value op1)]) live now)
    (holds V (carry_pin # carry_pins op0 op1 dst src) live now)"
  by (rule triple_post, rule triple_emits2,
      rule triple_result [where r = 1 and v = "\<lambda>m. rget m dst + rget m src" and val = "\<lambda>s. x86_value op0 s + x86_value op1 s"],
      (use assms in \<open>auto simp: exec_simps avoids_single pinned_def\<close>)[5],
      rule triple_result [where r = 6 and v = "\<lambda>m. rget m 1 + rget m 21"
        and val = "\<lambda>s. x86_value op0 s + x86_value op1 s + of_bool (xflag s X86_REF_CF)"],
      (use assms in \<open>auto simp: exec_simps avoids_single pinned_def\<close>)[5],
      rule holds_drop [rotated], auto)

lemma comp_binary2:
  assumes e: "scratch_index e = 0" and op0: "plain_operand V op0" and op1: "plain_operand V op1"
    and g: "\<And>e' src dst. scratch_index e' \<le> 4 \<Longrightarrow> 2 \<le> scratch_index e' \<Longrightarrow>
      safe (scratch_index e') [(dst, x86_value op0), (src, x86_value op1)] \<Longrightarrow> src \<notin> {1, 6} \<Longrightarrow> dst \<notin> {1, 6} \<Longrightarrow>
      compiles e' (g 1 6 src dst) (holds V [(dst, x86_value op0), (src, x86_value op1)] (\<lambda>L. L) (\<lambda>s. s)) Q"
  shows "compiles e (\<lambda>e. scratch e \<bind> (\<lambda>(result, e). scratch e \<bind> (\<lambda>(result_2, e). getGPR V (Operand 1) op1 e \<bind>
      (\<lambda>(src, e). getGPR V (Operand 0) op0 e \<bind> (\<lambda>(dst, e). g result result_2 src dst e)))))
    (holds V [] (\<lambda>L. L) (\<lambda>s. s)) Q"
  apply (rule comp_scratch, simp add: e)
  apply (rule comp_scratch, simp add: e)
  apply (simp only: e advance_simps add_0 scratch_0)
  apply (rule comp_operands [OF _ op0 op1])
   apply (simp add: e)
  apply (rule g)
      apply (simp_all add: e scratch_0)
  done

definition adc_flags :: "env \<Rightarrow> reg \<Rightarrow> reg \<Rightarrow> reg \<Rightarrow> reg \<Rightarrow> x86_size \<Rightarrow> emitter \<Rightarrow> emitter option" where
  "adc_flags V dst src result result_2 sz e = do {
     e \<leftarrow> emit_if (needs_flag V X86_REF_PF) (updateParity V result_2) e;
     e \<leftarrow> emit_if (needs_flag V X86_REF_AF) (updateAuxiliaryAdc dst result 21 result_2) e;
     e \<leftarrow> emit_if (needs_flag V X86_REF_OF) (updateOverflowAdd dst src result_2 sz) e;
     e \<leftarrow> emit_if (needs_flag V X86_REF_CF) (updateCarryAdc V dst result result_2 sz) e;
     e \<leftarrow> emit_if (needs_flag V X86_REF_ZF) (updateZero V result_2 sz) e;
     emit_if (needs_flag V X86_REF_SF) (updateSign result_2 sz) e
   }"

lemma adc_flags_step:
  assumes i: "scratch_index e \<le> 4" and r: "plain_reg V r"
    and sf: "safe (scratch_index e) (carry_pins (RegOp r) op1 dst src)"
  shows "triple e (adc_flags V dst src 1 6 (reg_size r)) (holds V (carry_pin # carry_pins (RegOp r) op1 dst src) (\<lambda>L. L) (\<lambda>s. s))
    (holds V (carry_pins (RegOp r) op1 dst src) (live_after V status_flags)
      (\<lambda>s. set_adc (reg_size r) (x86_value (RegOp r) s) (x86_value op1 s) (xflag s X86_REF_CF) s))"
proof -
  note av = safe_avoids(1) [OF sf] safe_avoids(2) [OF sf, of 21] safe_avoids(2) [OF sf, of 23]
    safe_avoids(2) [OF sf, of 24] safe_avoids(2) [OF sf, of 25]
  have i1: "scratch_index e < 7" "scratch_index e < 6" "Suc (scratch_index e) < 7" using i by simp_all
  have cp: "avoids (free e) (carry_pin # carry_pins (RegOp r) op1 dst src)"
    "avoids (insert 25 (free e)) (carry_pin # carry_pins (RegOp r) op1 dst src)"
    using av(1,5) free_special [of 21 e] by (auto simp: avoids_def)
  note gp = plain_reg_facts(2) [OF r]
  let ?A = "x86_value (RegOp r)" and ?B = "x86_value op1" and ?C = "\<lambda>s. xflag s X86_REF_CF"
  let ?R = "\<lambda>s. ?A s + ?B s" and ?S = "\<lambda>s. ?A s + ?B s + of_bool (?C s)"
  have in_pins: "(6, ?S) \<in> set (carry_pins (RegOp r) op1 dst src)" "(1, ?R) \<in> set (carry_pins (RegOp r) op1 dst src)"
    "(dst, ?A) \<in> set (carry_pins (RegOp r) op1 dst src)" "(src, ?B) \<in> set (carry_pins (RegOp r) op1 dst src)"
    by simp_all
  note inc = in_pins [THEN list.set_intros(2) [of _ _ carry_pin]]
  show ?thesis
    unfolding adc_flags_def
    apply (rule triple_post)
     apply (rule triple_seq [OF step_PF [OF _ _ inc(1)]], simp add: i1, simp add: cp)
     apply (rule triple_seq [OF step_AF_adc [OF _ _ inc(3,2,1)]], simp add: i1, simp add: cp, simp, simp, simp)
     apply (rule triple_seq [OF step_OF_add [OF _ gp _ inc(3,4,1)]], simp add: i1, simp add: cp, simp)
     apply (rule triple_seq [OF step_CF_adc [OF _ gp _ refl in_pins(3,2,1)]],
       simp add: i1, simp add: av, simp, simp, simp add: value_zext)
     apply (rule triple_seq [OF step_ZF [OF gp _ in_pins(1)]], simp add: av)
     apply (rule step_SF [OF gp _ in_pins(1)], simp add: av)
    apply (erule holds_cong)
     apply (auto simp: upd_def live_after_def status_flags_def)[1]
    apply (simp add: set_adc_def)
    done
qed

lemma safe_results:
  assumes "safe i ps" "2 \<le> i" "i \<le> 7"
  shows "safe i ((6, w) # (1, v) # ps)"
  using safe_scratch [of 1 i "(1, v) # ps" w] safe_result [of i ps v] assms by (simp add: scratch_0)

lemma fast_ADC_translates:
  assumes e: "scratch_index e = 0" and r: "plain_reg V r" and src: "plain_operand V src"
  shows "translates V (fast_ADC V (RegOp r) src) e {X86_REF_CF} status_flags (x86_ADC r src)"
proof (rule translatesI_reads)
  have op0: "plain_operand V (RegOp r)" using r by simp
  have split: "fast_ADC V (RegOp r) src e = do {
      (result, e) \<leftarrow> scratch e;
      (result_2, e) \<leftarrow> scratch e;
      (x, e) \<leftarrow> getGPR V (Operand 1) src e;
      (dst, e) \<leftarrow> getGPR V (Operand 0) (RegOp r) e;
      e \<leftarrow> adc_flags V dst x result result_2 (reg_size r) (emits [Rr rADD result dst x, Rr rADD result_2 result 21] e);
      setGPR V (Operand 0) (RegOp r) result_2 e }" for e
    unfolding fast_ADC_def adc_flags_def Let_def by (simp only: handler_simps flag_regs plain_reg_facts [OF r])
  show "compiles e (fast_ADC V (RegOp r) src) (holds V [] (\<lambda>L. L) (\<lambda>s. s))
      (\<lambda>x m. {X86_REF_CF} \<subseteq> fst (snd x) \<longrightarrow> holds V [] (live_after V status_flags) (x86_ADC r src) x m)"
    apply (unfold ext [OF split])
    apply (rule comp_binary2 [OF e op0 src])
    apply (rule comp_carry)
    apply (rule comp_emits [OF adc_result_step], simp, simp, simp, simp)
    apply (rule comp_seq [OF adc_flags_step])
    apply (simp_all add: safe_results r del: setGPR.simps)
    apply (rule comp_finish)
    apply (simp_all add: safe_results r x86_ADC_def Let_def)
    done
qed

end
