(* ===== verification/NoflagsSpec.thy ===== *)
theory NoflagsSpec
  imports ArithSpec
begin

text \<open>
  The flag-free fast path of the two-operand handlers. It works in place on the full host
  register: an 8- or 16-bit operand is rotated to the top, so that the operation cannot
  disturb its neighbours, and rotated back.
\<close>

section \<open>Operating on the top of a register\<close>

definition noflags_ops :: "(rop \<times> rop) set" where
  "noflags_ops = {(rADD, rADDW), (rSUB, rSUBW), (rOR, rOR), (rXOR, rXOR)}"

text \<open>The low bits of a result depend on the low bits of the operands only.\<close>

lemma take_bit_eqI: "n \<le> 64 \<Longrightarrow> low n x = low n y \<Longrightarrow> take_bit n x = take_bit n y"
  by (simp add: low_def word_unat_eq_iff)

lemma low_take_bit: "low n (take_bit n x) = low n x"
  by (simp add: low_def)

lemma take_bit_cong_add: "n \<le> 64 \<Longrightarrow> take_bit n (take_bit n a + take_bit n b) = take_bit n (a + b)" for a b :: u64
  using low_add [of n a b False] low_add [of n "take_bit n a" "take_bit n b" False]
  by (intro take_bit_eqI) (simp_all add: low_take_bit)

lemma take_bit_cong_sub: "n \<le> 64 \<Longrightarrow> take_bit n (take_bit n a - take_bit n b) = take_bit n (a - b)" for a b :: u64
  using low_sub [of n a b False] low_sub [of n "take_bit n a" "take_bit n b" False]
  by (intro take_bit_eqI) (simp_all add: low_take_bit)

lemma rop_low:
  "(f, g) \<in> noflags_ops \<Longrightarrow> n \<le> 64 \<Longrightarrow>
    take_bit n (rop_sem f (take_bit n a) (take_bit n b)) = take_bit n (rop_sem f a b)"
  using take_bit_cong_add [of n a b] take_bit_cong_sub [of n a b]
  by (auto simp: noflags_ops_def take_bit_or take_bit_xor)

lemma rop_low_cong:
  assumes "(f, g) \<in> noflags_ops" "n \<le> 64" "take_bit n a = take_bit n a'" "take_bit n b = take_bit n b'"
  shows "take_bit n (rop_sem f a b) = take_bit n (rop_sem f a' b')"
  using rop_low [OF assms(1,2), of a b] rop_low [OF assms(1,2), of a' b'] assms(3,4) by simp

lemma rop_low32: "(f, g) \<in> noflags_ops \<Longrightarrow> take_bit 32 (rop_sem g a b) = take_bit 32 (rop_sem f a b)"
  by (auto simp: noflags_ops_def take_bit_signed_take_bit)

lemma top_split: "n < 64 \<Longrightarrow> x = take_bit n x + push_bit n (drop_bit n x)" for x :: u64
  by (metis bits_ident add.commute)

lemma disjoint_or: "n < 64 \<Longrightarrow> take_bit n x + push_bit n y = take_bit n x OR push_bit n y" for x y :: u64
  by (rule disjunctive_add) (auto simp: bit_simps)

lemma rop_top:
  assumes "(f, g) \<in> noflags_ops" "n < 64"
  shows "rop_sem f x (push_bit n b) = take_bit n x OR push_bit n (rop_sem f (drop_bit n x) b)"
proof -
  have "x + push_bit n b = take_bit n x + push_bit n (drop_bit n x + b)"
    "x - push_bit n b = take_bit n x + push_bit n (drop_bit n x - b)"
    using top_split [OF assms(2), of x] by (simp_all add: push_bit_add push_bit_eq_mult right_diff_distrib algebra_simps)
  then have add: "x + push_bit n b = take_bit n x OR push_bit n (drop_bit n x + b)"
    and sub: "x - push_bit n b = take_bit n x OR push_bit n (drop_bit n x - b)"
    by (simp_all only: disjoint_or [OF assms(2)])
  have "x OR push_bit n b = take_bit n x OR push_bit n (drop_bit n x OR b)"
    "x XOR push_bit n b = take_bit n x OR push_bit n (drop_bit n x XOR b)"
    by (rule bit_word_eqI; auto simp: bit_simps)+
  with add sub show ?thesis using assms(1) by (auto simp: noflags_ops_def)
qed

lemma rotate_op_bit:
  assumes f: "(f, g) \<in> noflags_ops" and n: "0 < n" "n \<le> k" "k < 64" and i: "i < 64"
  shows "bit (word_rotr (64 - k) (rop_sem f (word_rotr k d) (push_bit (64 - n) b))) i \<longleftrightarrow>
    (if k - n \<le> i \<and> i < k then bit (rop_sem f (drop_bit (k - n) d) b) (i - (k - n)) else bit d i)"
proof -
  define X where "X = word_rotr k d"
  define Z where "Z = rop_sem f (drop_bit (64 - n) X) b"
  have Y: "rop_sem f X (push_bit (64 - n) b) = take_bit (64 - n) X OR push_bit (64 - n) Z"
    unfolding Z_def using n by (intro rop_top [OF f]) simp
  have X: "bit X j \<longleftrightarrow> bit d ((j + k) mod 64)" if "j < 64" for j
    using that by (simp add: X_def bit_word_rotr_iff)
  have "take_bit n (drop_bit (64 - n) X) = take_bit n (drop_bit (k - n) d)"
  proof (rule bit_word_eqI)
    fix j assume "j < LENGTH(64)"
    have "(64 - n + j + k) mod 64 = k - n + j" if "j < n"
    proof -
      have "64 - n + j + k = (k - n + j) + 64" using n that by simp
      then show ?thesis by (simp only: mod_add_self2) (use n that in simp)
    qed
    then show "bit (take_bit n (drop_bit (64 - n) X)) j \<longleftrightarrow> bit (take_bit n (drop_bit (k - n) d)) j"
      using X [of "64 - n + j"] by (auto simp: bit_simps)
  qed
  then have "take_bit n Z = take_bit n (rop_sem f (drop_bit (k - n) d) b)"
    unfolding Z_def using n by (intro rop_low_cong [OF f]) simp_all
  then have Z: "bit Z j \<longleftrightarrow> bit (rop_sem f (drop_bit (k - n) d) b) j" if "j < n" for j
    using that by (metis bit_take_bit_iff)
  show ?thesis
  proof (cases "i < k")
    case True
    then have "(i + (64 - k)) mod 64 = i + 64 - k" "(i + 64 - k + k) mod 64 = i"
      using n i by (simp_all add: mod_if)
    then show ?thesis
      using True n i X [of "i + 64 - k"] Z [of "i - (k - n)"]
      by (auto simp: bit_word_rotr_iff bit_simps Y simp flip: X_def)
  next
    case False
    then have "(i + (64 - k)) mod 64 = i - k" "(i - k + k) mod 64 = i"
      using n i by (simp_all add: mod_if)
    then show ?thesis
      using False n i X [of "i - k"]
      by (auto simp: bit_word_rotr_iff bit_simps Y simp flip: X_def)
  qed
qed

lemma rotate_write:
  assumes "(f, g) \<in> noflags_ops"
  shows "word_rotr 56 (rop_sem f (word_rotr 8 d) (push_bit 56 b)) = write_part X86_SIZE_BYTE (rop_sem f d b) d"
    "word_rotr 48 (rop_sem f (word_rotr 16 d) (push_bit 56 b)) = write_part X86_SIZE_BYTE_HIGH (rop_sem f (drop_bit 8 d) b) d"
    "word_rotr 48 (rop_sem f (word_rotr 16 d) (push_bit 48 b)) = write_part X86_SIZE_WORD (rop_sem f d b) d"
proof -
  have "bit (word_rotr 56 (rop_sem f (word_rotr 8 d) (push_bit 56 b))) i
      \<longleftrightarrow> (if i < 8 then bit (rop_sem f d b) i else bit d i)" if "i < 64" for i
    using rotate_op_bit [OF assms _ _ _ that, of 8 8 d b] by simp
  then show "word_rotr 56 (rop_sem f (word_rotr 8 d) (push_bit 56 b)) = write_part X86_SIZE_BYTE (rop_sem f d b) d"
    by (intro bit_word_eqI) (auto simp: bit_take_bit_iff bit_or_iff bit_push_bit_iff bit_drop_bit_eq)
  have "bit (word_rotr 48 (rop_sem f (word_rotr 16 d) (push_bit 56 b))) i
      \<longleftrightarrow> (if 8 \<le> i \<and> i < 16 then bit (rop_sem f (drop_bit 8 d) b) (i - 8) else bit d i)" if "i < 64" for i
    using rotate_op_bit [OF assms _ _ _ that, of 8 16 d b] by simp
  then show "word_rotr 48 (rop_sem f (word_rotr 16 d) (push_bit 56 b))
      = write_part X86_SIZE_BYTE_HIGH (rop_sem f (drop_bit 8 d) b) d"
    by (intro bit_word_eqI) (auto simp: bit_take_bit_iff bit_or_iff bit_push_bit_iff bit_drop_bit_eq)
  have "bit (word_rotr 48 (rop_sem f (word_rotr 16 d) (push_bit 48 b))) i
      \<longleftrightarrow> (if i < 16 then bit (rop_sem f d b) i else bit d i)" if "i < 64" for i
    using rotate_op_bit [OF assms _ _ _ that, of 16 16 d b] by simp
  then show "word_rotr 48 (rop_sem f (word_rotr 16 d) (push_bit 48 b)) = write_part X86_SIZE_WORD (rop_sem f d b) d"
    by (intro bit_word_eqI) (auto simp: bit_take_bit_iff bit_or_iff bit_push_bit_iff bit_drop_bit_eq)
qed

lemma write_part_cong:
  "gp_size sz \<Longrightarrow> take_bit (bits sz) v = take_bit (bits sz) w \<Longrightarrow> write_part sz v old = write_part sz w old"
  by (cases sz) simp_all

section \<open>The emitted code\<close>

text \<open>\<open>hi\<close>: the source is a second-byte register.\<close>

fun noflags_code :: "env \<Rightarrow> rop \<Rightarrow> rop \<Rightarrow> x86_size \<Rightarrow> bool \<Rightarrow> reg \<Rightarrow> reg \<Rightarrow> reg \<Rightarrow> rv list" where
  "noflags_code V f g X86_SIZE_BYTE hi t x d =
     (if hi then [Sh sSRLI t x 8, Sh sSLLI t t 56] else [Sh sSLLI t x 56])
     @ [Sh sRORI d d 8, Rr f d d t, Sh sRORI d d 56]"
| "noflags_code V f g X86_SIZE_BYTE_HIGH hi t x d =
     (if hi then [Sh sSRLI t x 8, Sh sSLLI t t 56] else [Sh sSLLI t x 56])
     @ [Sh sRORI d d 16, Rr f d d t, Sh sRORI d d 48]"
| "noflags_code V f g X86_SIZE_WORD hi t x d =
     [Sh sSLLI t x 48, Sh sRORI d d 16, Rr f d d t, Sh sRORI d d 48]"
| "noflags_code V f g X86_SIZE_DWORD hi t x d = Rr g d d x # zext_code V d d X86_SIZE_DWORD"
| "noflags_code V f g _ hi t x d = [Rr f d d x]"

definition source_part :: "x86_size \<Rightarrow> bool \<Rightarrow> u64 \<Rightarrow> u64" where
  "source_part sz hi v = (if bits sz = 8 \<and> hi then drop_bit 8 v else v)"

lemma noflags_code_straight [simp]: "list_all straight (noflags_code V f g sz hi t x d)"
  by (cases sz) simp_all

lemma noflags_code_value:
  assumes "(f, g) \<in> noflags_ops" "gp_size sz" "d \<noteq> 0" "t \<noteq> 0" "t \<noteq> d" "x \<noteq> t"
  shows "rget (exec (noflags_code V f g sz hi t x d) m) d
    = write_part sz (rop_sem f (if sz = X86_SIZE_BYTE_HIGH then drop_bit 8 (rget m d) else rget m d)
        (source_part sz hi (rget m x))) (rget m d)"
  using assms rotate_write [OF assms(1)] rop_low32 [OF assms(1)]
  by (cases sz; cases hi) (simp_all add: exec_simps source_part_def zext_exec drop_push_u64)

lemma noflags_code_keeps:
  assumes "gp_size sz" "d \<noteq> 0" "d \<in> S" "t \<in> S"
  shows "mem (exec (noflags_code V f g sz hi t x d) m) = mem m"
    "keeps S m (exec (noflags_code V f g sz hi t x d) m)"
  using assms by (cases sz; simp add: exec_simps keeps_rset zext_exec)+

text \<open>The sources the fast path is used with.\<close>

definition noflags_src :: "env \<Rightarrow> ZydisRegister \<Rightarrow> operand \<Rightarrow> bool" where
  "noflags_src V r src \<longleftrightarrow> operand_width (current_instruction V) = bits (reg_size r)
     \<and> (case src of RegOp r' \<Rightarrow> bits (reg_size r') = bits (reg_size r)
        | _ \<Rightarrow> zydisToSize (punned_reg V) = Some X86_SIZE_BYTE)"

lemma scratch_1: "scratch_gprs ! Suc 0 = 6"
  by (simp add: scratch_gprs_def)

lemma OP_noflags_destreg_code:
  assumes e: "scratch_index e = 0" and r: "plain_reg V r" and src: "plain_operand V src" "noflags_src V r src"
  shows "\<exists>c0 x t hi e'. OP_noflags_destreg V (RegOp r) src f g e = Some e'
    \<and> code e' = code e @ c0 @ noflags_code V f g (reg_size r) hi t x (gpr_alloc ! reg_no r)
    \<and> list_all straight c0 \<and> t \<in> scratches \<and> x \<noteq> t
    \<and> (\<forall>m. keeps scratches m (exec c0 m) \<and> mem (exec c0 m) = mem m)
    \<and> (\<forall>tsp L m s. sim V tsp L m s \<longrightarrow>
         take_bit (bits (reg_size r)) (source_part (reg_size r) hi (rget (exec c0 m) x))
         = take_bit (bits (reg_size r)) (x86_value src s))"
proof (cases src)
  case (RegOp r')
  have r': "plain_reg V r'" using src RegOp by simp
  note n = plain_reg_facts [OF r] and n' = plain_reg_facts [OF r']
  have x: "gpr_alloc ! reg_no r' \<notin> scratches" using gpr_alloc_range(1) [OF n'(1)] .
  have alloc: "gpr_alloc ! reg_no r \<noteq> 0" using gpr_alloc_range(2) [OF n(1)] by simp
  have "sim V tsp L m s \<Longrightarrow> rget m (gpr_alloc ! reg_no r') = xgpr s (reg_no r')" for tsp L m s
    using simD(2) n'(1) by blast
  then show ?thesis
    using RegOp e r r' src(2) x n(1) n'(1)
    apply -
    apply (rule exI [of _ "[]"], rule exI [of _ "gpr_alloc ! reg_no r'"], rule exI [of _ 1],
        rule exI [of _ "reg_size r' = X86_SIZE_BYTE_HIGH"])
    apply (cases r; cases r')
    apply (simp_all add: OP_noflags_destreg_def noflags_src_def getGPR_ref_def allocatedGPR_gpr setGPR_ref_def
      exec_Nil
      reg_value_def scratch_0 x86_value.simps source_part_def zext_eq)
    done
next
  case (ImmOp v k)
  note n = plain_reg_facts [OF r]
  show ?thesis
    using ImmOp e r src(2) n(1)
    apply -
    apply (rule exI [of _ "[LI 1 v]"], rule exI [of _ 1], rule exI [of _ 6], rule exI [of _ False])
    apply (cases r)
    apply (simp_all add: OP_noflags_destreg_def noflags_src_def getGPR_ref_def allocatedGPR_gpr setGPR_ref_def
      exec_simps reg_value_def scratch_0 scratch_1
      x86_value.simps source_part_def zext_eq keeps_rset)
    done
qed (use src in simp)

text \<open>No flag is requested, so any flags are right; the register gets the result.\<close>

lemma OP_noflags_destreg_correct:
  assumes ops: "(f, g) \<in> noflags_ops" and e: "scratch_index e = 0" and r: "plain_reg V r"
    and src: "plain_operand V src" "noflags_src V r src"
    and quiet: "\<And>x. x \<in> D \<Longrightarrow> \<not> needs_flag V x"
    and F: "\<And>s. xgpr (F s) = xgpr s" "\<And>s. xmem (F s) = xmem s" "\<And>s x. x \<notin> D \<Longrightarrow> xflag (F s) x = xflag s x"
  shows "translates V (OP_noflags_destreg V (RegOp r) src f g) e {} D
    (\<lambda>s. x86_write r (rop_sem f (x86_value (RegOp r) s) (x86_value src s)) (F s))"
proof -
  define d where "d = gpr_alloc ! reg_no r"
  note n = plain_reg_facts [OF r]
  obtain c0 x t hi e' where h: "OP_noflags_destreg V (RegOp r) src f g e = Some e'"
    and code: "code e' = code e @ c0 @ noflags_code V f g (reg_size r) hi t x d"
    and c0: "list_all straight c0" "t \<in> scratches" "x \<noteq> t" "\<And>m. keeps scratches m (exec c0 m)" "\<And>m. mem (exec c0 m) = mem m"
    and v: "\<And>tsp L m s. sim V tsp L m s \<Longrightarrow>
      take_bit (bits (reg_size r)) (source_part (reg_size r) hi (rget (exec c0 m) x))
      = take_bit (bits (reg_size r)) (x86_value src s)"
    using OP_noflags_destreg_code [OF e r src, of f g] unfolding d_def by blast
  define e0 where "e0 = \<lparr>code = [], scratch_index = 0, cached_lea = 0, cached_lea_operand = None\<rparr>"
  have fe: "free e0 = scratches" by (simp add: e0_def free_def scratch_gprs_def insert_commute)
  let ?c = "c0 @ noflags_code V f g (reg_size r) hi t x d"
  have d: "d \<noteq> 0" "d \<notin> scratches" "d \<noteq> t"
    using gpr_alloc_range [OF n(1)] c0(2) by (auto simp: d_def)
  have main: "sim V tsp (live_after V D L) (exec ?c m) (x86_write r (rop_sem f (x86_value (RegOp r) s) (x86_value src s)) (F s))"
    if s: "sim V tsp L m s" for tsp L m s
  proof -
    define m1 where "m1 = exec c0 m"
    have s1: "sim V tsp L m1 s"
      using sim_keeps [OF s, of e0] c0(4,5) by (simp add: m1_def fe)
    have s2: "sim V tsp (live_after V D L) m1 (F s)"
      by (rule sim_flags [OF s1 F(1,2)]) (use quiet F(3) in \<open>auto simp: live_after_def\<close>)
    have d1: "rget m1 d = xgpr s (reg_no r)" using simD(2) [OF s1 n(1)] by (simp add: d_def)
    let ?v = "rop_sem f (x86_value (RegOp r) s) (x86_value src s)"
    have "rget (exec (noflags_code V f g (reg_size r) hi t x d) m1) d = write_part (reg_size r) ?v (rget m1 d)"
    proof -
      have A: "take_bit (bits (reg_size r)) (if reg_size r = X86_SIZE_BYTE_HIGH then drop_bit 8 (rget m1 d) else rget m1 d)
          = take_bit (bits (reg_size r)) (x86_value (RegOp r) s)"
        using n(2) by (cases "reg_size r") (simp_all add: x86_value.simps d1)
      show ?thesis
        using noflags_code_value [OF ops n(2) d(1) _ d(3) [symmetric] c0(3), of V hi m1] c0(2)
          write_part_cong [OF n(2) rop_low_cong [OF ops bits_bounds(2) A v [OF s, folded m1_def]]]
        by auto
    qed
    then have "sets_reg e0 d (write_part (reg_size r) ?v (rget m1 d)) m1 (exec (noflags_code V f g (reg_size r) hi t x d) m1)"
      unfolding sets_reg_def using noflags_code_keeps [OF n(2) d(1), of "insert d (free e0)" t] c0(2) by (simp add: fe)
    then show ?thesis
      using sim_write [OF s2 r, of e0 ?v] by (simp add: d_def exec_append m1_def)
  qed
  have "list_all straight ?c" using c0(1) by simp
  then show ?thesis
    unfolding translates_def using h code lands_straight main by blast
qed

section \<open>The whole handlers\<close>

lemma translates_cong:
  "h e = h' e \<Longrightarrow> (\<And>s. instr s = instr' s) \<Longrightarrow> translates V h' e R D instr' \<Longrightarrow> translates V h e R D instr"
  by (simp add: translates_def)

lemma fast_ADD_translates:
  assumes e: "scratch_index e = 0" and r: "plain_reg V r" and src: "plain_operand V src" "noflags_src V r src"
  shows "translates V (fast_ADD V (RegOp r) src) e {} status_flags (x86_ADD r src)"
proof (cases "ext_B V \<and> noflag_opts V \<and> \<not> (needs_any V \<or> needs_flag V X86_REF_AF)")
  case True
  show ?thesis
    by (rule translates_cong [OF _ _ OP_noflags_destreg_correct [OF _ e r src, of rADD rADDW status_flags
          "\<lambda>s. set_add (reg_size r) (x86_value (RegOp r) s) (x86_value src s) s"]])
       (use True in \<open>auto simp: fast_ADD_def x86_ADD_def Let_def set_add_def noflags_ops_def status_flags_def needs_any_def\<close>)
qed (rule fast_ADD_flags_path [OF e r src(1)])

lemma fast_SUB_translates:
  assumes e: "scratch_index e = 0" and r: "plain_reg V r" and src: "plain_operand V src" "noflags_src V r src"
  shows "translates V (fast_SUB V (RegOp r) src) e {} status_flags (x86_SUB r src)"
proof (cases "ext_B V \<and> noflag_opts V \<and> \<not> (needs_any V \<or> needs_flag V X86_REF_AF)")
  case True
  show ?thesis
    by (rule translates_cong [OF _ _ OP_noflags_destreg_correct [OF _ e r src, of rSUB rSUBW status_flags
          "\<lambda>s. x86_CMP r src s"]])
       (use True in \<open>auto simp: fast_SUB_def x86_SUB_def x86_CMP_def Let_def set_cmp_def noflags_ops_def status_flags_def needs_any_def\<close>)
next
  case False
  have "fits r src" using src by (cases src) (auto simp: fits_def noflags_src_def)
  then show ?thesis by (rule fast_SUB_flags_path [OF e r src(1) _ False])
qed

lemma fast_OR_translates:
  assumes e: "scratch_index e = 0" and r: "plain_reg V r" and src: "plain_operand V src" "noflags_src V r src"
  shows "translates V (fast_OR V (RegOp r) src) e {} logic_defs (x86_logic (OR) r src)"
proof (cases "ext_B V \<and> noflag_opts V \<and> \<not> needs_any V")
  case True
  show ?thesis
    by (rule translates_cong [OF _ _ OP_noflags_destreg_correct [OF _ e r src, of rOR rOR logic_defs
          "\<lambda>s. set_logic (reg_size r) (x86_value (RegOp r) s OR x86_value src s) s"]])
       (use True in \<open>auto simp: fast_OR_def x86_logic_def Let_def set_logic_def noflags_ops_def logic_defs_def needs_any_def\<close>)
qed (rule fast_OR_flags_path [OF e r src(1)])

end
