(* ===== verification/UnarySpec.thy ===== *)
theory UnarySpec
  imports NoflagsSpec
begin

text \<open>
  Exclusive or with its zeroing idiom, the one-operand instructions and \<^verbatim>\<open>TEST\<close>.
\<close>

section \<open>Exclusive or\<close>

lemma avoids_Nil: "avoids S []"
  by (simp add: avoids_def)

lemma step_zero_register:
  assumes r: "plain_reg V r" and sz: "reg_size r = X86_SIZE_DWORD \<or> reg_size r = X86_SIZE_QWORD"
  shows "triple e (setGPR_ref V (reg_no r) X86_SIZE_QWORD 0) (holds V [] live now) (holds V [] live (\<lambda>s. x86_write r 0 (now s)))"
proof -
  define d where "d = gpr_alloc ! reg_no r"
  note n = plain_reg_facts [OF r]
  have d: "d \<noteq> 0" using gpr_alloc_range(2) [OF n(1)] by (auto simp: d_def)
  have "sets_reg e d (write_part (reg_size r) 0 (rget m d)) m (exec [Rm uMV d 0] m)" for m
    using sz d by (auto simp: sets_reg_def exec_simps keeps_rset)
  then have "sim V tsp L (exec [Rm uMV d 0] m) (x86_write r 0 s)" if "sim V tsp L m s" for tsp L m s
    using sim_write [OF that r, of e 0] by (simp add: d_def)
  then show ?thesis
    using d by (intro tripleI [where c = "[Rm uMV d 0]"])
      (auto simp: setGPR_ref_def allocatedGPR_gpr [OF n(1)] d_def holds_def pinned_def)
qed

lemma step_set_PF:
  assumes "scratch_index e < 7"
  shows "triple e (emit_if n (\<lambda>e. do {
       (p, e) \<leftarrow> scratch e;
       popScratch (emits [LI p 1, St 1 p off_pf threadStatePointer] e) })) (holds V [] live now)
     (after V [] live now n X86_REF_PF (\<lambda>_. True))"
proof -
  define t where "t = scratch_gprs ! scratch_index e"
  have t: "t \<in> free e" "t \<noteq> 0" "t \<noteq> 27"
    using scratch_in_free [OF assms] scratch_not_special [OF assms] by (auto simp: t_def)
  have "gen (\<lambda>e. do { (p, e) \<leftarrow> scratch e; popScratch (emits [LI p 1, St 1 p off_pf threadStatePointer] e) }) e
      (\<lambda>m m'. sets_byte e off_pf True m m')"
    by (rule genI [where c = "[LI t 1, St 1 t off_pf 27]"])
       (use assms t in \<open>simp_all add: emits_index exec_simps sets_byte_def keeps_rset store_1 flip: t_def\<close>)
  from triple_byte_flag [OF this _ avoids_Nil] show ?thesis by simp
qed

lemma step_set_ZF: "triple e (emit_if n (setFlag X86_REF_ZF)) (holds V [] live now) (after V [] live now n X86_REF_ZF (\<lambda>_. True))"
  by (rule triple_reg_flag [OF setFlag_gen _ avoids_Nil]) simp_all

lemma step_clear_SF:
  "triple e (emit_if n (\<lambda>e. do { (s, e) \<leftarrow> flag X86_REF_SF e; Some (emits [Rm uMV s 0] e) })) (holds V [] live now)
    (after V [] live now n X86_REF_SF (\<lambda>_. False))"
proof -
  have "gen (\<lambda>e. do { (s, e) \<leftarrow> flag X86_REF_SF e; Some (emits [Rm uMV s 0] e) }) e (\<lambda>m m'. sets_reg e 24 0 m m')"
    by (rule genI [where c = "[Rm uMV 24 0]"]) (simp_all add: exec_simps sets_reg_def keeps_rset)
  from triple_reg_flag [OF this _ avoids_Nil] show ?thesis by simp
qed

lemma zero_flags: "gp_size sz \<Longrightarrow> set_logic sz 0 s = s\<lparr>xflag := (xflag s)(X86_REF_CF := False, X86_REF_PF := True,
    X86_REF_ZF := True, X86_REF_SF := False, X86_REF_OF := False)\<rparr>"
  by (simp add: set_logic_def x86_pf_def x86_zf_def x86_sf_def)

lemma write_logic: "x86_write r v (set_logic sz w s) = set_logic sz w (x86_write r v s)"
  by (simp add: x86_write_def set_logic_def)

lemma fast_XOR_zero:
  assumes e: "scratch_index e = 0" and r: "plain_reg V r" and sz: "reg_size r = X86_SIZE_DWORD \<or> reg_size r = X86_SIZE_QWORD"
  shows "translates V (fast_XOR V (RegOp r) (RegOp r)) e {} logic_defs (x86_logic (XOR) r (RegOp r))"
proof (rule translatesI, rule comp_triple)
  note n = plain_reg_facts [OF r]
  have i: "scratch_index e < 7" using e by simp
  have split: "fast_XOR V (RegOp r) (RegOp r) e = do {
      e \<leftarrow> setGPR_ref V (reg_no r) X86_SIZE_QWORD 0 e;
      e \<leftarrow> emit_if (needs_flag V X86_REF_CF) (clearFlag X86_REF_CF) e;
      e \<leftarrow> emit_if (needs_flag V X86_REF_PF) (\<lambda>e. do {
             (p, e) \<leftarrow> scratch e;
             popScratch (emits [LI p 1, St 1 p off_pf threadStatePointer] e) }) e;
      e \<leftarrow> emit_if (needs_flag V X86_REF_ZF) (setFlag X86_REF_ZF) e;
      e \<leftarrow> emit_if (needs_flag V X86_REF_SF) (\<lambda>e. do {
             (s, e) \<leftarrow> flag X86_REF_SF e;
             Some (emits [Rm uMV s 0] e) }) e;
      emit_if (needs_flag V X86_REF_OF) (clearFlag X86_REF_OF) e }" for e
    unfolding fast_XOR_def using sz n by (simp add: reg_value_def del: scratch_next flag_regs)
  show "triple e (fast_XOR V (RegOp r) (RegOp r)) (holds V [] (\<lambda>L. L) (\<lambda>s. s))
      (holds V [] (live_after V logic_defs) (x86_logic (XOR) r (RegOp r)))"
    unfolding ext [OF split]
    apply (rule triple_post)
     apply (rule triple_seq [OF step_zero_register [OF r sz]])
     apply (rule triple_seq [OF step_clear(1) [OF avoids_Nil]])
     apply (rule triple_seq [OF step_set_PF], simp add: i)
     apply (rule triple_seq [OF step_set_ZF])
     apply (rule triple_seq [OF step_clear_SF])
     apply (rule step_clear(2) [OF avoids_Nil])
    apply (erule holds_cong)
     apply (auto simp: upd_def live_after_def logic_defs_def)[1]
    apply (simp add: x86_logic_def write_logic zero_flags [OF n(2)])
    done
qed

lemma fast_XOR_translates:
  assumes e: "scratch_index e = 0" and r: "plain_reg V r" and src: "plain_operand V src" "noflags_src V r src"
  shows "translates V (fast_XOR V (RegOp r) src) e {} logic_defs (x86_logic (XOR) r src)"
proof (cases "(reg_size r = X86_SIZE_DWORD \<or> reg_size r = X86_SIZE_QWORD) \<and> RegOp r = src")
  case True
  then show ?thesis using fast_XOR_zero [OF e r] by auto
next
  case False
  note n = plain_reg_facts [OF r]
  show ?thesis
  proof (cases "ext_B V \<and> noflag_opts V \<and> \<not> needs_any V")
    case True
    show ?thesis
      by (rule translates_cong [OF _ _ OP_noflags_destreg_correct [OF _ e r src, of rXOR rXOR logic_defs
            "\<lambda>s. set_logic (reg_size r) (x86_value (RegOp r) s XOR x86_value src s) s"]])
         (use True False n in \<open>auto simp: fast_XOR_def x86_logic_def Let_def set_logic_def noflags_ops_def logic_defs_def needs_any_def\<close>)
  next
    case flags: False
    have "fast_XOR V (RegOp r) src e = logic_handler V rXOR r src e" for e
      unfolding fast_XOR_def logic_handler_def Let_def getSize.simps n bind.bind_lunit
      apply (subst if_not_P, use False in simp)
      apply (subst if_not_P, use flags in simp)
      apply (simp only: handler_simps n)
      done
    moreover have "rop_sem rXOR = (XOR)" by (simp add: fun_eq_iff)
    ultimately show ?thesis
      using logic_handler_correct [OF e r src(1), of rXOR] by (simp add: translates_def)
  qed
qed

section \<open>TEST\<close>

definition x86_TEST :: "ZydisRegister \<Rightarrow> operand \<Rightarrow> x86 \<Rightarrow> x86" where
  "x86_TEST r src s = set_logic (reg_size r) (x86_value (RegOp r) s AND x86_value src s) s"

text \<open>The requests for CF and OF are exchanged, so the translation is right where both flags
  are requested or neither is.\<close>

lemma fast_TEST_translates:
  assumes e: "scratch_index e = 0" and r: "plain_reg V r" and src: "plain_operand V src"
    and both: "needs_flag V X86_REF_CF = needs_flag V X86_REF_OF"
  shows "translates V (fast_TEST V (RegOp r) src) e {} logic_defs (x86_TEST r src)"
proof (cases "needs_any V")
  case False
  then have "sim V tsp (live_after V logic_defs L) m (x86_TEST r src s)" if "sim V tsp L m s" for tsp L m s
    by (rule_tac sim_flags [OF that]) (auto simp: x86_TEST_def set_logic_def live_after_def logic_defs_def needs_any_def)
  then show ?thesis using False by (intro translates_nothing) (auto simp: fast_TEST_def)
next
  case True
  have op0: "plain_operand V (RegOp r)" using r by simp
  have split: "fast_TEST V (RegOp r) src e = do {
      (result, e) \<leftarrow> scratch e;
      (x, e) \<leftarrow> getGPR V (Operand 1) src e;
      (dst, e) \<leftarrow> getGPR V (Operand 0) (RegOp r) e;
      logic_flags V result (reg_size r) (emits [Rr rAND result dst x] e) }" for e
    unfolding fast_TEST_def logic_flags_def Let_def both
    by (simp only: True handler_simps not_True_eq_False plain_reg_facts [OF r])
  show ?thesis
    apply (rule translatesI)
    apply (unfold ext [OF split])
    apply (rule comp_binary [OF e op0 src])
    apply (rule comp_emits [OF step_result], assumption, assumption, simp)
    apply (rule comp_mono, rule comp_done, rule logic_flags_step [where r = 1])
    apply (simp_all add: safe_result r plain_reg_facts [OF r] x86_TEST_def [abs_def])
    done
qed

section \<open>One operand\<close>

lemma comp_unary:
  assumes e: "scratch_index e = 0" and op0: "plain_operand V op0"
    and g: "\<And>e' dst. scratch_index e' \<le> 2 \<Longrightarrow> 1 \<le> scratch_index e' \<Longrightarrow>
      safe (scratch_index e') [(dst, x86_value op0)] \<Longrightarrow> dst \<noteq> 1 \<Longrightarrow>
      compiles e' (g 1 dst) (holds V [(dst, x86_value op0)] (\<lambda>L. L) (\<lambda>s. s)) Q"
  shows "compiles e (\<lambda>e. scratch e \<bind> (\<lambda>(result, e). getGPR V ptr op0 e \<bind> (\<lambda>(dst, e). g result dst e)))
    (holds V [] (\<lambda>L. L) (\<lambda>s. s)) Q"
  apply (rule comp_scratch)
   apply (simp add: e)
  apply (simp only: e scratch_0)
proof -
  obtain dst k where dst: "k \<le> 1" "reads V (getGPR V ptr op0) (advance 1 e) (x86_value op0) dst k"
    using getGPR_reads [OF _ op0, of "advance 1 e" ptr] e by auto
  show "compiles (advance 1 e) (\<lambda>e. getGPR V ptr op0 e \<bind> (\<lambda>(dst, e). g 1 dst e)) (holds V [] (\<lambda>L. L) (\<lambda>s. s)) Q"
  proof (rule comp_reads [OF dst(2) safe_Nil])
    fix c assume s: "safe (scratch_index (advance 1 e) + k) [(dst, x86_value op0)]"
      "dst \<in> free (advance 1 e) \<or> dst \<in> set gpr_alloc"
    have "dst \<noteq> 1" using free_taken [OF s(2)] by (simp add: e scratch_0)
    then show "compiles (advance k (emits c (advance 1 e))) (g 1 dst) (holds V [(dst, x86_value op0)] (\<lambda>L. L) (\<lambda>s. s)) Q"
      using s dst(1) e by (intro g) simp_all
  qed
qed

text \<open>A result computed from the operand alone.\<close>

lemma step_unary_result:
  assumes "dst \<noteq> 1" "list_all straight c" "\<And>m. exec c m = rset 1 (R (rget m dst)) m"
  shows "triple e (\<lambda>e. Some (emits c e)) (holds V [(dst, A)] live now) (holds V [(1, \<lambda>s. R (A s)), (dst, A)] live now)"
  by (rule triple_result [where r = 1 and v = "\<lambda>m. R (rget m dst)"])
     (use assms in \<open>auto simp: avoids_single pinned_def\<close>)

lemma fast_NOT_translates:
  assumes e: "scratch_index e = 0" and r: "plain_reg V r"
  shows "translates V (fast_NOT V (RegOp r)) e {} {} (x86_NOT r)"
proof (rule translatesI)
  have op0: "plain_operand V (RegOp r)" using r by simp
  have l: "live_after V {} = (\<lambda>L. L)" by (simp add: live_after_def fun_eq_iff)
  show "compiles e (fast_NOT V (RegOp r)) (holds V [] (\<lambda>L. L) (\<lambda>s. s)) (holds V [] (live_after V {}) (x86_NOT r))"
    apply (unfold fast_NOT_def l)
    apply (rule comp_unary [OF e op0])
    apply (rule comp_emits [OF step_unary_result [where R = "(NOT)"]], assumption, simp, simp add: exec_simps)
    apply (rule comp_finish)
    apply (simp_all add: safe_result r x86_NOT_def)
    done
qed

section \<open>Increment and decrement\<close>

text \<open>A helper called with the constant one in a scratch register.\<close>

definition with_one :: "(reg \<Rightarrow> emitter \<Rightarrow> emitter option) \<Rightarrow> emitter \<Rightarrow> emitter option" where
  "with_one f e = do {
     (one, e) \<leftarrow> scratch e;
     e \<leftarrow> f one (emits [LI one 1] e);
     popScratch e
   }"

lemma with_one_gen:
  assumes i: "scratch_index e < 7" and t: "t = scratch_gprs ! scratch_index e"
    and f: "gen (f t) (advance 1 (emits [LI t 1] e)) P"
  shows "gen (with_one f) e (\<lambda>m m'. P (rset t 1 m) m')"
proof -
  obtain c where c: "f t (advance 1 (emits [LI t 1] e)) = Some (emits c (advance 1 (emits [LI t 1] e)))"
    "list_all straight c" "\<And>m. P m (exec c m)"
    using f unfolding gen_def by blast
  have "with_one f e = Some (emits ([LI t 1] @ c) e)"
    using c(1) i unfolding with_one_def
    by (simp add: scratch_advance t advance_def emits_index del: scratch_next)
  then show ?thesis
    using c by (intro genI [where c = "[LI t 1] @ c"]) (simp_all add: exec_simps)
qed

lemma sets_advance:
  "sets_reg (advance k (emits c e)) f v (rset t x m) m' \<Longrightarrow> t \<in> free e \<Longrightarrow> f \<noteq> t \<Longrightarrow> sets_reg e f v m m'"
  "sets_byte (advance k (emits c e)) off b (rset t x m) m' \<Longrightarrow> t \<in> free e \<Longrightarrow> t \<noteq> 27 \<Longrightarrow> sets_byte e off b m m'"
  using free_advance_emits [of k c e] unfolding sets_reg_def sets_byte_def keeps_def by (auto simp: subset_iff)

text \<open>The scratch register that \<open>with_one\<close> takes.\<close>

lemma one_scratch:
  assumes i: "Suc (scratch_index e) < 7"
  obtains t where "t = scratch_gprs ! scratch_index e" "t \<in> free e" "t \<noteq> 0" "t \<noteq> 25" "t \<noteq> 27"
    "t \<notin> free (advance 1 (emits c e))" "\<And>r. r \<notin> free e \<Longrightarrow> r \<noteq> t \<and> r \<notin> free (advance 1 (emits c e))"
proof
  have i1: "scratch_index e < 7" using i by simp
  let ?t = "scratch_gprs ! scratch_index e"
  show "?t \<in> free e" "?t \<noteq> 0" "?t \<noteq> 25" "?t \<noteq> 27" "?t \<notin> free (advance 1 (emits c e))"
    using scratch_in_free [OF i1] scratch_not_special [OF i1] scratch_not_free [of "emits c e"] i1 by auto
  then show "r \<noteq> ?t \<and> r \<notin> free (advance 1 (emits c e))" if "r \<notin> free e" for r
    using that free_advance_emits [of 1 c e] by blast
qed simp

lemma step_OF_inc:
  assumes i: "Suc (scratch_index e) < 7" and gp: "gp_size sz" and av: "avoids (insert 25 (free e)) ps"
    and a: "(a, A) \<in> set ps" and r: "(r, R) \<in> set ps" and R: "\<And>s. R s = A s + 1"
  shows "triple e (emit_if n (with_one (\<lambda>one. updateOverflowAdd a one r sz))) (holds V ps live now)
    (after V ps live now n X86_REF_OF (\<lambda>s. x86_of_add (bits sz) (A s) 1 False))"
proof -
  obtain t where t: "t = scratch_gprs ! scratch_index e" "t \<in> free e" "t \<noteq> 0" "t \<noteq> 25" "t \<noteq> 27"
    "t \<notin> free (advance 1 (emits [LI t 1] e))" "\<And>r. r \<notin> free e \<Longrightarrow> r \<noteq> t \<and> r \<notin> free (advance 1 (emits [LI t 1] e))"
    using one_scratch [OF i] by metis
  note regs = avoids_pin [OF av a] avoids_pin [OF av r]
  have g: "gen (with_one (\<lambda>one. updateOverflowAdd a one r sz)) e (\<lambda>m m'. \<forall>c'.
     rget (rset t 1 m) r = rget (rset t 1 m) a + rget (rset t 1 m) t + of_bool c' \<longrightarrow>
     sets_reg (advance 1 (emits [LI t 1] e)) 25
       (of_bool (x86_of_add (bits sz) (rget (rset t 1 m) a) (rget (rset t 1 m) t) c')) (rset t 1 m) m')"
    by (rule with_one_gen [OF _ t(1)], use i in simp, rule updateOverflowAdd_gen [OF _ gp])
       (use i t regs in auto)
  show ?thesis
  proof (rule triple_reg_flag [OF g _ av])
    fix s m m' assume p: "pinned ps s m" and E: "\<forall>c'.
     rget (rset t 1 m) r = rget (rset t 1 m) a + rget (rset t 1 m) t + of_bool c' \<longrightarrow>
     sets_reg (advance 1 (emits [LI t 1] e)) 25
       (of_bool (x86_of_add (bits sz) (rget (rset t 1 m) a) (rget (rset t 1 m) t) c')) (rset t 1 m) m'"
    have "a \<noteq> t" "r \<noteq> t" using t(7) regs by auto
    then have "sets_reg (advance 1 (emits [LI t 1] e)) 25 (of_bool (x86_of_add (bits sz) (A s) 1 False)) (rset t 1 m) m'"
      using E [rule_format, of False] t(3) by (simp add: pinnedD [OF p a] pinnedD [OF p r] R)
    then show "sets_reg e 25 (of_bool (x86_of_add (bits sz) (A s) 1 False)) m m'"
      by (rule sets_advance(1)) (use t in auto)
  qed simp
qed

lemma step_OF_dec:
  assumes i: "Suc (scratch_index e) < 7" and gp: "gp_size sz" and av: "avoids (insert 25 (free e)) ps"
    and a: "(a, A) \<in> set ps" and r: "(r, R) \<in> set ps" and R: "\<And>s. R s = A s - 1"
  shows "triple e (emit_if n (with_one (\<lambda>one. updateOverflowSub a one r sz))) (holds V ps live now)
    (after V ps live now n X86_REF_OF (\<lambda>s. x86_of_sub (bits sz) (A s) 1 False))"
proof -
  obtain t where t: "t = scratch_gprs ! scratch_index e" "t \<in> free e" "t \<noteq> 0" "t \<noteq> 25" "t \<noteq> 27"
    "t \<notin> free (advance 1 (emits [LI t 1] e))" "\<And>r. r \<notin> free e \<Longrightarrow> r \<noteq> t \<and> r \<notin> free (advance 1 (emits [LI t 1] e))"
    using one_scratch [OF i] by metis
  note regs = avoids_pin [OF av a] avoids_pin [OF av r]
  have g: "gen (with_one (\<lambda>one. updateOverflowSub a one r sz)) e (\<lambda>m m'. \<forall>c'.
     rget (rset t 1 m) r = rget (rset t 1 m) a - rget (rset t 1 m) t - of_bool c' \<longrightarrow>
     sets_reg (advance 1 (emits [LI t 1] e)) 25
       (of_bool (x86_of_sub (bits sz) (rget (rset t 1 m) a) (rget (rset t 1 m) t) c')) (rset t 1 m) m')"
    by (rule with_one_gen [OF _ t(1)], use i in simp, rule updateOverflowSub_gen [OF _ gp])
       (use i t regs in auto)
  show ?thesis
  proof (rule triple_reg_flag [OF g _ av])
    fix s m m' assume p: "pinned ps s m" and E: "\<forall>c'.
     rget (rset t 1 m) r = rget (rset t 1 m) a - rget (rset t 1 m) t - of_bool c' \<longrightarrow>
     sets_reg (advance 1 (emits [LI t 1] e)) 25
       (of_bool (x86_of_sub (bits sz) (rget (rset t 1 m) a) (rget (rset t 1 m) t) c')) (rset t 1 m) m'"
    have "a \<noteq> t" "r \<noteq> t" using t(7) regs by auto
    then have "sets_reg (advance 1 (emits [LI t 1] e)) 25 (of_bool (x86_of_sub (bits sz) (A s) 1 False)) (rset t 1 m) m'"
      using E [rule_format, of False] t(3) by (simp add: pinnedD [OF p a] pinnedD [OF p r] R)
    then show "sets_reg e 25 (of_bool (x86_of_sub (bits sz) (A s) 1 False)) m m'"
      by (rule sets_advance(1)) (use t in auto)
  qed simp
qed

lemma step_AF_dec:
  assumes i: "Suc (Suc (scratch_index e)) < 7" and av: "avoids (free e) ps" and a: "(a, A) \<in> set ps"
  shows "triple e (emit_if n (with_one (\<lambda>one. updateAuxiliarySub a one))) (holds V ps live now)
    (after V ps live now n X86_REF_AF (\<lambda>s. x86_af_sub (A s) 1 False))"
proof -
  have i': "Suc (scratch_index e) < 7" using i by simp
  obtain t where t: "t = scratch_gprs ! scratch_index e" "t \<in> free e" "t \<noteq> 0" "t \<noteq> 25" "t \<noteq> 27"
    "t \<notin> free (advance 1 (emits [LI t 1] e))" "\<And>r. r \<notin> free e \<Longrightarrow> r \<noteq> t \<and> r \<notin> free (advance 1 (emits [LI t 1] e))"
    using one_scratch [OF i'] by metis
  note regs = avoids_pin [OF av a]
  have g: "gen (with_one (\<lambda>one. updateAuxiliarySub a one)) e (\<lambda>m m'.
     sets_byte (advance 1 (emits [LI t 1] e)) off_af
       (x86_af_sub (rget (rset t 1 m) a) (rget (rset t 1 m) t) False) (rset t 1 m) m')"
    by (rule with_one_gen [OF _ t(1)], use i in simp, rule updateAuxiliarySub_gen) (use i t regs in auto)
  show ?thesis
  proof (rule triple_byte_flag [OF g _ av])
    fix s m m' assume p: "pinned ps s m" and E: "sets_byte (advance 1 (emits [LI t 1] e)) off_af
       (x86_af_sub (rget (rset t 1 m) a) (rget (rset t 1 m) t) False) (rset t 1 m) m'"
    have "a \<noteq> t" using t(7) regs by auto
    then have "sets_byte (advance 1 (emits [LI t 1] e)) off_af (x86_af_sub (A s) 1 False) (rset t 1 m) m'"
      using E t(3) by (simp add: pinnedD [OF p a])
    then show "sets_byte e off_af (x86_af_sub (A s) 1 False) m m'"
      by (rule sets_advance(2)) (use t in auto)
  qed simp
qed

lemma fast_INC_translates:
  assumes e: "scratch_index e = 0" and r: "plain_reg V r"
  shows "translates V (fast_INC V (RegOp r)) e {} inc_defs (x86_INC r)"
proof (rule translatesI)
  have op0: "plain_operand V (RegOp r)" using r by simp
  note n = plain_reg_facts [OF r]
  let ?A = "x86_value (RegOp r)" and ?R = "\<lambda>s. x86_value (RegOp r) s + 1"
  have split: "fast_INC V (RegOp r) e = do {
      (res, e) \<leftarrow> scratch e;
      (dst, e) \<leftarrow> getGPR V (Operand 0) (RegOp r) e;
      e \<leftarrow> emit_if (needs_flag V X86_REF_AF) (updateAuxiliaryAdd dst res) (emits [Ri iADDI res dst 1] e);
      e \<leftarrow> emit_if (needs_flag V X86_REF_OF) (with_one (\<lambda>one. updateOverflowAdd dst one res (reg_size r))) e;
      e \<leftarrow> emit_if (needs_flag V X86_REF_PF) (updateParity V res) e;
      e \<leftarrow> emit_if (needs_flag V X86_REF_ZF) (updateZero V res (reg_size r)) e;
      e \<leftarrow> emit_if (needs_flag V X86_REF_SF) (updateSign res (reg_size r)) e;
      setGPR V (Operand 0) (RegOp r) res e }" for e
    unfolding fast_INC_def with_one_def [abs_def] Let_def by (simp only: handler_simps n)
  show "compiles e (fast_INC V (RegOp r)) (holds V [] (\<lambda>L. L) (\<lambda>s. s)) (holds V [] (live_after V inc_defs) (x86_INC r))"
    unfolding ext [OF split]
  proof (rule comp_unary [OF e op0], rule comp_emits [OF step_unary_result [where R = "\<lambda>a. a + 1"]], assumption, simp, simp add: exec_simps)
    fix e' :: emitter and dst c assume i: "scratch_index e' \<le> 2" "1 \<le> scratch_index e'" and s: "safe (scratch_index e') [(dst, ?A)]"
    let ?ps = "[(1, ?R), (dst, ?A)]"
    have sf: "safe (scratch_index e') ?ps" using safe_result [OF s, of ?R] i by simp
    note av = safe_avoids(1) [OF sf] safe_avoids(2) [OF sf, of 23] safe_avoids(2) [OF sf, of 24] safe_avoids(2) [OF sf, of 25]
    have pin: "(1, ?R) \<in> set ?ps" "(dst, ?A) \<in> set ?ps" by simp_all
    show "compiles (emits c e') (\<lambda>e. emit_if (needs_flag V X86_REF_AF) (updateAuxiliaryAdd dst 1) e \<bind>
      (\<lambda>e. emit_if (needs_flag V X86_REF_OF) (with_one (\<lambda>one. updateOverflowAdd dst one 1 (reg_size r))) e \<bind>
      (\<lambda>e. emit_if (needs_flag V X86_REF_PF) (updateParity V 1) e \<bind>
      (\<lambda>e. emit_if (needs_flag V X86_REF_ZF) (updateZero V 1 (reg_size r)) e \<bind>
      (\<lambda>e. emit_if (needs_flag V X86_REF_SF) (updateSign 1 (reg_size r)) e \<bind>
      setGPR V (Operand 0) (RegOp r) 1)))))
     (holds V ?ps (\<lambda>L. L) (\<lambda>s. s)) (holds V [] (live_after V inc_defs) (x86_INC r))"
      apply (rule comp_seq [OF step_AF_add [OF _ _ pin(2,1)]], use i in simp, simp add: av, simp)
      apply (rule comp_seq [OF step_OF_inc [OF _ n(2) _ pin(2,1)]], use i in simp, simp add: av, simp)
      apply (rule comp_seq [OF step_PF [OF _ _ pin(1)]], use i in simp, simp add: av)
      apply (rule comp_seq [OF step_ZF [OF n(2) _ pin(1)]], simp add: av)
      apply (rule comp_seq [OF step_SF [OF n(2) _ pin(1)]], simp add: av)
      apply (rule comp_mono, rule comp_finish [OF _ r _ _ refl], use i in simp, use sf in simp, simp)
      apply (erule holds_cong)
       apply (auto simp: upd_def live_after_def inc_defs_def)[1]
      apply (simp add: x86_INC_def Let_def)
      done
  qed
qed

lemma fast_DEC_translates:
  assumes e: "scratch_index e = 0" and r: "plain_reg V r"
  shows "translates V (fast_DEC V (RegOp r)) e {} inc_defs (x86_DEC r)"
proof (rule translatesI)
  have op0: "plain_operand V (RegOp r)" using r by simp
  note n = plain_reg_facts [OF r]
  let ?A = "x86_value (RegOp r)" and ?R = "\<lambda>s. x86_value (RegOp r) s - 1"
  have split: "fast_DEC V (RegOp r) e = do {
      (res, e) \<leftarrow> scratch e;
      (dst, e) \<leftarrow> getGPR V (Operand 0) (RegOp r) e;
      e \<leftarrow> emit_if (needs_flag V X86_REF_AF) (with_one (\<lambda>one. updateAuxiliarySub dst one)) (emits [Ri iADDI res dst (- 1)] e);
      e \<leftarrow> emit_if (needs_flag V X86_REF_OF) (with_one (\<lambda>one. updateOverflowSub dst one res (reg_size r))) e;
      e \<leftarrow> emit_if (needs_flag V X86_REF_PF) (updateParity V res) e;
      e \<leftarrow> emit_if (needs_flag V X86_REF_ZF) (updateZero V res (reg_size r)) e;
      e \<leftarrow> emit_if (needs_flag V X86_REF_SF) (updateSign res (reg_size r)) e;
      setGPR V (Operand 0) (RegOp r) res e }" for e
    unfolding fast_DEC_def with_one_def [abs_def] Let_def by (simp only: handler_simps n)
  show "compiles e (fast_DEC V (RegOp r)) (holds V [] (\<lambda>L. L) (\<lambda>s. s)) (holds V [] (live_after V inc_defs) (x86_DEC r))"
    unfolding ext [OF split]
  proof (rule comp_unary [OF e op0], rule comp_emits [OF step_unary_result [where R = "\<lambda>a. a - 1"]], assumption, simp, simp add: exec_simps)
    fix e' :: emitter and dst c assume i: "scratch_index e' \<le> 2" "1 \<le> scratch_index e'" and s: "safe (scratch_index e') [(dst, ?A)]"
    let ?ps = "[(1, ?R), (dst, ?A)]"
    have sf: "safe (scratch_index e') ?ps" using safe_result [OF s, of ?R] i by simp
    note av = safe_avoids(1) [OF sf] safe_avoids(2) [OF sf, of 23] safe_avoids(2) [OF sf, of 24] safe_avoids(2) [OF sf, of 25]
    have pin: "(1, ?R) \<in> set ?ps" "(dst, ?A) \<in> set ?ps" by simp_all
    show "compiles (emits c e') (\<lambda>e. emit_if (needs_flag V X86_REF_AF) (with_one (\<lambda>one. updateAuxiliarySub dst one)) e \<bind>
      (\<lambda>e. emit_if (needs_flag V X86_REF_OF) (with_one (\<lambda>one. updateOverflowSub dst one 1 (reg_size r))) e \<bind>
      (\<lambda>e. emit_if (needs_flag V X86_REF_PF) (updateParity V 1) e \<bind>
      (\<lambda>e. emit_if (needs_flag V X86_REF_ZF) (updateZero V 1 (reg_size r)) e \<bind>
      (\<lambda>e. emit_if (needs_flag V X86_REF_SF) (updateSign 1 (reg_size r)) e \<bind>
      setGPR V (Operand 0) (RegOp r) 1)))))
     (holds V ?ps (\<lambda>L. L) (\<lambda>s. s)) (holds V [] (live_after V inc_defs) (x86_DEC r))"
      apply (rule comp_seq [OF step_AF_dec [OF _ _ pin(2)]], use i in simp, simp add: av)
      apply (rule comp_seq [OF step_OF_dec [OF _ n(2) _ pin(2,1)]], use i in simp, simp add: av, simp)
      apply (rule comp_seq [OF step_PF [OF _ _ pin(1)]], use i in simp, simp add: av)
      apply (rule comp_seq [OF step_ZF [OF n(2) _ pin(1)]], simp add: av)
      apply (rule comp_seq [OF step_SF [OF n(2) _ pin(1)]], simp add: av)
      apply (rule comp_mono, rule comp_finish [OF _ r _ _ refl], use i in simp, use sf in simp, simp)
      apply (erule holds_cong)
       apply (auto simp: upd_def live_after_def inc_defs_def)[1]
      apply (simp add: x86_DEC_def Let_def)
      done
  qed
qed

section \<open>Negation\<close>

text \<open>The narrow forms compute the result from the sign-extended operand; it agrees with the
  negation of the operand in the low bits.\<close>

definition neg_code :: "env \<Rightarrow> x86_size \<Rightarrow> reg \<Rightarrow> reg \<Rightarrow> rv list" where
  "neg_code V sz result dst = (
     if sz = X86_SIZE_BYTE \<or> sz = X86_SIZE_BYTE_HIGH then
       (if ext_B V then [Rm uSEXTB result dst] else [Sh sSLLI result dst 56, Sh sSRAI result result 56]) @ [Rm uNEG result result]
     else if sz = X86_SIZE_WORD then
       (if ext_B V then [Rm uSEXTH result dst] else [Sh sSLLI result dst 48, Sh sSRAI result result 48]) @ [Rm uNEG result result]
     else if sz = X86_SIZE_DWORD then [Rr rSUBW result 0 dst]
     else [Rm uNEG result dst])"

fun neg_value :: "x86_size \<Rightarrow> u64 \<Rightarrow> u64" where
  "neg_value X86_SIZE_BYTE a = - sx 7 a"
| "neg_value X86_SIZE_BYTE_HIGH a = - sx 7 a"
| "neg_value X86_SIZE_WORD a = - sx 15 a"
| "neg_value X86_SIZE_DWORD a = sx 31 (0 - a)"
| "neg_value _ a = - a"

lemma shift_sign_extend:
  assumes "Suc n < 64"
  shows "signed_drop_bit (63 - n) (push_bit (63 - n) (x :: u64)) = signed_take_bit n x"
  using assms by (intro bit_word_eqI) 
    (auto simp: bit_simps bit_signed_drop_bit_iff bit_signed_take_bit_iff min_def not_less_eq_eq dest: le_antisym)

lemma neg_code_exec: "result \<noteq> 0 \<Longrightarrow> gp_size sz \<Longrightarrow> exec (neg_code V sz result dst) m = rset result (neg_value sz (rget m dst)) m"
  using shift_sign_extend [of 7] shift_sign_extend [of 15]
  by (cases sz) (simp_all add: neg_code_def exec_simps)

lemma neg_code_straight: "list_all straight (neg_code V sz result dst)"
  by (simp add: neg_code_def)

lemma take_bit_uminus: "n \<le> 64 \<Longrightarrow> take_bit n (x :: u64) = take_bit n y \<Longrightarrow> take_bit n (- x) = take_bit n (- y)"
  by (metis diff_0 take_bit_cong_sub)

lemma neg_value_low: "gp_size sz \<Longrightarrow> take_bit (bits sz) (neg_value sz a) = take_bit (bits sz) (- a)"
  by (cases sz) (auto intro!: take_bit_uminus simp: take_bit_signed_take_bit)

lemma flags_low:
  assumes "gp_size sz" "take_bit (bits sz) v = take_bit (bits sz) w"
  shows "x86_zf (bits sz) v = x86_zf (bits sz) w" "x86_sf (bits sz) v = x86_sf (bits sz) w" "x86_pf v = x86_pf w"
proof -
  have b: "bit v i \<longleftrightarrow> bit w i" if "i < bits sz" for i using assms(2) that by (metis bit_take_bit_iff)
  show "x86_zf (bits sz) v = x86_zf (bits sz) w" by (simp add: x86_zf_def assms(2))
  show "x86_sf (bits sz) v = x86_sf (bits sz) w" using b bits_bounds(1) [of sz] by (simp add: x86_sf_def)
  have "filter (bit v) [0..<8] = filter (bit w) [0..<8]"
    by (rule filter_cong) (use b bits_bounds(1) [of sz] in auto)
  then show "x86_pf v = x86_pf w" by (simp add: x86_pf_def)
qed

lemma cf_sub_zero: "take_bit n a = a \<Longrightarrow> x86_cf_sub n 0 a False \<longleftrightarrow> a \<noteq> 0"
  by (simp add: x86_cf_sub_def low_def unat_gt_0)

lemma write_cong:
  "(\<And>x. xflag t x = xflag u x) \<Longrightarrow> xgpr t = xgpr u \<Longrightarrow> xmem t = xmem u \<Longrightarrow> x86_write r v t = x86_write r v (u :: x86)"
  unfolding x86_write_def by (simp add: fun_eq_iff)

lemma step_CF_neg:
  assumes av: "avoids (insert 21 (free e)) ps" and a: "(a, A) \<in> set ps" and z: "\<And>s. take_bit k (A s) = A s"
  shows "triple e (emit_if n (\<lambda>e. do { (cy, e) \<leftarrow> flag X86_REF_CF e; Some (emits [Rm uSNEZ cy a] e) })) (holds V ps live now)
    (after V ps live now n X86_REF_CF (\<lambda>s. x86_cf_sub k 0 (A s) False))"
proof -
  have g: "gen (\<lambda>e. do { (cy, e) \<leftarrow> flag X86_REF_CF e; Some (emits [Rm uSNEZ cy a] e) }) e
      (\<lambda>m m'. sets_reg e 21 (of_bool (rget m a \<noteq> 0)) m m')"
    by (rule genI [where c = "[Rm uSNEZ 21 a]"]) (simp_all add: exec_simps sets_reg_def keeps_rset)
  show ?thesis
    by (rule triple_reg_flag [OF g _ av]) (simp_all add: pinnedD [OF _ a] cf_sub_zero [OF z])
qed

lemma step_AF_neg:
  assumes i: "scratch_index e < 7" and av: "avoids (free e) ps" and a: "(a, A) \<in> set ps"
  shows "triple e (emit_if n (\<lambda>e. do {
       (x, e) \<leftarrow> scratch e;
       popScratch (emits [Ri iANDI x a 0xF, Rm uSNEZ x x, St 1 x off_af threadStatePointer] e) })) (holds V ps live now)
    (after V ps live now n X86_REF_AF (\<lambda>s. x86_af_sub 0 (A s) False))"
proof -
  define t where "t = scratch_gprs ! scratch_index e"
  have t: "t \<in> free e" "t \<noteq> 0" "t \<noteq> 27"
    using scratch_in_free [OF i] scratch_not_special [OF i] by (auto simp: t_def)
  have z: "x86_af_sub 0 v False \<longleftrightarrow> take_bit 4 v \<noteq> 0" for v
    using cf_sub_zero [of 4 "take_bit 4 v"] by (simp add: x86_af_sub_def x86_cf_sub_def low_def)
  have g: "gen (\<lambda>e. do { (x, e) \<leftarrow> scratch e;
       popScratch (emits [Ri iANDI x a 0xF, Rm uSNEZ x x, St 1 x off_af threadStatePointer] e) }) e
      (\<lambda>m m'. sets_byte e off_af (take_bit 4 (rget m a) \<noteq> 0) m m')"
    by (rule genI [where c = "[Ri iANDI t a 0xF, Rm uSNEZ t t, St 1 t off_af 27]"])
       (use i t in \<open>simp_all add: emits_index exec_simps sets_byte_def keeps_rset store_1 and_15 flip: t_def\<close>)
  show ?thesis
    by (rule triple_byte_flag [OF g _ av]) (simp_all add: pinnedD [OF _ a] z)
qed

lemma step_OF_neg:
  assumes i: "scratch_index e < 7" and gp: "gp_size sz" and av: "avoids (insert 25 (free e)) ps"
    and a: "(a, A) \<in> set ps" and r: "(r, R) \<in> set ps" and R: "\<And>s. take_bit (bits sz) (R s) = take_bit (bits sz) (- A s)"
  shows "triple e (emit_if n (updateOverflowSub 0 a r sz)) (holds V ps live now)
    (after V ps live now n X86_REF_OF (\<lambda>s. x86_of_sub (bits sz) 0 (A s) False))"
proof -
  have z: "0 \<notin> insert 25 (free e)" using free_special [of 0 e] by auto
  show ?thesis
  proof (rule triple_reg_flag [OF updateOverflowSub_low_gen [OF i gp z avoids_pin [OF av a] avoids_pin [OF av r]] _ av])
    fix s m m' assume p: "pinned ps s m"
      and E: "\<forall>c. take_bit (bits sz) (rget m r) = take_bit (bits sz) (rget m 0 - rget m a - of_bool c) \<longrightarrow>
        sets_reg e 25 (of_bool (x86_of_sub (bits sz) (rget m 0) (rget m a) c)) m m'"
    show "sets_reg e 25 (of_bool (x86_of_sub (bits sz) 0 (A s) False)) m m'"
      using E [rule_format, of False] by (simp add: pinnedD [OF p a] pinnedD [OF p r] R)
  qed simp
qed

lemma fast_NEG_translates:
  assumes e: "scratch_index e = 0" and r: "plain_reg V r"
  shows "translates V (fast_NEG V (RegOp r)) e {} status_flags (x86_NEG r)"
proof (rule translatesI)
  have op0: "plain_operand V (RegOp r)" using r by simp
  note n = plain_reg_facts [OF r]
  let ?A = "x86_value (RegOp r)" and ?R = "\<lambda>s. neg_value (reg_size r) (x86_value (RegOp r) s)"
  have split: "fast_NEG V (RegOp r) e = do {
      (result, e) \<leftarrow> scratch e;
      (dst, e) \<leftarrow> getGPR V (Operand 0) (RegOp r) e;
      e \<leftarrow> emit_if (needs_flag V X86_REF_CF) (\<lambda>e. do {
             (cy, e) \<leftarrow> flag X86_REF_CF e;
             Some (emits [Rm uSNEZ cy dst] e) }) (emits (neg_code V (reg_size r) result dst) e);
      e \<leftarrow> emit_if (needs_flag V X86_REF_ZF) (updateZero V result (reg_size r)) e;
      e \<leftarrow> emit_if (needs_flag V X86_REF_OF) (updateOverflowSub 0 dst result (reg_size r)) e;
      e \<leftarrow> emit_if (needs_flag V X86_REF_SF) (updateSign result (reg_size r)) e;
      e \<leftarrow> emit_if (needs_flag V X86_REF_AF) (\<lambda>e. do {
             (a, e) \<leftarrow> scratch e;
             popScratch (emits [Ri iANDI a dst 0xF, Rm uSNEZ a a, St 1 a off_af threadStatePointer] e) }) e;
      e \<leftarrow> emit_if (needs_flag V X86_REF_PF) (updateParity V result) e;
      setGPR V (Operand 0) (RegOp r) result e }" for e
    unfolding fast_NEG_def using n
    by (cases "reg_size r"; cases "ext_B V")
       (simp_all add: neg_code_def sextb_def sexth_def del: scratch_next flag_regs getGPR.simps setGPR.simps)
  show "compiles e (fast_NEG V (RegOp r)) (holds V [] (\<lambda>L. L) (\<lambda>s. s)) (holds V [] (live_after V status_flags) (x86_NEG r))"
    unfolding ext [OF split]
  proof (rule comp_unary [OF e op0], rule comp_emits [OF step_unary_result [where R = "neg_value (reg_size r)"]],
      assumption, rule neg_code_straight, rule neg_code_exec [OF _ n(2)], simp)
    fix e' :: emitter and dst c assume i: "scratch_index e' \<le> 2" "1 \<le> scratch_index e'" and s: "safe (scratch_index e') [(dst, ?A)]"
    let ?ps = "[(1, ?R), (dst, ?A)]"
    have sf: "safe (scratch_index e') ?ps" using safe_result [OF s, of ?R] i by simp
    note av = safe_avoids(1) [OF sf] safe_avoids(2) [OF sf, of 21] safe_avoids(2) [OF sf, of 23]
      safe_avoids(2) [OF sf, of 24] safe_avoids(2) [OF sf, of 25]
    have pin: "(1, ?R) \<in> set ?ps" "(dst, ?A) \<in> set ?ps" by simp_all
    note low = neg_value_low [OF n(2)]
    note fl = flags_low [OF n(2) low]
    have w: "x86_write r (?R s) t = x86_write r (- ?A s) t" for s t
      using write_part_cong [OF n(2) low] by (simp add: x86_write_def)
    show "compiles (emits c e') (\<lambda>e. emit_if (needs_flag V X86_REF_CF) (\<lambda>e. flag X86_REF_CF e \<bind> (\<lambda>(cy, e). Some (emits [Rm uSNEZ cy dst] e))) e \<bind>
      (\<lambda>e. emit_if (needs_flag V X86_REF_ZF) (updateZero V 1 (reg_size r)) e \<bind>
      (\<lambda>e. emit_if (needs_flag V X86_REF_OF) (updateOverflowSub 0 dst 1 (reg_size r)) e \<bind>
      (\<lambda>e. emit_if (needs_flag V X86_REF_SF) (updateSign 1 (reg_size r)) e \<bind>
      (\<lambda>e. emit_if (needs_flag V X86_REF_AF) (\<lambda>e. scratch e \<bind> (\<lambda>(a, e).
          popScratch (emits [Ri iANDI a dst 0xF, Rm uSNEZ a a, St 1 a off_af threadStatePointer] e))) e \<bind>
      (\<lambda>e. emit_if (needs_flag V X86_REF_PF) (updateParity V 1) e \<bind>
      setGPR V (Operand 0) (RegOp r) 1))))))
     (holds V ?ps (\<lambda>L. L) (\<lambda>s. s)) (holds V [] (live_after V status_flags) (x86_NEG r))"
      apply (rule comp_seq [OF step_CF_neg [OF _ pin(2) value_zext]], simp add: av)
      apply (rule comp_seq [OF step_ZF [OF n(2) _ pin(1)]], simp add: av)
      apply (rule comp_seq [OF step_OF_neg [OF _ n(2) _ pin(2,1) low]], use i in simp, simp add: av)
      apply (rule comp_seq [OF step_SF [OF n(2) _ pin(1)]], simp add: av)
      apply (rule comp_seq [OF step_AF_neg [OF _ _ pin(2)]], use i in simp, simp add: av)
      apply (rule comp_seq [OF step_PF [OF _ _ pin(1)]], use i in simp, simp add: av)
      apply (rule comp_mono, rule comp_finish [OF _ r _ _ refl], use i in simp, use sf in simp, simp)
      apply (erule holds_cong)
       apply (auto simp: upd_def live_after_def status_flags_def)[1]
      apply (simp only: w fl x86_NEG_def Let_def)
      apply (rule write_cong)
        apply (simp_all add: set_cmp_def)
      done
  qed
qed

end
