(* ===== verification/MoveHandlers.thy ===== *)
theory MoveHandlers
  imports Handlers
begin

text \<open>
  The handlers of \<^verbatim>\<open>v2/handlers.cpp\<close> that move data: \<^verbatim>\<open>MOV\<close> in all its forms, the extending
  moves, exchange, effective addresses, sign extension of the accumulator, the carry flag, and
  the conditional sets and moves.
\<close>

section \<open>Segment registers\<close>

definition is_segment :: "operand \<Rightarrow> bool" where
  "is_segment oper = (case oper of RegOp r \<Rightarrow> r \<in> {Z_ES, Z_CS, Z_SS, Z_DS, Z_FS, Z_GS} | _ \<Rightarrow> False)"

text \<open>Where \<^verbatim>\<open>ThreadState\<close> keeps the selectors.\<close>

fun selector_offset :: "ZydisRegister \<Rightarrow> u64 option" where
  "selector_offset Z_CS = Some 468"
| "selector_offset Z_DS = Some 470"
| "selector_offset Z_SS = Some 472"
| "selector_offset Z_ES = Some 474"
| "selector_offset Z_FS = Some 466"
| "selector_offset Z_GS = Some 464"
| "selector_offset _ = None"

section \<open>MOV\<close>

text \<open>The source as a whole host register; the destination's write masks it.\<close>

definition mov_wide :: "env \<Rightarrow> operand \<Rightarrow> operand \<Rightarrow> emitter \<Rightarrow> emitter option" where
  "mov_wide V op0 op1 e = do {
     (src, e) \<leftarrow> getGPR_size V op1 X86_SIZE_QWORD e;
     sz \<leftarrow> zydisToSize (reg_value V op1);
     (if sz = X86_SIZE_BYTE_HIGH then do {
        (temp, e) \<leftarrow> scratch e;
        setGPR V (Operand 0) op0 temp (emits [Sh sSRLI temp src 8] e)
      } else setGPR V (Operand 0) op0 src e)
   }"

text \<open>A load straight into the register of the destination.\<close>

definition mov_load :: "env \<Rightarrow> operand \<Rightarrow> operand \<Rightarrow> emitter \<Rightarrow> emitter option" where
  "mov_load V op0 op1 e = do {
     ref \<leftarrow> zydisToRef (reg_value V op0);
     dst \<leftarrow> allocatedGPR ref;
     sz \<leftarrow> zydisToSize_bits (operand_size op0);
     (if fold_disp V op1 then do {
        (address, e) \<leftarrow> lea V (LocalCopy (Suc (local_get V + local_set V))) (no_disp op1) False e;
        readMemory V dst address (disp op1) sz e
      } else do {
        (address, e) \<leftarrow> lea V (Operand 1) op1 False e;
        readMemory V dst address 0 sz e
      })
   }"

text \<open>\<open>set_segment src r\<close> is the code that calls \<^verbatim>\<open>felix86_set_segment\<close> with the guest state written
  back before and restored after it.\<close>

definition fast_MOV :: "(reg \<Rightarrow> ZydisRegister \<Rightarrow> rv list) \<Rightarrow> env \<Rightarrow> operand \<Rightarrow> operand \<Rightarrow> emitter \<Rightarrow> emitter option" where
  "fast_MOV set_segment V op0 op1 e = (
     if is_segment op0 then
       (if g_mode32 V then do {
          (src, e) \<leftarrow> getGPR V (Operand 1) op1 e;
          Some (emits (set_segment src (reg_value V op0)) e)
        } else Some e)
     else if is_segment op1 then
       (if g_mode32 V then do {
          (seg, e) \<leftarrow> scratch e;
          offset \<leftarrow> selector_offset (reg_value V op1);
          setGPR V (Operand 0) op0 seg (emits [Lu 2 seg offset threadStatePointer] e)
        } else Some e)
     else do {
       ref0 \<leftarrow> zydisToRef (reg_value V op0);
       ref1 \<leftarrow> zydisToRef (reg_value V op1);
       (if ref0 \<noteq> ref1 \<and> is_reg op0 \<and> is_reg op1 then mov_wide V op0 op1 e
        else if is_mem op0 \<and> is_reg op1 then mov_wide V op0 op1 e
        else if is_reg op0 \<and> is_mem op1 then
          (if operand_size op0 \<in> {8, 16} then do {
             (src, e) \<leftarrow> getGPR V (Operand 1) op1 e;
             setGPR V (Operand 0) op0 src e
           } else if operand_size op0 \<in> {32, 64} then mov_load V op0 op1 e
           else None)
        else do {
          (src, e) \<leftarrow> getGPR V (Operand 1) op1 e;
          setGPR V (Operand 0) op0 src e
        })
     })"

section \<open>Extending moves\<close>

definition fast_MOVZX :: "env \<Rightarrow> operand \<Rightarrow> operand \<Rightarrow> emitter \<Rightarrow> emitter option" where
  "fast_MOVZX V op0 op1 e = do {
     size_dst \<leftarrow> getSize op0;
     size_src \<leftarrow> getSize op1;
     (dst, e) \<leftarrow> getGPR_size V op0 X86_SIZE_QWORD e;
     (if is_reg op1 then do {
        (src, e) \<leftarrow> getGPR_size V op1 X86_SIZE_QWORD e;
        (if size_dst = X86_SIZE_WORD then do {
           (result, e) \<leftarrow> scratch e;
           c \<leftarrow> (if size_src = X86_SIZE_BYTE_HIGH then Some [Sh sSRLI result src 8, Ri iANDI result result 0xFF]
                 else if size_src = X86_SIZE_BYTE then Some [Ri iANDI result src 0xFF]
                 else None);
           Some (emits (c @ [Sh sSRLI dst dst 16, Sh sSLLI dst dst 16, Rr rOR dst dst result]) e)
         } else do {
           e \<leftarrow> (if size_src = X86_SIZE_BYTE_HIGH then Some (emits [Sh sSRLI dst src 8, Ri iANDI dst dst 0xFF] e)
                 else zext V dst src size_src e);
           ref \<leftarrow> zydisToRef (reg_value V op0);
           setGPR_ref V ref X86_SIZE_QWORD dst e
         })
      } else do {
        (address, e) \<leftarrow> lea V (Operand 1) op1 False e;
        (if size_dst = X86_SIZE_WORD then do {
           (result, e) \<leftarrow> scratch e;
           e \<leftarrow> readMemory V result address 0 size_src e;
           Some (emits [Sh sSRLI dst dst 16, Sh sSLLI dst dst 16, Rr rOR dst dst result] e)
         } else readMemory V dst address 0 size_src e)
      })
   }"

definition fast_MOVSX :: "env \<Rightarrow> operand \<Rightarrow> operand \<Rightarrow> emitter \<Rightarrow> emitter option" where
  "fast_MOVSX V op0 op1 e = do {
     (result, e) \<leftarrow> scratch e;
     (src, e) \<leftarrow> getGPR V (Operand 1) op1 e;
     sz \<leftarrow> getSize op1;
     e \<leftarrow> (if sz = X86_SIZE_BYTE \<or> sz = X86_SIZE_BYTE_HIGH then Some (sextb V result src e)
           else if sz = X86_SIZE_WORD then Some (sexth V result src e)
           else None);
     setGPR V (Operand 0) op0 result e
   }"

definition fast_MOVSXD :: "env \<Rightarrow> operand \<Rightarrow> operand \<Rightarrow> emitter \<Rightarrow> emitter option" where
  "fast_MOVSXD V op0 op1 e = do {
     sz \<leftarrow> getSize op1;
     (src, e) \<leftarrow> getGPR V (Operand 1) op1 e;
     ASSERT (sz = X86_SIZE_DWORD);
     ref \<leftarrow> zydisToRef (reg_value V op0);
     dst \<leftarrow> allocatedGPR ref;
     setGPR V (Operand 0) op0 dst (emits [Ri iADDIW dst src 0] e)
   }"

section \<open>Exchange and effective addresses\<close>

text \<open>\<open>xchg_lock\<close> is the handler of the form with a memory operand, which is always locked.\<close>

definition fast_XCHG :: "(emitter \<Rightarrow> emitter option) \<Rightarrow> env \<Rightarrow> operand \<Rightarrow> operand \<Rightarrow> emitter \<Rightarrow> emitter option" where
  "fast_XCHG xchg_lock V op0 op1 e = (
     if is_mem op0 then xchg_lock e
     else do {
       (temp, e) \<leftarrow> scratch e;
       (src, e) \<leftarrow> getGPR V (Operand 1) op1 e;
       (dst, e) \<leftarrow> getGPR V (Operand 0) op0 e;
       e \<leftarrow> setGPR V (Operand 1) op1 dst (emits [Rm uMV temp src] e);
       setGPR V (Operand 0) op0 temp e
     })"

definition fast_LEA :: "env \<Rightarrow> operand \<Rightarrow> operand \<Rightarrow> emitter \<Rightarrow> emitter option" where
  "fast_LEA V op0 op1 e = do {
     (address, e) \<leftarrow> lea V (Operand 1) op1 True e;
     setGPR V (Operand 0) op0 address e
   }"

section \<open>Sign extension of the accumulator\<close>

definition fast_CBW :: "env \<Rightarrow> emitter \<Rightarrow> emitter option" where
  "fast_CBW V e = do {
     (al, e) \<leftarrow> getGPR_ref V X86_REF_RAX X86_SIZE_BYTE e;
     setGPR_ref V X86_REF_RAX X86_SIZE_WORD al (sextb V al al e)
   }"

definition fast_CWDE :: "env \<Rightarrow> emitter \<Rightarrow> emitter option" where
  "fast_CWDE V e = do {
     (ax, e) \<leftarrow> getGPR_ref V X86_REF_RAX X86_SIZE_QWORD e;
     setGPR_ref V X86_REF_RAX X86_SIZE_DWORD ax (sexth V ax ax e)
   }"

definition fast_CDQE :: "env \<Rightarrow> emitter \<Rightarrow> emitter option" where
  "fast_CDQE V e = do {
     (eax, e) \<leftarrow> getGPR_ref V X86_REF_RAX X86_SIZE_QWORD e;
     setGPR_ref V X86_REF_RAX X86_SIZE_QWORD eax (emits [Ri iADDIW eax eax 0] e)
   }"

definition fast_CWD :: "env \<Rightarrow> emitter \<Rightarrow> emitter option" where
  "fast_CWD V e = do {
     (sext, e) \<leftarrow> scratch e;
     (ax, e) \<leftarrow> getGPR_ref V X86_REF_RAX X86_SIZE_QWORD e;
     setGPR_ref V X86_REF_RDX X86_SIZE_WORD sext (emits [Sh sSRLI sext sext 16] (sexth V sext ax e))
   }"

definition fast_CDQ :: "env \<Rightarrow> emitter \<Rightarrow> emitter option" where
  "fast_CDQ V e = do {
     sext \<leftarrow> allocatedGPR X86_REF_RDX;
     (eax, e) \<leftarrow> getGPR_ref V X86_REF_RAX X86_SIZE_QWORD e;
     setGPR_ref V X86_REF_RDX X86_SIZE_DWORD sext (emits [Sh sSRAIW sext eax 31] e)
   }"

definition fast_CQO :: "env \<Rightarrow> emitter \<Rightarrow> emitter option" where
  "fast_CQO V e = do {
     sext \<leftarrow> allocatedGPR X86_REF_RDX;
     (rax, e) \<leftarrow> getGPR_ref V X86_REF_RAX X86_SIZE_QWORD e;
     setGPR_ref V X86_REF_RDX X86_SIZE_QWORD sext (emits [Sh sSRAI sext rax 63] e)
   }"

section \<open>The carry flag\<close>

definition fast_CLC :: "emitter \<Rightarrow> emitter option" where
  "fast_CLC e = do { (cf, e) \<leftarrow> flag X86_REF_CF e; Some (emits [Rm uMV cf 0] e) }"

definition fast_STC :: "emitter \<Rightarrow> emitter option" where
  "fast_STC e = do { (cf, e) \<leftarrow> flag X86_REF_CF e; Some (emits [LI cf 1] e) }"

definition fast_CMC :: "emitter \<Rightarrow> emitter option" where
  "fast_CMC e = do { (cf, e) \<leftarrow> flag X86_REF_CF e; Some (emits [Ri iXORI cf cf 1] e) }"

section \<open>Conditional sets and moves\<close>

definition SETCC :: "env \<Rightarrow> operand \<Rightarrow> reg \<Rightarrow> emitter \<Rightarrow> emitter option" where
  "SETCC V op0 cond e = setGPR V (Operand 0) op0 cond e"

definition CMOV :: "env \<Rightarrow> operand \<Rightarrow> operand \<Rightarrow> reg \<Rightarrow> emitter \<Rightarrow> emitter option" where
  "CMOV V op0 op1 cond e = do {
     (dst, e) \<leftarrow> getGPR_size V op0 X86_SIZE_QWORD e;
     (src, e) \<leftarrow> (if is_reg op1 then getGPR_size V op1 X86_SIZE_QWORD e else getGPR V (Operand 1) op1 e);
     (result, e) \<leftarrow> scratch e;
     let result = (if operand_width (current_instruction V) = 64 then dst else result);
     e \<leftarrow> (if ext_Zicond V then do {
             (tmp1, e) \<leftarrow> scratch e;
             (tmp2, e) \<leftarrow> scratch e;
             Some (emits [Rr rCZERO_NEZ tmp1 dst cond, Rr rCZERO_EQZ tmp2 src cond, Rr rOR result tmp1 tmp2] e)
           } else do {
             let e = emits [Rm uMV result dst, BEQZ cond 0] e;
             let branch = length (code e) - 1;
             Some (bind_label branch (emits [Rm uMV result src] e))
           });
     setGPR V (Operand 0) op0 result e
   }"

text \<open>The sixteen handlers of each kind take the condition from the low bits of the opcode.\<close>

definition condition :: "instruction \<Rightarrow> nat" where
  "condition i = unat (opcode i AND 0xF)"

definition fast_SETcc :: "env \<Rightarrow> operand \<Rightarrow> emitter \<Rightarrow> emitter option" where
  "fast_SETcc V op0 e = do { (cond, e) \<leftarrow> getCond (condition (current_instruction V)) e; SETCC V op0 cond e }"

definition fast_CMOVcc :: "env \<Rightarrow> operand \<Rightarrow> operand \<Rightarrow> emitter \<Rightarrow> emitter option" where
  "fast_CMOVcc V op0 op1 e = do { (cond, e) \<leftarrow> getCond (condition (current_instruction V)) e; CMOV V op0 op1 cond e }"

end
