(* ===== verification/MoveSpec.thy ===== *)
theory MoveSpec
  imports UnarySpec MoveHandlers
begin

text \<open>
  What the data moving instructions do on the architecture, and that the handlers translate them.
\<close>

declare One_nat_def [simp del]

section \<open>Writing a register\<close>

text \<open>A register whose old contents a write does not keep.\<close>

definition overwritten :: "ZydisRegister \<Rightarrow> reg set" where
  "overwritten r = (if reg_size r = X86_SIZE_DWORD \<or> reg_size r = X86_SIZE_QWORD then {gpr_alloc ! reg_no r} else {})"

lemma implements_write:
  assumes h: "h e = Some e'" "code e' = code e @ c" and r: "plain_reg V r"
    and run: "\<And>tsp L m s. G tsp L s \<Longrightarrow> sim V tsp L m s \<Longrightarrow> \<exists>m'. lands c m m' \<and>
      sets_reg e (gpr_alloc ! reg_no r) (write_part (reg_size r) (val s) (rget m (gpr_alloc ! reg_no r))) m m'"
  shows "implements V h e G {} (\<lambda>s. x86_write r (val s) s)"
proof -
  have "live_after V {} L = L" for L by (simp add: live_after_def)
  then have "\<exists>m'. lands c m m' \<and> sim V tsp (live_after V {} L) m' (x86_write r (val s) s)"
    if "G tsp L s \<and> sim V tsp L m s" for tsp L m s
    using run [of tsp L s m] sim_write [OF _ r] that by (elim conjE) fastforce
  then show ?thesis unfolding implements_def using h by blast
qed

text \<open>A handler that ends by writing register \<open>x\<close> back, after code that may already have used
  the destination.\<close>

lemma implements_set:
  assumes h: "h e = setGPR V ptr (RegOp r) x e1" "code e1 = code e @ c" "scratch_index e \<le> scratch_index e1" "scratch_index e1 \<le> 5"
    and r: "plain_reg V r"
    and x: "x \<notin> free e1" "x = gpr_alloc ! reg_no r \<longrightarrow> reg_size r = X86_SIZE_DWORD \<or> reg_size r = X86_SIZE_QWORD"
    and run: "\<And>tsp L m s. G tsp L s \<Longrightarrow> sim V tsp L m s \<Longrightarrow> \<exists>m1. lands c m m1 \<and>
      keeps (overwritten r \<union> free e) m m1 \<and> mem m1 = mem m \<and>
      take_bit (bits (reg_size r)) (rget m1 x) = take_bit (bits (reg_size r)) (val s)"
  shows "implements V h e G {} (\<lambda>s. x86_write r (val s) s)"
proof -
  note n = plain_reg_facts [OF r]
  define d where "d = gpr_alloc ! reg_no r"
  have "Suc (scratch_index e1) < 7" using h(4) by simp
  from setGPR_ref_gen [OF this n(2,1) x, of V] obtain w where
    w: "setGPR_ref V (reg_no r) (reg_size r) x e1 = Some (emits w e1)" "list_all straight w"
    "\<And>m. sets_reg e1 d (write_part (reg_size r) (rget m x) (rget m d)) m (exec w m)"
    unfolding gen_def d_def [symmetric] by (elim exE conjE) simp
  have free: "free e1 \<subseteq> free e" unfolding free_def by (rule set_drop_subset_set_drop [OF h(3)])
  show ?thesis
  proof (rule implements_write [OF _ _ r])
    show "h e = Some (emits w e1)" using h(1) w(1) n(3,4) by simp
    show "code (emits w e1) = code e @ (c @ w)" using h(2) by simp
    fix tsp L m s assume "G tsp L s" "sim V tsp L m s"
    from run [OF this] obtain m1 where m1: "lands c m m1" "keeps (overwritten r \<union> free e) m m1" "mem m1 = mem m"
      "take_bit (bits (reg_size r)) (rget m1 x) = take_bit (bits (reg_size r)) (val s)" by (elim exE conjE)
    have d: "d \<notin> free e" using gpr_alloc_not_free [OF n(1)] by (simp add: d_def)
    have old: "write_part (reg_size r) v (rget m1 d) = write_part (reg_size r) v (rget m d)" for v
    proof (cases "reg_size r = X86_SIZE_DWORD \<or> reg_size r = X86_SIZE_QWORD")
      case False
      then have "d \<notin> overwritten r \<union> free e" using d by (simp add: overwritten_def)
      then show ?thesis using m1(2) by (simp add: keeps_def)
    qed auto
    have "overwritten r \<subseteq> {d}" by (auto simp: overwritten_def d_def)
    then have k: "keeps (insert d (free e)) m m1" using keeps_mono [OF m1(2)] by blast
    have s1: "rget (exec w m1) d = write_part (reg_size r) (rget m1 x) (rget m1 d)" "mem (exec w m1) = mem m1"
      "keeps (insert d (free e1)) m1 (exec w m1)"
      using w(3) [of m1] by (simp_all add: sets_reg_def)
    have "insert d (free e1) \<subseteq> insert d (free e)" using free by blast
    with s1(3) have k1: "keeps (insert d (free e)) m1 (exec w m1)" by (rule keeps_mono)
    have "sets_reg e d (write_part (reg_size r) (val s) (rget m d)) m (exec w m1)"
      unfolding sets_reg_def using s1 m1(3) old write_part_cong [OF n(2) m1(4)] keeps_trans [OF k k1] by simp
    then show "\<exists>m'. lands (c @ w) m m' \<and> sets_reg e (gpr_alloc ! reg_no r)
        (write_part (reg_size r) (val s) (rget m (gpr_alloc ! reg_no r))) m m'"
      using lands_append [OF m1(1) lands_straight [OF w(2)]] by (intro exI [of _ "exec w m1"]) (simp add: d_def)
  qed
qed

lemmas translates_write = implements_write [where G = "\<lambda>tsp L s. R \<subseteq> L" for R, folded translates_implements]
lemmas translates_set = implements_set [where G = "\<lambda>tsp L s. R \<subseteq> L" for R, folded translates_implements]

section \<open>Plain moves\<close>

definition x86_MOV :: "ZydisRegister \<Rightarrow> operand \<Rightarrow> x86 \<Rightarrow> x86" where
  "x86_MOV r src s = x86_write r (x86_value src s) s"

lemma narrow_size: "gp_size sz \<Longrightarrow> sz \<noteq> X86_SIZE_DWORD \<Longrightarrow> sz \<noteq> X86_SIZE_QWORD \<Longrightarrow> bits sz < 32"
  by (cases sz) simp_all

lemma getGPR_narrow:
  assumes "plain_operand V src" "fits r src" "bits (reg_size r) < 32" "scratch_index e < 7" "getGPR V ptr src e = Some (x, e')"
  shows "x \<in> scratches"
proof -
  have "x = scratch_gprs ! scratch_index e"
  proof (cases src)
    case (RegOp r')
    then show ?thesis
      using assms by (cases r') (auto simp: fits_def getGPR_reg_def getGPR_ref_def allocatedGPR_gpr emits_index split: if_splits)
  qed (use assms in auto)
  then show ?thesis using scratch_gprs_less [OF assms(4)] by simp
qed

text \<open>Reading an operand and writing it to the destination.\<close>

lemma translates_move:
  assumes e: "scratch_index e = 0" and r: "plain_reg V r" and src: "plain_operand V src" "fits r src"
    and h: "h e = getGPR V p src e \<bind> (\<lambda>(x, e). setGPR V q (RegOp r) x e)"
  shows "translates V h e R {} (x86_MOV r src)"
proof -
  note n = plain_reg_facts [OF r]
  have "scratch_index e < 7" using e by simp
  then obtain x k where k: "k \<le> 1" "reads V (getGPR V p src) e (x86_value src) x k"
    using getGPR_reads [OF _ src(1)] by blast
  obtain c where c: "getGPR V p src e = Some (x, emits c (advance k e))" "list_all straight c" "x \<notin> free (advance k e)"
    "\<And>m. keeps (free e) m (exec c m) \<and> mem (exec c m) = mem m" "\<And>tsp L m s. sim V tsp L m s \<Longrightarrow> rget (exec c m) x = x86_value src s"
    using k(2) unfolding reads_def by blast
  show ?thesis
    unfolding x86_MOV_def [abs_def]
  proof (rule translates_set [OF _ _ _ _ r])
    show "h e = setGPR V q (RegOp r) x (emits c (advance k e))" by (simp add: h c(1))
    show "x \<notin> free (emits c (advance k e))" unfolding emits_fields(5) by (rule c(3))
    show "x = gpr_alloc ! reg_no r \<longrightarrow> reg_size r = X86_SIZE_DWORD \<or> reg_size r = X86_SIZE_QWORD"
    proof (rule impI, rule ccontr)
      assume x: "x = gpr_alloc ! reg_no r" and "\<not> (reg_size r = X86_SIZE_DWORD \<or> reg_size r = X86_SIZE_QWORD)"
      then have "bits (reg_size r) < 32" using narrow_size [OF n(2)] by simp
      from getGPR_narrow [OF src this _ c(1)] show False using e gpr_alloc_range(1) [OF n(1)] by (simp add: x)
    qed
    fix tsp L m s assume "sim V tsp L m s"
    then show "\<exists>m1. lands c m m1 \<and> keeps (overwritten r \<union> free e) m m1 \<and> mem m1 = mem m \<and>
        take_bit (bits (reg_size r)) (rget m1 x) = take_bit (bits (reg_size r)) (x86_value src s)"
      using lands_straight [OF c(2), of m] c(4) [of m] c(5) keeps_mono [of "free e" m "exec c m" "overwritten r \<union> free e"]
      by (intro exI [of _ "exec c m"]) simp
  qed (use e k(1) in simp_all)
qed

text \<open>The whole source register is moved; the write takes the part it needs.\<close>

lemma getGPR_size_reg: "plain_reg V r \<Longrightarrow> getGPR_size V (RegOp r) X86_SIZE_QWORD e = Some (gpr_alloc ! reg_no r, e)"
  by (simp add: plain_reg_facts getGPR_ref_def allocatedGPR_gpr)

lemma mov_wide_translates:
  assumes e: "scratch_index e = 0" and r: "plain_reg V r" "plain_reg V r'" "reg_no r \<noteq> reg_no r'" and f: "fits r (RegOp r')"
  shows "translates V (mov_wide V (RegOp r) (RegOp r')) e R {} (x86_MOV r (RegOp r'))"
proof -
  note n = plain_reg_facts [OF r(1)] plain_reg_facts [OF r(2)]
  define g where "g = gpr_alloc ! reg_no r'"
  define hi where "hi \<longleftrightarrow> reg_size r' = X86_SIZE_BYTE_HIGH"
  let ?x = "if hi then 1 else g" and ?c = "if hi then [Sh sSRLI 1 g 8] else []" and ?k = "if hi then 1 else 0"
  have g: "g \<noteq> gpr_alloc ! reg_no r" using gpr_alloc_inj [OF n(5,1)] r(3) by (simp add: g_def)
  show ?thesis
    unfolding x86_MOV_def [abs_def]
  proof (rule translates_set [OF _ _ _ _ r(1)])
    show "mov_wide V (RegOp r) (RegOp r') e = setGPR V (Operand 0) (RegOp r) ?x (emits ?c (advance ?k e))"
      unfolding mov_wide_def getGPR_size_reg [OF r(2)] using e
      by (simp add: reg_value_def n(8) hi_def g_def scratch_advance scratch_0 del: scratch_next setGPR.simps)
    show "?x \<notin> free (emits ?c (advance ?k e))"
      unfolding emits_fields(5) using gpr_alloc_range(1) [OF n(5), folded g_def] by (simp add: free_def e scratch_gprs_def One_nat_def)
    show "?x = gpr_alloc ! reg_no r \<longrightarrow> reg_size r = X86_SIZE_DWORD \<or> reg_size r = X86_SIZE_QWORD"
      using g gpr_alloc_range(1) [OF n(1)] by auto
    fix tsp L m s assume "sim V tsp L m s"
    from simD(2) [OF this n(5)] have v: "rget m g = xgpr s (reg_no r')" by (simp add: g_def)
    have "take_bit (bits (reg_size r)) (rget (exec ?c m) ?x) = take_bit (bits (reg_size r)) (x86_value (RegOp r') s)"
      using f v by (cases r') (auto simp: fits_def hi_def x86_value.simps exec_simps)
    moreover have "1 \<in> free e" by (simp add: free_def e scratch_gprs_def)
    ultimately show "\<exists>m1. lands ?c m m1 \<and> keeps (overwritten r \<union> free e) m m1 \<and> mem m1 = mem m \<and>
        take_bit (bits (reg_size r)) (rget m1 ?x) = take_bit (bits (reg_size r)) (x86_value (RegOp r') s)"
      using lands_straight [of ?c m] by (intro exI [of _ "exec ?c m"]) (simp add: exec_simps keeps_rset)
  qed (use e in simp_all)
qed

lemma fast_MOV_translates:
  assumes e: "scratch_index e = 0" and r: "plain_reg V r" and src: "plain_operand V src" "fits r src"
    and p: "zydisToRef (punned_reg V) \<noteq> None"
  shows "translates V (fast_MOV set_segment V (RegOp r) src) e {} {} (x86_MOV r src)"
proof -
  note n = plain_reg_facts [OF r]
  have seg: "\<not> is_segment (RegOp x)" if "plain_reg V x" for x using that by (cases x) (simp_all add: is_segment_def)
  show ?thesis
  proof (cases "\<exists>r'. src = RegOp r' \<and> reg_no r \<noteq> reg_no r'")
    case True
    then obtain r' where r': "src = RegOp r'" "plain_reg V r'" "reg_no r \<noteq> reg_no r'" using src by auto
    have "fast_MOV set_segment V (RegOp r) src e = mov_wide V (RegOp r) src e"
      using r' by (simp add: fast_MOV_def seg [OF r] seg [OF r'(2)] reg_value_def n(3) plain_reg_facts(3) [OF r'(2)])
    then show ?thesis
      using mov_wide_translates [OF e r r'(2,3), of "{}"] src(2) r'(1) by (simp add: translates_def)
  next
    case False
    show ?thesis
    proof (rule translates_move [OF e r src])
      show "fast_MOV set_segment V (RegOp r) src e = getGPR V (Operand 1) src e \<bind> (\<lambda>(x, e). setGPR V (Operand 0) (RegOp r) x e)"
      proof (cases src)
        case (RegOp r')
        then have r': "plain_reg V r'" "reg_no r' = reg_no r" using False src by auto
        then show ?thesis
          using RegOp by (simp add: fast_MOV_def seg [OF r] seg [OF r'(1)] reg_value_def n(3) plain_reg_facts(3) [OF r'(1)] del: getGPR.simps setGPR.simps)
      next
        case (ImmOp v w)
        then show ?thesis
          using p by (auto simp: fast_MOV_def seg [OF r] is_segment_def [of "ImmOp v w"] reg_value_def n(3) simp del: getGPR.simps setGPR.simps)
      qed (use src in simp)
    qed
  qed
qed

section \<open>Extending moves\<close>

definition x86_MOVZX :: "ZydisRegister \<Rightarrow> operand \<Rightarrow> x86 \<Rightarrow> x86" where
  "x86_MOVZX r src s = x86_write r (x86_value src s) s"

text \<open>Sign extension of an operand of \<open>n\<close> bits.\<close>

definition x86_MOVSX :: "nat \<Rightarrow> ZydisRegister \<Rightarrow> operand \<Rightarrow> x86 \<Rightarrow> x86" where
  "x86_MOVSX n r src s = x86_write r (sx (n - 1) (x86_value src s)) s"

definition movzx_code :: "env \<Rightarrow> x86_size \<Rightarrow> x86_size \<Rightarrow> reg \<Rightarrow> reg \<Rightarrow> rv list" where
  "movzx_code V sz sz' d g = (
     if sz = X86_SIZE_WORD then
       (if sz' = X86_SIZE_BYTE_HIGH then [Sh sSRLI 1 g 8, Ri iANDI 1 1 0xFF] else [Ri iANDI 1 g 0xFF])
       @ [Sh sSRLI d d 16, Sh sSLLI d d 16, Rr rOR d d 1]
     else if sz' = X86_SIZE_BYTE_HIGH then [Sh sSRLI d g 8, Ri iANDI d d 0xFF] else zext_code V d g sz')"

lemma movzx_code_sets:
  assumes d: "d \<notin> {0, 1}" and e: "1 \<in> free e" and sz: "sz \<in> {X86_SIZE_WORD, X86_SIZE_DWORD, X86_SIZE_QWORD}" "gp_size sz'" "bits sz' < bits sz"
  shows "sets_reg e d (write_part sz (read_part sz' (rget m g)) (rget m d)) m (exec (movzx_code V sz sz' d g) m)"
  using assms
  by (cases sz'; elim insertE emptyE)
     (auto simp: movzx_code_def sets_reg_def exec_simps keeps_rset and_255 drop_push_u64 min_def)

lemma fast_MOVZX_translates:
  assumes e: "scratch_index e = 0" and r: "plain_reg V r" "plain_reg V r'" "bits (reg_size r') < bits (reg_size r)"
  shows "translates V (fast_MOVZX V (RegOp r) (RegOp r')) e {} {} (x86_MOVZX r (RegOp r'))"
proof -
  note n = plain_reg_facts [OF r(1)] plain_reg_facts [OF r(2)]
  define d where "d = gpr_alloc ! reg_no r"
  define g where "g = gpr_alloc ! reg_no r'"
  let ?c = "movzx_code V (reg_size r) (reg_size r') d g"
  have sz: "reg_size r \<in> {X86_SIZE_WORD, X86_SIZE_DWORD, X86_SIZE_QWORD}" "reg_size r' \<in> {X86_SIZE_BYTE, X86_SIZE_BYTE_HIGH, X86_SIZE_WORD, X86_SIZE_DWORD}"
    using r by (cases r; cases r'; simp)+
  have d: "d \<notin> {0, 1}" using gpr_alloc_range [OF n(1)] by (simp add: d_def)
  have "\<exists>k. fast_MOVZX V (RegOp r) (RegOp r') e = Some (emits ?c (advance k e))"
    unfolding fast_MOVZX_def getSize.simps n getGPR_size_reg [OF r(1)] getGPR_size_reg [OF r(2)] using sz r(3) e
    by (auto simp: getGPR_size_reg [OF r(2)] reg_value_def n movzx_code_def scratch_advance scratch_0 setGPR_ref_def allocatedGPR_gpr
        d_def g_def split: if_splits intro: exI [of _ 0] exI [of _ 1] simp del: scratch_next)
  then obtain k where k: "fast_MOVZX V (RegOp r) (RegOp r') e = Some (emits ?c (advance k e))" ..
  show ?thesis
    unfolding x86_MOVZX_def [abs_def]
  proof (rule translates_write [OF _ _ r(1)])
    show "fast_MOVZX V (RegOp r) (RegOp r') e = Some (emits ?c (advance k e))" by (fact k)
    show "code (emits ?c (advance k e)) = code e @ ?c" by simp
    fix tsp L m s assume "sim V tsp L m s"
    from simD(2) [OF this n(5)] have "read_part (reg_size r') (rget m g) = x86_value (RegOp r') s"
      by (simp add: g_def x86_value.simps)
    moreover have "1 \<in> free e" by (simp add: free_def e scratch_gprs_def)
    ultimately show "\<exists>m'. lands ?c m m' \<and> sets_reg e (gpr_alloc ! reg_no r)
        (write_part (reg_size r) (x86_value (RegOp r') s) (rget m (gpr_alloc ! reg_no r))) m m'"
      using movzx_code_sets [OF d _ sz(1) n(6) r(3), of e m g V] lands_straight [of ?c m]
      by (intro exI [of _ "exec ?c m"]) (simp add: movzx_code_def flip: d_def)
  qed
qed

text \<open>\<^verbatim>\<open>sextb\<close> and \<^verbatim>\<open>sexth\<close>.\<close>

definition sext_code :: "env \<Rightarrow> nat \<Rightarrow> reg \<Rightarrow> reg \<Rightarrow> rv list" where
  "sext_code V n d x = (if ext_B V then [Rm (if n = 8 then uSEXTB else uSEXTH) d x]
     else [Sh sSLLI d x (64 - n), Sh sSRAI d d (64 - n)])"

lemma sext_emits: "sextb V d x e = emits (sext_code V 8 d x) e" "sexth V d x e = emits (sext_code V 16 d x) e"
  by (simp_all add: sextb_def sexth_def sext_code_def)

lemma sext_straight [simp]: "list_all straight (sext_code V n d x)"
  by (simp add: sext_code_def)

lemma sext_exec: "d \<noteq> 0 \<Longrightarrow> n \<in> {8, 16} \<Longrightarrow> exec (sext_code V n d x) m = rset d (sx (n - 1) (rget m x)) m"
  using shift_sign_extend [of 7] shift_sign_extend [of 15] by (auto simp: sext_code_def exec_simps)

lemma fast_MOVSX_translates:
  assumes e: "scratch_index e = 0" and r: "plain_reg V r" "plain_reg V r'" "bits (reg_size r') < 32"
  shows "translates V (fast_MOVSX V (RegOp r) (RegOp r')) e {} {} (x86_MOVSX (bits (reg_size r')) r (RegOp r'))"
proof (rule translatesI)
  note n = plain_reg_facts [OF r(2)]
  let ?b = "bits (reg_size r')"
  have op1: "plain_operand V (RegOp r')" using r by simp
  have b: "?b \<in> {8, 16}" using r(3) n(2) by (cases "reg_size r'") simp_all
  have split: "fast_MOVSX V (RegOp r) (RegOp r') e = do {
      (result, e) \<leftarrow> scratch e;
      (src, e) \<leftarrow> getGPR V (Operand 1) (RegOp r') e;
      setGPR V (Operand 0) (RegOp r) result (emits (sext_code V ?b result src) e) }" for e
    unfolding fast_MOVSX_def getSize.simps n using r(3) n(2)
    by (cases "reg_size r'") (simp_all add: sext_emits del: scratch_next getGPR.simps setGPR.simps)
  have l: "live_after V {} = (\<lambda>L. L)" by (simp add: live_after_def fun_eq_iff)
  show "compiles e (fast_MOVSX V (RegOp r) (RegOp r')) (holds V [] (\<lambda>L. L) (\<lambda>s. s))
      (holds V [] (live_after V {}) (x86_MOVSX ?b r (RegOp r')))"
    unfolding ext [OF split] l
    apply (rule comp_unary [OF e op1])
    apply (rule comp_emits [OF step_unary_result [where R = "sx (?b - 1)"]], assumption, simp, rule sext_exec [OF _ b], simp)
    apply (rule comp_finish)
    apply (simp_all add: safe_result r x86_MOVSX_def)
    done
qed

text \<open>A value computed straight into the destination, which is then written to itself.\<close>

lemma translates_in_place:
  assumes e: "scratch_index e = 0" and r: "plain_reg V r" "reg_size r = X86_SIZE_DWORD \<or> reg_size r = X86_SIZE_QWORD"
    and h: "h e = setGPR V ptr (RegOp r) (gpr_alloc ! reg_no r) (emits (c @ [i]) (advance k e))" "list_all straight c" "straight i" "k \<le> 5"
    and c: "\<And>m. keeps (free e) m (exec c m)" "\<And>m. mem (exec c m) = mem m"
    and v: "\<And>tsp L m s. sim V tsp L m s \<Longrightarrow> effect i (exec c m) = rset (gpr_alloc ! reg_no r) (val s) (exec c m)"
  shows "translates V h e R {} (\<lambda>s. x86_write r (val s) s)"
proof (rule translates_set [OF _ _ _ _ r(1)])
  note n = plain_reg_facts [OF r(1)]
  show "h e = setGPR V ptr (RegOp r) (gpr_alloc ! reg_no r) (emits (c @ [i]) (advance k e))" by (fact h(1))
  show "gpr_alloc ! reg_no r \<notin> free (emits (c @ [i]) (advance k e))" by (rule gpr_alloc_not_free [OF n(1)])
  fix tsp L m s assume s: "sim V tsp L m s"
  have "gpr_alloc ! reg_no r \<noteq> 0" using gpr_alloc_range(2) [OF n(1)] by simp
  moreover have "gpr_alloc ! reg_no r \<in> overwritten r" using r(2) by (simp add: overwritten_def)
  moreover have "exec (c @ [i]) m = rset (gpr_alloc ! reg_no r) (val s) (exec c m)"
    using v [OF s] by (simp add: exec_simps)
  moreover have "keeps (overwritten r \<union> free e) m (exec c m)" by (rule keeps_mono [OF c(1)]) simp
  ultimately show "\<exists>m1. lands (c @ [i]) m m1 \<and> keeps (overwritten r \<union> free e) m m1 \<and> mem m1 = mem m \<and>
      take_bit (bits (reg_size r)) (rget m1 (gpr_alloc ! reg_no r)) = take_bit (bits (reg_size r)) (val s)"
    using lands_straight [of "c @ [i]" m] h(2,3) c(2) by (intro exI [of _ "exec (c @ [i]) m"]) (simp add: keeps_rset)
qed (use r h(4) e in simp_all)

lemma fast_MOVSXD_translates:
  assumes e: "scratch_index e = 0" and r: "plain_reg V r" "reg_size r = X86_SIZE_DWORD \<or> reg_size r = X86_SIZE_QWORD"
    and r': "plain_reg V r'" "reg_size r' = X86_SIZE_DWORD"
  shows "translates V (fast_MOVSXD V (RegOp r) (RegOp r')) e {} {} (x86_MOVSX 32 r (RegOp r'))"
proof -
  note n = plain_reg_facts [OF r(1)] plain_reg_facts [OF r'(1)]
  have op1: "plain_operand V (RegOp r')" using r' by simp
  have "scratch_index e < 7" using e by simp
  then obtain x k where k: "k \<le> 1" "reads V (getGPR V (Operand 1) (RegOp r')) e (x86_value (RegOp r')) x k"
    using getGPR_reads [OF _ op1] by blast
  obtain c where c: "getGPR V (Operand 1) (RegOp r') e = Some (x, emits c (advance k e))" "list_all straight c"
    "\<And>m. keeps (free e) m (exec c m)" "\<And>m. mem (exec c m) = mem m" "\<And>tsp L m s. sim V tsp L m s \<Longrightarrow> rget (exec c m) x = x86_value (RegOp r') s"
    using k(2) unfolding reads_def by blast
  show ?thesis
    unfolding x86_MOVSX_def [abs_def]
  proof (rule translates_in_place [OF e r _ c(2) _ _ c(3,4)])
    show "fast_MOVSXD V (RegOp r) (RegOp r') e = setGPR V (Operand 0) (RegOp r) (gpr_alloc ! reg_no r)
        (emits (c @ [Ri iADDIW (gpr_alloc ! reg_no r) x 0]) (advance k e))"
      unfolding fast_MOVSXD_def c(1) getSize.simps n r'(2)
      by (simp add: c(1) reg_value_def n(3) allocatedGPR_gpr [OF n(1)] del: getGPR.simps setGPR.simps)
    show "effect (Ri iADDIW (gpr_alloc ! reg_no r) x 0) (exec c m)
        = rset (gpr_alloc ! reg_no r) (sx (32 - 1) (x86_value (RegOp r') s)) (exec c m)" if "sim V tsp L m s" for tsp L m s
      using c(5) [OF that] by (simp add: exec_simps)
  qed (use k(1) in simp_all)
qed

section \<open>Sign extension of the accumulator\<close>

definition x86_CBW :: "x86 \<Rightarrow> x86" where
  "x86_CBW s = x86_write (Z_16 0) (sx 7 (x86_value (RegOp (Z_8 0)) s)) s"

definition x86_CWDE :: "x86 \<Rightarrow> x86" where
  "x86_CWDE s = x86_write (Z_32 0) (sx 15 (x86_value (RegOp (Z_16 0)) s)) s"

definition x86_CDQE :: "x86 \<Rightarrow> x86" where
  "x86_CDQE s = x86_write (Z_64 0) (sx 31 (x86_value (RegOp (Z_32 0)) s)) s"

text \<open>The sign of AX, EAX or RAX fills DX, EDX or RDX.\<close>

definition sign_fill :: "ZydisRegister \<Rightarrow> x86 \<Rightarrow> u64" where
  "sign_fill r s = (if bit (x86_value (RegOp r) s) (bits (reg_size r) - 1) then - 1 else 0)"

definition x86_CWD :: "x86 \<Rightarrow> x86" where "x86_CWD s = x86_write (Z_16 2) (sign_fill (Z_16 0) s) s"

definition x86_CDQ :: "x86 \<Rightarrow> x86" where "x86_CDQ s = x86_write (Z_32 2) (sign_fill (Z_32 0) s) s"

definition x86_CQO :: "x86 \<Rightarrow> x86" where "x86_CQO s = x86_write (Z_64 2) (sign_fill (Z_64 0) s) s"

lemma accumulator: "gpr_alloc ! 0 = 5" "gpr_alloc ! 2 = 12"
  by (simp_all add: gpr_alloc_def)

lemma get_accumulator:
  "getGPR_ref V X86_REF_RAX X86_SIZE_QWORD e = Some (5, e)" "allocatedGPR X86_REF_RAX = Some 5" "allocatedGPR X86_REF_RDX = Some 12"
  by (simp_all add: getGPR_ref_def allocatedGPR_def gpr_alloc_def)

lemma sim_accumulator: "sim V tsp L m s \<Longrightarrow> rget m 5 = xgpr s 0"
  using simD(2) [of V tsp L m s 0] by (simp add: accumulator)

lemma translates_compute:
  assumes e: "scratch_index e = 0" and r: "plain_reg V r"
    and h: "h e = setGPR V ptr (RegOp r) x (emits c (advance k e))" "list_all straight c" "k \<le> 5"
    and x: "x \<notin> free (advance k e)" "x \<in> overwritten r \<union> free e" "x \<noteq> 0"
    and c: "\<And>m. exec c m = rset x (v m) m"
    and v: "\<And>tsp L m s. sim V tsp L m s \<Longrightarrow> take_bit (bits (reg_size r)) (v m) = take_bit (bits (reg_size r)) (val s)"
  shows "translates V h e R {} (\<lambda>s. x86_write r (val s) s)"
proof (rule translates_set [OF _ _ _ _ r])
  show "h e = setGPR V ptr (RegOp r) x (emits c (advance k e))" by (fact h(1))
  show "x \<notin> free (emits c (advance k e))" unfolding emits_fields(5) by (fact x(1))
  have "gpr_alloc ! reg_no r \<notin> free e" by (rule gpr_alloc_not_free [OF plain_reg_facts(1) [OF r]])
  then show "x = gpr_alloc ! reg_no r \<longrightarrow> reg_size r = X86_SIZE_DWORD \<or> reg_size r = X86_SIZE_QWORD"
    using x(2) by (auto simp: overwritten_def split: if_splits)
  fix tsp L m s assume "sim V tsp L m s"
  from v [OF this] show "\<exists>m1. lands c m m1 \<and> keeps (overwritten r \<union> free e) m m1 \<and> mem m1 = mem m \<and>
      take_bit (bits (reg_size r)) (rget m1 x) = take_bit (bits (reg_size r)) (val s)"
    using lands_straight [OF h(2), of m] x by (intro exI [of _ "exec c m"]) (simp add: c keeps_rset)
qed (use e h(3) in simp_all)

lemma free_1: "scratch_index e = 0 \<Longrightarrow> 1 \<in> free e" "scratch_index e = 0 \<Longrightarrow> 1 \<notin> free (advance 1 e)"
    "5 \<notin> free e" "12 \<notin> free e"
  using free_special [of 5 e] free_special [of 12 e] by (auto simp: free_def scratch_gprs_def One_nat_def)

lemmas accumulator_simps = get_accumulator sext_emits accumulator overwritten_def free_1 sext_exec exec_simps
  x86_value.simps sim_accumulator signed_take_bit_take_bit

lemma fast_CBW_translates:
  assumes e: "scratch_index e = 0"
  shows "translates V (fast_CBW V) e {} {} x86_CBW"
  unfolding x86_CBW_def [abs_def]
  by (rule translates_compute [OF e, where x = 1 and k = 1 and ptr = "Operand 0" and c = "zext_code V 1 5 X86_SIZE_BYTE @ sext_code V 8 1 1"
        and v = "\<lambda>m. sx 7 (rget m 5)"])
     (use e in \<open>simp_all add: fast_CBW_def getGPR_ref_def [of V X86_REF_RAX X86_SIZE_BYTE] scratch_advance scratch_0 accumulator_simps and_255
        del: scratch_next\<close>)

lemma fast_CWDE_translates:
  assumes e: "scratch_index e = 0"
  shows "translates V (fast_CWDE V) e {} {} x86_CWDE"
  unfolding x86_CWDE_def [abs_def]
  by (rule translates_compute [OF e, where x = 5 and k = 0 and ptr = "Operand 0" and c = "sext_code V 16 5 5"
        and v = "\<lambda>m. sx 15 (rget m 5)"])
     (use e in \<open>simp_all add: fast_CWDE_def accumulator_simps\<close>)

lemma fast_CDQE_translates:
  assumes e: "scratch_index e = 0" and V: "\<not> g_mode32 V"
  shows "translates V (fast_CDQE V) e {} {} x86_CDQE"
  unfolding x86_CDQE_def [abs_def]
  by (rule translates_compute [OF e, where x = 5 and k = 0 and ptr = "Operand 0" and c = "[Ri iADDIW 5 5 0]"
        and v = "\<lambda>m. sx 31 (rget m 5)"])
     (use e V in \<open>simp_all add: fast_CDQE_def accumulator_simps\<close>)

lemma sign_fill_bits: "n < 64 \<Longrightarrow> signed_drop_bit n (sx n (x :: u64)) = (if bit x n then - 1 else 0)"
  by (rule bit_word_eqI) (auto simp: bit_signed_drop_bit_iff bit_signed_take_bit_iff bit_simps min_def)

lemma sign_fill_63: "signed_drop_bit 63 (x :: u64) = (if bit x 63 then - 1 else 0)"
  by (rule bit_word_eqI) (auto simp: bit_signed_drop_bit_iff bit_simps min_def not_le)

lemma fast_CDQ_translates:
  assumes e: "scratch_index e = 0"
  shows "translates V (fast_CDQ V) e {} {} x86_CDQ"
  unfolding x86_CDQ_def [abs_def]
  by (rule translates_compute [OF e, where x = 12 and k = 0 and ptr = "Operand 0" and c = "[Sh sSRAIW 12 5 31]"
        and v = "\<lambda>m. if bit (rget m 5) 31 then - 1 else 0"])
     (use e in \<open>simp_all add: fast_CDQ_def numeral_2_eq_2 [symmetric] accumulator_simps sign_fill_def sign_fill_bits bit_simps\<close>)

lemma fast_CQO_translates:
  assumes e: "scratch_index e = 0" and V: "\<not> g_mode32 V"
  shows "translates V (fast_CQO V) e {} {} x86_CQO"
  unfolding x86_CQO_def [abs_def]
  by (rule translates_compute [OF e, where x = 12 and k = 0 and ptr = "Operand 0" and c = "[Sh sSRAI 12 5 63]"
        and v = "\<lambda>m. if bit (rget m 5) 63 then - 1 else 0"])
     (use e V in \<open>simp_all add: fast_CQO_def numeral_2_eq_2 [symmetric] accumulator_simps sign_fill_def sign_fill_63\<close>)

lemma sign_fill_16: "take_bit 16 (drop_bit 16 (sx 15 (x :: u64))) = take_bit 16 (if bit x 15 then - 1 else 0)"
  by (rule bit_word_eqI) (auto simp: bit_signed_take_bit_iff bit_simps min_def)

lemma fast_CWD_translates:
  assumes e: "scratch_index e = 0"
  shows "translates V (fast_CWD V) e {} {} x86_CWD"
  unfolding x86_CWD_def [abs_def]
  by (rule translates_compute [OF e, where x = 1 and k = 1 and ptr = "Operand 0" and c = "sext_code V 16 1 5 @ [Sh sSRLI 1 1 16]"
        and v = "\<lambda>m. drop_bit 16 (sx 15 (rget m 5))"])
     (use e in \<open>simp_all add: fast_CWD_def numeral_2_eq_2 [symmetric] scratch_advance scratch_0 accumulator_simps sign_fill_def sign_fill_16 bit_simps del: scratch_next\<close>)

section \<open>The carry flag\<close>

lemma translates_carry:
  assumes h: "h e = Some (emits [i] e)" "straight i" "\<And>m. effect i m = rset 21 (v m) m"
    and v: "\<And>tsp L m s. R \<subseteq> L \<Longrightarrow> sim V tsp L m s \<Longrightarrow> v m = of_bool (b s)"
  shows "translates V h e R {X86_REF_CF} (\<lambda>s. set_flag X86_REF_CF (b s) s)"
proof -
  have "sim V tsp (live_after V {X86_REF_CF} L) (effect i m) (set_flag X86_REF_CF (b s) s)"
    if L: "R \<subseteq> L" and s: "sim V tsp L m s" for tsp L m s
  proof -
    have "sets_reg e 21 (of_bool (b s)) m (effect i m)" using v [OF L s] by (simp add: sets_reg_def h(3) keeps_rset)
    from sim_sets_reg [OF s this, of X86_REF_CF] have "sim V tsp (insert X86_REF_CF L) (effect i m) (set_flag X86_REF_CF (b s) s)" by simp
    then show ?thesis by (rule sim_flags) (auto simp: live_after_def)
  qed
  then show ?thesis
    unfolding translates_def using h(1) lands_step [OF step_straight [OF h(2)]]
    by (intro exI [of _ "[i]"] exI [of _ "emits [i] e"] conjI allI impI) (simp_all, blast)
qed

lemma fast_CLC_translates: "translates V fast_CLC e {} {X86_REF_CF} (\<lambda>s. set_flag X86_REF_CF False s)"
  by (rule translates_carry [where i = "Rm uMV 21 0" and v = "\<lambda>_. 0"]) (simp_all add: fast_CLC_def exec_simps)

lemma fast_STC_translates: "translates V fast_STC e {} {X86_REF_CF} (\<lambda>s. set_flag X86_REF_CF True s)"
  by (rule translates_carry [where i = "LI 21 1" and v = "\<lambda>_. 1"]) (simp_all add: fast_STC_def exec_simps)

lemma fast_CMC_translates:
  "translates V fast_CMC e {X86_REF_CF} {X86_REF_CF} (\<lambda>s. set_flag X86_REF_CF (\<not> xflag s X86_REF_CF) s)"
proof (rule translates_carry [where i = "Ri iXORI 21 21 1" and v = "\<lambda>m. rget m 21 XOR 1"])
  show "rget m 21 XOR 1 = of_bool (\<not> xflag s X86_REF_CF)" if "{X86_REF_CF} \<subseteq> L" "sim V tsp L m s" for tsp L m s
    using simD(3) [OF that(2), of X86_REF_CF] that(1)
    by (cases "xflag s X86_REF_CF") (simp_all add: flag_val_def status_flags_def)
qed (simp_all add: fast_CMC_def exec_simps)

end
