(* ===== verification/CondSpec.thy ===== *)
theory CondSpec
  imports MoveSpec
begin

text \<open>
  The sixteen conditions, the conditional sets and the conditional moves.
\<close>

section \<open>Conditions\<close>

text \<open>The sixteen conditions by their encoding, and the flags they read.\<close>

definition x86_cond :: "nat \<Rightarrow> x86 \<Rightarrow> bool" where
  "x86_cond n s = (let f = xflag s; b = (
     if n div 2 = 0 then f X86_REF_OF
     else if n div 2 = 1 then f X86_REF_CF
     else if n div 2 = 2 then f X86_REF_ZF
     else if n div 2 = 3 then f X86_REF_CF \<or> f X86_REF_ZF
     else if n div 2 = 4 then f X86_REF_SF
     else if n div 2 = 5 then f X86_REF_PF
     else if n div 2 = 6 then f X86_REF_SF \<noteq> f X86_REF_OF
     else f X86_REF_ZF \<or> f X86_REF_SF \<noteq> f X86_REF_OF) in b \<noteq> odd n)"

definition cond_uses :: "nat \<Rightarrow> x86_ref set" where
  "cond_uses n = [{X86_REF_OF}, {X86_REF_CF}, {X86_REF_ZF}, {X86_REF_CF, X86_REF_ZF}, {X86_REF_SF}, {X86_REF_PF},
     {X86_REF_SF, X86_REF_OF}, {X86_REF_ZF, X86_REF_SF, X86_REF_OF}] ! (n div 2)"

text \<open>The registers that can hold a condition.\<close>

definition cond_reg :: "reg \<Rightarrow> bool" where
  "cond_reg r \<longleftrightarrow> r \<in> {1, 21, 23, 24, 25}"

lemma of_bool_xor: "(of_bool p XOR of_bool q :: u64) = of_bool (p \<noteq> q)" "(of_bool p XOR 1 :: u64) = of_bool (\<not> p)"
  by (cases p; cases q; simp)+

lemma sim_flag_regs:
  assumes "sim V tsp L m s"
  shows "X86_REF_CF \<in> L \<Longrightarrow> rget m 21 = of_bool (xflag s X86_REF_CF)"
    "X86_REF_ZF \<in> L \<Longrightarrow> rget m 23 = of_bool (xflag s X86_REF_ZF)"
    "X86_REF_SF \<in> L \<Longrightarrow> rget m 24 = of_bool (xflag s X86_REF_SF)"
    "X86_REF_OF \<in> L \<Longrightarrow> rget m 25 = of_bool (xflag s X86_REF_OF)"
    "X86_REF_PF \<in> L \<Longrightarrow> load 1 (mem m) (rget m 27 + off_pf) = of_bool (xflag s X86_REF_PF)"
  using simD(3) [OF assms, of X86_REF_CF] simD(3) [OF assms, of X86_REF_ZF] simD(3) [OF assms, of X86_REF_SF]
    simD(3) [OF assms, of X86_REF_OF] simD(3) [OF assms, of X86_REF_PF]
  by (simp_all add: flag_val_def status_flags_def One_nat_def)

definition cond_code :: "nat \<Rightarrow> rv list" where
  "cond_code n = [[], [Ri iXORI 1 25 1], [], [Ri iXORI 1 21 1], [], [Ri iXORI 1 23 1], [Rr rOR 1 21 23],
     [Rr rOR 1 21 23, Ri iXORI 1 1 1], [], [Ri iXORI 1 24 1], [Lu 1 1 off_pf 27], [Lu 1 1 off_pf 27, Ri iXORI 1 1 1],
     [Rr rXOR 1 24 25], [Rr rXOR 1 24 25, Ri iXORI 1 1 1], [Rr rXOR 1 24 25, Rr rOR 1 1 23],
     [Rr rXOR 1 24 25, Rr rOR 1 1 23, Ri iXORI 1 1 1]] ! n"

definition cond_at :: "nat \<Rightarrow> reg" where
  "cond_at n = (if n \<in> {0, 2, 4, 8} then [25, 21, 23, 24] ! (n div 2 - n div 8) else 1)"

lemma less_16: "n < 16 \<Longrightarrow> n \<in> {0, 1, 2, 3, 4, 5, 6, 7, 8, 9, 10, 11, 12, 13, 14, 15}" for n :: nat
  by (auto simp: less_Suc_eq numeral_eq_Suc)

lemma getCond_code:
  assumes "n < 16" "scratch_index e = 0"
  shows "getCond n e = Some (cond_at n, emits (cond_code n) (advance (of_bool (cond_at n = 1)) e))"
    "list_all straight (cond_code n)" "cond_reg (cond_at n)"
  using less_16 [OF assms(1)] assms(2)
  by (elim insertE emptyE; simp add: getCond_def Let_def cond_at_def cond_code_def cond_reg_def scratch_advance scratch_0
      flag_def [of X86_REF_PF] One_nat_def del: scratch_next)+

lemma cond_code_value:
  assumes "n < 16" "cond_uses n \<subseteq> L" "sim V tsp L m s"
  shows "rget (exec (cond_code n) m) (cond_at n) = of_bool (x86_cond n s)"
  using less_16 [OF assms(1)] assms(2) sim_flag_regs [OF assms(3)]
  by (elim insertE emptyE; simp add: cond_uses_def cond_at_def cond_code_def exec_simps x86_cond_def Let_def or_of_bool of_bool_xor One_nat_def)

lemma cond_code_keeps:
  assumes "n < 16"
  shows "keeps {1} m (exec (cond_code n) m)" "mem (exec (cond_code n) m) = mem m"
  using less_16 [OF assms] by (elim insertE emptyE; simp add: cond_code_def exec_simps keeps_rset)+

lemma condition_less: "condition i < 16"
proof -
  have "opcode i AND 0xF = take_bit 4 (opcode i)"
    by (simp add: take_bit_eq_mask mask_eq_exp_minus_1)
  then show ?thesis
    using take_bit_nat_less_exp [of 4] by (simp add: condition_def unsigned_take_bit_eq)
qed

section \<open>Conditional sets and moves\<close>

definition x86_SETcc :: "nat \<Rightarrow> ZydisRegister \<Rightarrow> x86 \<Rightarrow> x86" where
  "x86_SETcc n r s = x86_write r (of_bool (x86_cond n s)) s"

definition x86_CMOVcc :: "nat \<Rightarrow> ZydisRegister \<Rightarrow> operand \<Rightarrow> x86 \<Rightarrow> x86" where
  "x86_CMOVcc n r src s = x86_write r (if x86_cond n s then x86_value src s else x86_value (RegOp r) s) s"

lemma gpr_not_cond: "i < 16 \<Longrightarrow> cond_reg (gpr_alloc ! i) \<Longrightarrow> False"
  using gpr_alloc_range [of i] by (auto simp: cond_reg_def)

lemma cond_not_free:
  assumes "cond_reg x" "scratch_index e = 0" "of_bool (x = 1) \<le> k"
  shows "x \<notin> free (advance k e)"
proof (cases "x = 1")
  case True
  then have "free (advance k e) \<subseteq> set (drop 1 scratch_gprs)"
    using assms set_drop_subset_set_drop [of 1 k scratch_gprs] by (auto simp: free_def)
  then show ?thesis using True by (auto simp: scratch_gprs_def One_nat_def)
next
  case False
  then show ?thesis using assms(1) free_special [of x "advance k e"] by (auto simp: cond_reg_def)
qed

lemma fast_SETcc_translates:
  assumes e: "scratch_index e = 0" and r: "plain_reg V r"
  shows "translates V (fast_SETcc V (RegOp r)) e (cond_uses (condition (current_instruction V))) {} (x86_SETcc (condition (current_instruction V)) r)"
  unfolding x86_SETcc_def [abs_def]
proof (rule translates_set [OF _ _ _ _ r])
  let ?n = "condition (current_instruction V)" and ?k = "of_bool (cond_at (condition (current_instruction V)) = 1)"
  note c = getCond_code [OF condition_less e, of "current_instruction V"]
  show "fast_SETcc V (RegOp r) e = setGPR V (Operand 0) (RegOp r) (cond_at ?n) (emits (cond_code ?n) (advance ?k e))"
    by (simp add: fast_SETcc_def c(1) SETCC_def)
  show "cond_at ?n \<notin> free (emits (cond_code ?n) (advance ?k e))"
    unfolding emits_fields(5) by (rule cond_not_free [OF c(3) e order_refl])
  show "cond_at ?n = gpr_alloc ! reg_no r \<longrightarrow> reg_size r = X86_SIZE_DWORD \<or> reg_size r = X86_SIZE_QWORD"
    using gpr_not_cond [OF plain_reg_facts(1) [OF r]] c(3) by auto
  fix tsp L m s assume L: "cond_uses ?n \<subseteq> L" and s: "sim V tsp L m s"
  have "1 \<in> free e" by (simp add: free_def e scratch_gprs_def)
  then show "\<exists>m1. lands (cond_code ?n) m m1 \<and> keeps (overwritten r \<union> free e) m m1 \<and> mem m1 = mem m \<and>
      take_bit (bits (reg_size r)) (rget m1 (cond_at ?n)) = take_bit (bits (reg_size r)) (of_bool (x86_cond ?n s))"
    using lands_straight [OF c(2)] cond_code_keeps [OF condition_less [of "current_instruction V"], of m] cond_code_value [OF condition_less L s]
      keeps_mono [of "{1}" m _ "overwritten r \<union> free e"]
    by (intro exI [of _ "exec (cond_code ?n) m"]) simp
qed (simp_all add: e)

text \<open>A branch over one instruction.\<close>

lemma lands_skip:
  assumes "straight i"
  shows "lands [BEQZ r 2, i] m (if rget m r = 0 then m else effect i m)"
proof (cases "rget m r = 0")
  case True
  have "run (1 + n) (pre @ [BEQZ r 2, i] @ post) (int (length pre)) m
      = run n (pre @ [BEQZ r 2, i] @ post) (int (length pre + length [BEQZ r 2, i])) m" for n pre post
    by (subst run.simps) (simp add: True numeral_2_eq_2 add.commute One_nat_def del: run.simps)
  with True show ?thesis unfolding lands_def by (intro allI exI [of _ 1]) simp
next
  case False
  then have "lands [BEQZ r 2] m m" by (intro lands_step) simp
  from lands_append [OF this lands_step [OF step_straight [OF assms]]] False show ?thesis by simp
qed

definition cmov_code :: "env \<Rightarrow> reg \<Rightarrow> reg \<Rightarrow> reg \<Rightarrow> reg \<Rightarrow> reg \<Rightarrow> reg \<Rightarrow> rv list" where
  "cmov_code V cond d x res t u = (if ext_Zicond V
     then [Rr rCZERO_NEZ t d cond, Rr rCZERO_EQZ u x cond, Rr rOR res t u]
     else [Rm uMV res d] @ [BEQZ cond 2, Rm uMV res x])"

lemma cmov_lands:
  assumes "distinct [0, res, t]" "u \<notin> {0, res, t, d, cond, x}" "t \<notin> {d, x, cond}" "res = x \<longrightarrow> d = x" "res \<noteq> cond" "res \<in> S" "t \<in> S" "u \<in> S"
  shows "\<exists>m'. lands (cmov_code V cond d x res t u) m m' \<and> keeps S m m' \<and> mem m' = mem m
    \<and> rget m' res = (if rget m cond = 0 then rget m d else rget m x)"
proof (cases "ext_Zicond V")
  case True
  let ?c = "[Rr rCZERO_NEZ t d cond, Rr rCZERO_EQZ u x cond, Rr rOR res t u]"
  have "lands ?c m (exec ?c m)" by (rule lands_straight) simp
  then show ?thesis
    unfolding cmov_code_def using True assms
    by (intro exI [of _ "exec ?c m"]) (auto simp: exec_simps keeps_rset)
next
  case False
  let ?m = "effect (Rm uMV res d) m"
  have "lands ([Rm uMV res d] @ [BEQZ cond 2, Rm uMV res x]) m (if rget ?m cond = 0 then ?m else effect (Rm uMV res x) ?m)"
    by (rule lands_append [OF lands_step [OF step_straight] lands_skip]) simp_all
  then show ?thesis
    unfolding cmov_code_def using False assms
    by (intro exI [of _ "if rget ?m cond = 0 then ?m else effect (Rm uMV res x) ?m"])
       (auto simp: exec_simps keeps_rset)
qed

lemma bind_skip:
  "bind_label (Suc (length p)) (e\<lparr>code := p @ [i, BEQZ r 0, j]\<rparr>) = e\<lparr>code := p @ [i, BEQZ r 2, j]\<rparr>"
  by (simp add: bind_label_def nth_append list_update_append)

lemma not_member: "a \<notin> S \<Longrightarrow> b \<in> S \<Longrightarrow> a \<noteq> b \<and> b \<noteq> a"
  by blast

text \<open>The code of \<^verbatim>\<open>CMOV\<close> for a register source.\<close>

lemma bind_skip_emits:
  "bind_label (length (code (emits [i, BEQZ r 0] e)) - 1) (emits [j] (emits [i, BEQZ r 0] e)) = emits [i, BEQZ r 2, j] e"
  using bind_skip [where p = "code e" and e = e and i = i and r = r and j = j] by (simp add: emits_def)

lemma CMOV_code:
  assumes r: "plain_reg V r" "plain_reg V r'" and i: "scratch_index e \<le> 1" and w: "operand_width (current_instruction V) = bits (reg_size r)"
  defines "d \<equiv> gpr_alloc ! reg_no r" and "k \<equiv> if ext_Zicond V then 3 else 1"
  defines "res \<equiv> if bits (reg_size r) = 64 then d else scratch_gprs ! scratch_index e"
  shows "CMOV V (RegOp r) (RegOp r') cond e = setGPR V (Operand 0) (RegOp r) res
    (emits (cmov_code V cond d (gpr_alloc ! reg_no r') res (scratch_gprs ! (scratch_index e + 1)) (scratch_gprs ! (scratch_index e + 2))) (advance k e))"
proof -
  have s: "scratch (advance j e) = Some (scratch_gprs ! (scratch_index e + j), advance (j + 1) e)" if "j \<le> 2" for j
    using i that by (simp add: scratch_advance advance_def)
  have a: "advance 1 e = advance (0 + 1) e" "scratch e = Some (scratch_gprs ! scratch_index e, advance 1 e)"
    using s [of 0] by simp_all
  show ?thesis
    using s [of 1] s [of 2] unfolding CMOV_def Let_def getGPR_size_reg [OF r(1)] getGPR_size_reg [OF r(2)] w
    by (cases "ext_Zicond V")
       (simp_all add: getGPR_size_reg [OF r(2)] a(2) res_def d_def k_def cmov_code_def bind_skip_emits [of _ _ "advance 1 e", simplified] numeral_2_eq_2 numeral_3_eq_3
          del: scratch_next getGPR_size.simps setGPR.simps)
qed

text \<open>The register that receives the result: the destination itself or the next scratch register.\<close>

definition cmov_res :: "ZydisRegister \<Rightarrow> nat \<Rightarrow> reg" where
  "cmov_res r j = (if bits (reg_size r) = 64 then gpr_alloc ! reg_no r else scratch_gprs ! j)"

lemma cmov_res_ok:
  assumes r: "plain_reg V r" and sz: "reg_size r \<in> {X86_SIZE_WORD, X86_SIZE_DWORD, X86_SIZE_QWORD}" and j: "scratch_index e \<le> 1" and k: "1 \<le> k"
  shows "cmov_res r (scratch_index e) \<notin> free (advance k e)"
    "cmov_res r (scratch_index e) = gpr_alloc ! reg_no r \<longrightarrow> reg_size r = X86_SIZE_DWORD \<or> reg_size r = X86_SIZE_QWORD"
    "cmov_res r (scratch_index e) \<in> overwritten r \<union> scratches"
proof -
  have i: "scratch_index e < 7" using j by simp
  note d = gpr_alloc_range(1) [OF plain_reg_facts(1) [OF r]]
  have "free (advance k e) \<subseteq> free (advance 1 e)" unfolding free_def by (rule set_drop_subset_set_drop) (use k in simp)
  then have "scratch_gprs ! scratch_index e \<notin> free (advance k e)" using scratch_not_free [OF i] by blast
  moreover have "gpr_alloc ! reg_no r \<notin> free (advance k e)" by (rule gpr_alloc_not_free [OF plain_reg_facts(1) [OF r]])
  ultimately show "cmov_res r (scratch_index e) \<notin> free (advance k e)" by (simp add: cmov_res_def)
  have z: "scratch_gprs ! scratch_index e \<in> scratches" by (rule scratch_gprs_less [OF i])
  have "scratch_gprs ! scratch_index e \<noteq> gpr_alloc ! reg_no r" using not_member [OF d z] by simp
  then show "cmov_res r (scratch_index e) = gpr_alloc ! reg_no r \<longrightarrow> reg_size r = X86_SIZE_DWORD \<or> reg_size r = X86_SIZE_QWORD"
    using sz by (auto simp: cmov_res_def)
  show "cmov_res r (scratch_index e) \<in> overwritten r \<union> scratches"
    using z sz by (auto simp: cmov_res_def overwritten_def simp del: insert_iff)
qed

text \<open>The selection, whatever register holds the condition.\<close>

lemma cmov_effect:
  fixes e :: emitter
  assumes r: "plain_reg V r" "plain_reg V r'" and sz: "reg_size r \<in> {X86_SIZE_WORD, X86_SIZE_DWORD, X86_SIZE_QWORD}"
    and j: "scratch_index e \<le> 1" and cn: "cond_reg cn" "cn = 1 \<Longrightarrow> scratch_index e = 1"
  defines "d \<equiv> gpr_alloc ! reg_no r" and "x \<equiv> gpr_alloc ! reg_no r'" and "j \<equiv> scratch_index e"
  shows "\<exists>m'. lands (cmov_code V cn d x (cmov_res r j) (scratch_gprs ! (j + 1)) (scratch_gprs ! (j + 2))) m m'
    \<and> keeps (overwritten r \<union> scratches) m m' \<and> mem m' = mem m
    \<and> rget m' (cmov_res r j) = (if rget m cn = 0 then rget m d else rget m x)"
proof -
  define t where "t = scratch_gprs ! (j + 1)"
  define u where "u = scratch_gprs ! (j + 2)"
  note f = plain_reg_facts(1) [OF r(1)] plain_reg_facts(1) [OF r(2)]
  have j1: "j \<le> 1" using assms(4) by (simp add: j_def)
  have g1: "d \<notin> scratches" "x \<notin> scratches" "d \<noteq> 0" "0 \<notin> scratches"
    using gpr_alloc_range(1) [OF f(1)] gpr_alloc_range(1) [OF f(2)] gpr_alloc_range(2) [OF f(1)] by (simp_all add: d_def x_def)
  note nd = not_member [OF g1(1)] not_member [OF g1(2)] not_member [OF g1(4)]
  have dc: "d \<noteq> cn" "x \<noteq> cn" using gpr_not_cond [OF f(1)] gpr_not_cond [OF f(2)] cn(1) unfolding d_def x_def by metis+
  have "j < 7" "j + 1 < 7" "j + 2 < 7" using j1 by simp_all
  from this [THEN scratch_gprs_less] have z: "scratch_gprs ! j \<in> scratches" "t \<in> scratches" "u \<in> scratches" unfolding t_def u_def .
  have ne: "t \<noteq> u" "scratch_gprs ! j \<noteq> t" "scratch_gprs ! j \<noteq> u" using j1 by (simp_all add: t_def u_def scratch_distinct)
  have c: "cn \<notin> {scratch_gprs ! j, t, u}"
  proof (cases "cn = 1")
    case True
    then have "j = 1" "cn = scratch_gprs ! 0" using cn(2) by (simp_all add: scratch_0 j_def)
    then show ?thesis by (simp add: t_def u_def scratch_distinct)
  next
    case False
    then have "cn \<notin> scratches" using cn(1) unfolding cond_reg_def by auto
    from not_member [OF this] z show ?thesis by simp
  qed
  have rs: "cmov_res r j = d \<or> cmov_res r j = scratch_gprs ! j" by (simp add: cmov_res_def d_def)
  show ?thesis
    unfolding t_def [symmetric] u_def [symmetric]
  proof (rule cmov_lands)
    show "distinct [0, cmov_res r j, t]" using rs g1(3) ne nd(1,3) z by (elim disjE) simp_all
    show "u \<notin> {0, cmov_res r j, t, d, cn, x}" using rs ne nd z c by (elim disjE) simp_all
    show "t \<notin> {d, x, cn}" using nd z c by simp
    show "cmov_res r j = x \<longrightarrow> d = x" using rs nd z by (elim disjE) simp_all
    show "cmov_res r j \<noteq> cn" using rs dc c by (elim disjE) simp_all
    show "cmov_res r j \<in> overwritten r \<union> scratches" unfolding j_def by (rule cmov_res_ok(3) [OF r(1) sz assms(4), of 1]) simp
  qed (use z in blast)+
qed

lemma fast_CMOVcc_translates:
  assumes e: "scratch_index e = 0" and r: "plain_reg V r" "plain_reg V r'"
    and sz: "reg_size r \<in> {X86_SIZE_WORD, X86_SIZE_DWORD, X86_SIZE_QWORD}" "reg_size r' = reg_size r"
    and w: "operand_width (current_instruction V) = bits (reg_size r)"
  shows "translates V (fast_CMOVcc V (RegOp r) (RegOp r')) e (cond_uses (condition (current_instruction V))) {}
    (x86_CMOVcc (condition (current_instruction V)) r (RegOp r'))"
proof -
  define n where "n = condition (current_instruction V)"
  have n: "n < 16" by (simp add: n_def condition_less)
  note c = getCond_code [OF n e]
  define e0 where "e0 = emits (cond_code n) (advance (of_bool (cond_at n = 1)) e)"
  define d where "d = gpr_alloc ! reg_no r"
  define x where "x = gpr_alloc ! reg_no r'"
  define k :: nat where "k = (if ext_Zicond V then 3 else 1)"
  define b where "b = cmov_code V (cond_at n) d x (cmov_res r (scratch_index e0)) (scratch_gprs ! (scratch_index e0 + 1)) (scratch_gprs ! (scratch_index e0 + 2))"
  have j: "scratch_index e0 \<le> 1" "cond_at n = 1 \<Longrightarrow> scratch_index e0 = 1" "1 \<le> k" "k \<le> 3" by (simp_all add: e0_def e k_def)
  have fe: "free e = scratches" by (simp add: free_def e scratch_gprs_def)
  show ?thesis
    unfolding x86_CMOVcc_def [abs_def] n_def [symmetric]
  proof (rule translates_set [OF _ _ _ _ r(1)])
    have "fast_CMOVcc V (RegOp r) (RegOp r') e = CMOV V (RegOp r) (RegOp r') (cond_at n) e0"
      by (simp add: fast_CMOVcc_def c(1) e0_def flip: n_def)
    also have "\<dots> = setGPR V (Operand 0) (RegOp r) (cmov_res r (scratch_index e0)) (emits b (advance k e0))"
      unfolding b_def cmov_res_def d_def x_def k_def by (rule CMOV_code [OF r j(1) w])
    finally show "fast_CMOVcc V (RegOp r) (RegOp r') e
      = setGPR V (Operand 0) (RegOp r) (cmov_res r (scratch_index e0)) (emits b (advance k e0))" .
    show "code (emits b (advance k e0)) = code e @ cond_code n @ b" by (simp add: e0_def)
    show "cmov_res r (scratch_index e0) \<notin> free (emits b (advance k e0))" unfolding emits_fields(5) by (rule cmov_res_ok(1) [OF r(1) sz(1) j(1,3)])
    show "cmov_res r (scratch_index e0) = gpr_alloc ! reg_no r \<longrightarrow> reg_size r = X86_SIZE_DWORD \<or> reg_size r = X86_SIZE_QWORD"
      by (rule cmov_res_ok(2) [OF r(1) sz(1) j(1,3)])
    fix tsp L m s assume L: "cond_uses n \<subseteq> L" and s: "sim V tsp L m s"
    define m0 where "m0 = exec (cond_code n) m"
    note k0 = cond_code_keeps [OF n, of m, folded m0_def]
    have s0: "sim V tsp L m0 s" by (rule sim_keeps [OF s keeps_mono [OF k0(1)] k0(2), of e]) (simp add: fe)
    obtain m1 where m1: "lands b m0 m1" "keeps (overwritten r \<union> scratches) m0 m1" "mem m1 = mem m0"
      "rget m1 (cmov_res r (scratch_index e0)) = (if rget m0 (cond_at n) = 0 then rget m0 d else rget m0 x)"
      using cmov_effect [OF r sz(1) j(1) c(3) j(2), of m0] unfolding b_def d_def x_def by blast
    have "rget m0 d = xgpr s (reg_no r)" "rget m0 x = xgpr s (reg_no r')"
      using simD(2) [OF s0] plain_reg_facts(1) [OF r(1)] plain_reg_facts(1) [OF r(2)] by (simp_all add: d_def x_def)
    then have "take_bit (bits (reg_size r)) (rget m1 (cmov_res r (scratch_index e0)))
        = take_bit (bits (reg_size r)) (if x86_cond n s then x86_value (RegOp r') s else x86_value (RegOp r) s)"
      using m1(4) sz cond_code_value [OF n L s, folded m0_def] by (auto simp: x86_value.simps)
    moreover have "keeps (overwritten r \<union> free e) m m0" by (rule keeps_mono [OF k0(1)]) (simp add: fe)
    ultimately show "\<exists>m1. lands (cond_code n @ b) m m1 \<and> keeps (overwritten r \<union> free e) m m1 \<and> mem m1 = mem m \<and>
        take_bit (bits (reg_size r)) (rget m1 (cmov_res r (scratch_index e0)))
        = take_bit (bits (reg_size r)) (if x86_cond n s then x86_value (RegOp r') s else x86_value (RegOp r) s)"
      using lands_append [OF lands_straight [OF c(2), of m, folded m0_def] m1(1)] keeps_trans [of _ m m0 _ m1] m1(2,3) k0(2)
      by (intro exI [of _ m1]) (metis fe sup_idem)
  qed (use e j(1,4) in \<open>simp_all add: e0_def\<close>)
qed

end
