(* ===== verification/AddrSpec.thy ===== *)
theory AddrSpec
  imports MoveSpec
begin

text \<open>
  Effective addresses: the code of \<^verbatim>\<open>lea\<close> computes base plus scaled index plus displacement,
  truncated to the address width, and what loads and stores at it do.
\<close>

section \<open>The architecture's address\<close>

text \<open>A base or index register, possibly absent.\<close>

definition part_value :: "ZydisRegister \<Rightarrow> x86 \<Rightarrow> u64" where
  "part_value r s = (if r = Z_NONE then 0 else x86_value (RegOp r) s)"

definition x86_address :: "env \<Rightarrow> operand \<Rightarrow> x86 \<Rightarrow> u64" where
  "x86_address V oper s = (
     if base oper = Z_RIP then current_rip V + ilength (current_instruction V) + disp oper
     else take_bit (address_width (current_instruction V))
       (part_value (base oper) s + of_nat (scale oper) * part_value (index oper) s + disp oper))"

text \<open>Memory operands without a segment override as the decoder delivers them: registers of the
  address width, one of the four scales, and something to compute the address from.\<close>

definition address_reg :: "env \<Rightarrow> ZydisRegister \<Rightarrow> bool" where
  "address_reg V r \<longleftrightarrow> plain_reg V r \<and> bits (reg_size r) = address_width (current_instruction V)"

definition plain_address :: "env \<Rightarrow> operand \<Rightarrow> bool" where
  "plain_address V oper \<longleftrightarrow> is_mem oper \<and> \<not> has_segment (current_instruction V)
     \<and> address_width (current_instruction V) \<in> (if g_mode32 V then {16, 32} else {32, 64})
     \<and> (if base oper = Z_RIP then \<not> g_mode32 V
        else (base oper = Z_NONE \<or> address_reg V (base oper)) \<and> (index oper = Z_NONE \<or> address_reg V (index oper))
          \<and> (index oper \<noteq> Z_NONE \<longrightarrow> scale oper \<in> {1, 2, 4, 8})
          \<and> (base oper \<noteq> Z_NONE \<or> index oper \<noteq> Z_NONE \<or> disp oper \<noteq> 0))"

section \<open>Computing into the address register\<close>

text \<open>\<open>leaves V t f e P Q k\<close>: operation \<open>f\<close> appends straight-line code that changes register \<open>t\<close> from a value
  with \<open>P\<close> to one with \<open>Q\<close> and otherwise free scratch registers only, and keeps at most \<open>k\<close> of them.\<close>

definition leaves :: "env \<Rightarrow> reg \<Rightarrow> (emitter \<Rightarrow> emitter option) \<Rightarrow> emitter \<Rightarrow> (x86 \<Rightarrow> u64 \<Rightarrow> bool) \<Rightarrow> (x86 \<Rightarrow> u64 \<Rightarrow> bool) \<Rightarrow> nat \<Rightarrow> bool" where
  "leaves V t f e P Q k \<longleftrightarrow> (\<exists>c j. j \<le> k \<and> f e = Some (emits c (advance j e)) \<and> list_all straight c
     \<and> (\<forall>m. keeps (insert t (free e)) m (exec c m) \<and> mem (exec c m) = mem m)
     \<and> (\<forall>tsp L m s. sim V tsp L m s \<and> P s (rget m t) \<longrightarrow> Q s (rget (exec c m) t)))"

lemma sim_scratches: "sim V tsp L m s \<Longrightarrow> keeps scratches m m' \<Longrightarrow> mem m' = mem m \<Longrightarrow> sim V tsp L m' s"
  using sim_keeps [of V tsp L m s "\<lparr>code = [], scratch_index = 0, cached_lea = 0, cached_lea_operand = None\<rparr>" m']
  by (simp add: free_def scratch_gprs_def insert_commute)

lemma leaves_bind:
  assumes t: "t \<in> scratches" and f: "leaves V t f e P Q k" and g: "\<And>c j. j \<le> k \<Longrightarrow> leaves V t g (emits c (advance j e)) Q R k'"
  shows "leaves V t (\<lambda>e. f e \<bind> g) e P R (k + k')"
proof -
  obtain c j where c: "j \<le> k" "f e = Some (emits c (advance j e))" "list_all straight c"
    "\<And>m. keeps (insert t (free e)) m (exec c m)" "\<And>m. mem (exec c m) = mem m"
    "\<And>tsp L m s. sim V tsp L m s \<Longrightarrow> P s (rget m t) \<Longrightarrow> Q s (rget (exec c m) t)"
    using f unfolding leaves_def by blast
  let ?e = "emits c (advance j e)"
  obtain d i where d: "i \<le> k'" "g ?e = Some (emits d (advance i ?e))" "list_all straight d"
    "\<And>m. keeps (insert t (free ?e)) m (exec d m)" "\<And>m. mem (exec d m) = mem m"
    "\<And>tsp L m s. sim V tsp L m s \<Longrightarrow> Q s (rget m t) \<Longrightarrow> R s (rget (exec d m) t)"
    using g [OF c(1), of c] unfolding leaves_def by blast
  have fr: "insert t (free ?e) \<subseteq> insert t (free e)" "insert t (free e) \<subseteq> scratches"
    using free_advance [of j e] free_scratches [of e] t unfolding emits_fields(5) by blast+
  have "keeps (insert t (free e)) m (exec (c @ d) m)" for m
    using keeps_trans [OF c(4) keeps_mono [OF d(4) fr(1)]] by (simp add: exec_append)
  moreover have "R s (rget (exec (c @ d) m) t)" if "sim V tsp L m s" "P s (rget m t)" for tsp L m s
    using d(6) [OF sim_scratches [OF that(1) keeps_mono [OF c(4) fr(2)] c(5)] c(6) [OF that]] by (simp add: exec_append)
  moreover have "emits d (advance i ?e) = emits (c @ d) (advance (j + i) e)" by (simp add: advance_def emits_def add.assoc)
  ultimately show ?thesis
    unfolding leaves_def using c d
    by (intro exI [of _ "c @ d"] exI [of _ "j + i"] conjI allI impI) (auto simp: exec_append)
qed

lemma leaves_gen:
  assumes "gen f e (\<lambda>m m'. sets_reg e t (F (rget m t)) m m')" "\<And>s v. P s v \<Longrightarrow> Q s (F v)"
  shows "leaves V t f e P Q 0"
proof -
  obtain c where c: "f e = Some (emits c e)" "list_all straight c" "\<And>m. sets_reg e t (F (rget m t)) m (exec c m)"
    using assms(1) unfolding gen_def by blast
  show ?thesis
    unfolding leaves_def using c assms(2)
    by (intro exI [of _ c] exI [of _ 0]) (auto simp: sets_reg_def)
qed

text \<open>Reading a register next to register \<open>t\<close>.\<close>

lemma getGPR_reg_reads:
  assumes t: "t \<in> scratches" "t \<notin> free e" and i: "scratch_index e < 7" and r: "plain_reg V r"
  shows "\<exists>x k. k \<le> 1 \<and> x \<noteq> t \<and> reads V (getGPR_reg V r) e (x86_value (RegOp r)) x k"
proof -
  obtain x k where k: "k \<le> 1" "reads V (getGPR V (Operand 0) (RegOp r)) e (x86_value (RegOp r)) x k"
    using getGPR_reads [OF i, of V "RegOp r" "Operand 0"] r by auto
  then have x: "reads V (getGPR_reg V r) e (x86_value (RegOp r)) x k" by (simp add: reads_def)
  then have "x \<in> free e \<or> x \<in> set gpr_alloc" unfolding reads_def by blast
  moreover have "t \<notin> set gpr_alloc" using t(1) by (auto simp: gpr_alloc_def)
  ultimately have "x \<noteq> t" using t(2) by blast
  then show ?thesis using k(1) x by blast
qed

lemma free_emits_advance: "free (emits c (advance k e)) = free (advance k e)"
  by (rule emits_fields(5))

lemma keeps_seq:
  assumes "keeps S m (exec c m)" "keeps T (exec c m) (exec d (exec c m))" "S \<subseteq> U" "T \<subseteq> U"
  shows "keeps U m (exec (c @ d) m)"
  using keeps_trans [OF keeps_mono [OF assms(1,3)] keeps_mono [OF assms(2,4)]] by (simp add: exec_append)

text \<open>Combining one register with the address, or two registers into it.\<close>

lemma leaves_reg:
  assumes t: "t \<in> scratches" "t \<notin> free e" and i: "scratch_index e < 7" and r: "plain_reg V r"
    and g: "\<And>x e'. x \<notin> free e' \<Longrightarrow> x \<noteq> t \<Longrightarrow> t \<notin> free e' \<Longrightarrow> scratch_index e' \<le> scratch_index e + 1 \<Longrightarrow>
      gen (g x) e' (\<lambda>m m'. sets_reg e' t (F (rget m x) (rget m t)) m m')"
    and Q: "\<And>s v. P s v \<Longrightarrow> Q s (F (x86_value (RegOp r) s) v)"
  shows "leaves V t (\<lambda>e. getGPR_reg V r e \<bind> (\<lambda>(x, e). g x e)) e P Q 1"
proof -
  obtain x k where c1: "k \<le> 1" "x \<noteq> t" "reads V (getGPR_reg V r) e (x86_value (RegOp r)) x k"
    using getGPR_reg_reads [OF t i r] by blast
  obtain c where c2: "getGPR_reg V r e = Some (x, emits c (advance k e))" "list_all straight c"
    "x \<notin> free (emits c (advance k e))" "\<And>m. keeps (free e) m (exec c m)" "\<And>m. mem (exec c m) = mem m"
    "\<And>tsp L m s. sim V tsp L m s \<Longrightarrow> rget (exec c m) x = x86_value (RegOp r) s"
    using c1(3) unfolding reads_def free_emits_advance by blast
  have c3: "free (emits c (advance k e)) \<subseteq> free e" unfolding free_emits_advance by (rule free_advance)
  note c = c1(1) c2(1,2,3) c1(2) c3 c2(4,5,6)
  let ?e = "emits c (advance k e)"
  have "t \<notin> free ?e" "scratch_index ?e \<le> scratch_index e + 1" using c(1,6) t(2) by auto
  from g [OF c(4,5) this] obtain d where d: "g x ?e = Some (emits d ?e)" "list_all straight d"
    "\<And>m. sets_reg ?e t (F (rget m x) (rget m t)) m (exec d m)"
    unfolding gen_def by blast
  have fr: "insert t (free ?e) \<subseteq> insert t (free e)" using c(6) by blast
  have kd: "keeps (insert t (free ?e)) m (exec d m)" for m using d(3) [of m] by (simp only: sets_reg_def)
  have "keeps (insert t (free e)) m (exec (c @ d) m)" for m
    by (rule keeps_seq [OF c(7) kd _ fr]) blast
  moreover have "rget (exec c m) t = rget m t" for m using c(7) [of m] t(2) by (simp add: keeps_def)
  then have "Q s (rget (exec (c @ d) m) t)" if "sim V tsp L m s" "P s (rget m t)" for tsp L m s
    using d(3) [of "exec c m"] c(9) [OF that(1)] Q [OF that(2)] by (simp add: exec_append sets_reg_def)
  moreover have "mem (exec (c @ d) m) = mem m" for m using d(3) [of "exec c m"] c(8) by (simp add: exec_append sets_reg_def)
  ultimately show ?thesis
    unfolding leaves_def using c(1-3) d(1,2)
    by (intro exI [of _ "c @ d"] exI [of _ k] conjI allI impI) (simp_all, blast)
qed

lemma leaves_regs:
  assumes t: "t \<in> scratches" "t \<notin> free e" and i: "scratch_index e < 6" and r: "plain_reg V r" "plain_reg V r'"
    and g: "\<And>x y e'. x \<notin> free e' \<Longrightarrow> x \<noteq> t \<Longrightarrow> y \<notin> free e' \<Longrightarrow> y \<noteq> t \<Longrightarrow> t \<notin> free e' \<Longrightarrow> scratch_index e' \<le> scratch_index e + 2 \<Longrightarrow>
      gen (g x y) e' (\<lambda>m m'. sets_reg e' t (F (rget m x) (rget m y)) m m')"
    and Q: "\<And>s. Q s (F (x86_value (RegOp r) s) (x86_value (RegOp r') s))"
  shows "leaves V t (\<lambda>e. getGPR_reg V r e \<bind> (\<lambda>(x, e). getGPR_reg V r' e \<bind> (\<lambda>(y, e). g x y e))) e P Q 2"
proof -
  have i': "scratch_index e < 7" using i by simp
  obtain x k where c1: "k \<le> 1" "x \<noteq> t" "reads V (getGPR_reg V r) e (x86_value (RegOp r)) x k"
    using getGPR_reg_reads [OF t i' r(1)] by blast
  obtain c where c2: "getGPR_reg V r e = Some (x, emits c (advance k e))" "list_all straight c"
    "x \<notin> free (emits c (advance k e))" "\<And>m. keeps (free e) m (exec c m)" "\<And>m. mem (exec c m) = mem m"
    "\<And>tsp L m s. sim V tsp L m s \<Longrightarrow> rget (exec c m) x = x86_value (RegOp r) s"
    using c1(3) unfolding reads_def free_emits_advance by blast
  have c3: "free (emits c (advance k e)) \<subseteq> free e" unfolding free_emits_advance by (rule free_advance)
  note c = c1(1) c2(1,2,3) c1(2) c3 c2(4,5,6)
  let ?e = "emits c (advance k e)"
  have t1: "t \<notin> free ?e" "scratch_index ?e < 7" using c(1,6) t(2) i by auto
  obtain y j where d1: "j \<le> 1" "y \<noteq> t" "reads V (getGPR_reg V r') ?e (x86_value (RegOp r')) y j"
    using getGPR_reg_reads [OF t(1) t1 r(2)] by blast
  obtain d where d2: "getGPR_reg V r' ?e = Some (y, emits d (advance j ?e))" "list_all straight d"
    "y \<notin> free (emits d (advance j ?e))" "\<And>m. keeps (free ?e) m (exec d m)" "\<And>m. mem (exec d m) = mem m"
    "\<And>tsp L m s. sim V tsp L m s \<Longrightarrow> rget (exec d m) y = x86_value (RegOp r') s"
    using d1(3) unfolding reads_def free_emits_advance by blast
  have d3: "free (emits d (advance j ?e)) \<subseteq> free ?e" unfolding free_emits_advance [of d] by (rule free_advance)
  note d = d1(1) d2(1,2,3) d1(2) d3 d2(4,5,6)
  let ?e2 = "emits d (advance j ?e)"
  have t2: "x \<notin> free ?e2" "t \<notin> free ?e2" "scratch_index ?e2 \<le> scratch_index e + 2" using c(1,4) d(1,6) t1 by auto
  from g [OF t2(1) c(5) d(4,5) t2(2,3)] obtain b where b: "g x y ?e2 = Some (emits b ?e2)" "list_all straight b"
    "\<And>m. sets_reg ?e2 t (F (rget m x) (rget m y)) m (exec b m)"
    unfolding gen_def by blast
  have fr: "insert t (free ?e2) \<subseteq> insert t (free e)" using c(6) d(6) by blast
  have kb: "keeps (insert t (free ?e2)) m (exec b m)" for m using b(3) [of m] by (simp only: sets_reg_def)
  have kcd: "keeps (free e) m (exec (c @ d) m)" for m by (rule keeps_seq [OF c(7) d(7) order_refl c(6)])
  have "keeps (insert t (free e)) m (exec ((c @ d) @ b) m)" for m
    by (rule keeps_seq [OF kcd kb _ fr]) blast
  moreover have "Q s (rget (exec ((c @ d) @ b) m) t)" if s: "sim V tsp L m s" for tsp L m s
  proof -
    have "sim V tsp L (exec c m) s" by (rule sim_keeps [OF s c(7,8)])
    then have "rget (exec (c @ d) m) y = x86_value (RegOp r') s" using d(9) by (simp add: exec_append)
    moreover have "rget (exec (c @ d) m) x = x86_value (RegOp r) s"
      using c(9) [OF s] d(7) [of "exec c m"] c(4) by (simp add: exec_append keeps_def)
    ultimately show ?thesis using b(3) [of "exec (c @ d) m"] Q by (simp add: exec_append sets_reg_def)
  qed
  moreover have "mem (exec ((c @ d) @ b) m) = mem m" for m
    using b(3) [of "exec (c @ d) m"] c(8) d(8) by (simp add: exec_append sets_reg_def)
  moreover have "emits b ?e2 = emits ((c @ d) @ b) (advance (k + j) e)" by (simp add: advance_def emits_def add.assoc)
  ultimately show ?thesis
    unfolding leaves_def using c(1-3) d(1-3) b(1,2)
    by (intro exI [of _ "(c @ d) @ b"] exI [of _ "k + j"] conjI allI impI) (simp_all, blast)
qed

lemma push_scale: "push_bit n (x :: u64) = of_nat (2 ^ n) * x"
  by (simp add: push_bit_eq_mult)

lemma add_index_gen:
  assumes i: "scratch_index e < 7" and t: "t \<noteq> 0" "t \<notin> free e" and x: "x \<notin> free e" "y \<notin> free e" and s: "s \<in> {1, 2, 4, 8}"
  shows "gen (add_index V t y x s) e (\<lambda>m m'. sets_reg e t (rget m y + of_nat s * rget m x) m m')"
proof -
  define u where "u = scratch_gprs ! scratch_index e"
  have u: "u \<in> free e" "u \<noteq> 0" using scratch_in_free [OF i] scratch_not_special [OF i] by (auto simp: u_def)
  then have "y \<noteq> u" "x \<noteq> u" "t \<noteq> u" using x t by auto
  note n = this
  show ?thesis
  proof (cases "s = 1")
    case True
    then show ?thesis using t
      by (intro genI [where c = "[Rr rADD t y x]"]) (simp_all add: add_index_def exec_simps sets_reg_def keeps_rset)
  next
    case False
    then obtain k f where k: "scale_shift s = Some k" "shadd s = Some f" "of_nat s = (2 ^ k :: u64)"
      "\<And>a b. rop_sem f a b = push_bit k a + b"
      using s by (auto simp: scale_shift_def shadd_def)
    show ?thesis
    proof (cases "ext_B V")
      case True
      then show ?thesis using t False k
        by (intro genI [where c = "[Rr f t x y]"])
           (simp_all add: add_index_def exec_simps sets_reg_def keeps_rset push_bit_eq_mult algebra_simps)
    next
      case B: False
      then show ?thesis using t False k n u i
        by (intro genI [where c = "[Sh sSLLI u x k, Rr rADD t y u]"])
           (simp_all add: add_index_def exec_simps sets_reg_def keeps_rset push_bit_eq_mult algebra_simps emits_index flip: u_def)
    qed
  qed
qed

section \<open>Base, index and displacement\<close>

lemma leaves_code:
  assumes "t \<noteq> 0" "list_all straight c" "\<And>m. exec c m = rset t (F (rget m t)) m" "\<And>s v. P s v \<Longrightarrow> Q s (F v)"
  shows "leaves V t (\<lambda>e. Some (emits c e)) e P Q 0"
  by (rule leaves_gen [where F = F, OF genI [where c = c]]) (use assms in \<open>simp_all add: sets_reg_def keeps_rset\<close>)

lemma leaves_nothing: "(\<And>s v. P s v \<Longrightarrow> Q s v) \<Longrightarrow> leaves V t Some e P Q 0"
  unfolding leaves_def by (intro exI [of _ "[]"] exI [of _ 0]) (auto simp: exec_Nil)

lemma leaves_mono: "leaves V t f e P Q j \<Longrightarrow> j \<le> k \<Longrightarrow> leaves V t f e P Q k"
  unfolding leaves_def by (meson le_trans)

lemma gen_code: "t \<noteq> 0 \<Longrightarrow> straight i \<Longrightarrow> (\<And>m. effect i m = rset t (F m) m) \<Longrightarrow> gen (\<lambda>e. Some (emits [i] e)) e (\<lambda>m m'. sets_reg e t (F m) m m')"
  by (rule genI [where c = "[i]"]) (simp_all add: exec_simps sets_reg_def keeps_rset)

lemma leaves_disp:
  assumes t: "t \<in> scratches" "t \<notin> free e" and i: "scratch_index e < 7" and b: "b = Z_NONE \<or> plain_reg V b"
  shows "leaves V t (\<lambda>e. if b \<noteq> Z_NONE \<and> IsValidSigned12BitImm d then do {
           (x, e) \<leftarrow> getGPR_reg V b e;
           Some (emits [Ri iADDI t x d] e)
         } else do {
           let e = emits [LI t d] e;
           (if b \<noteq> Z_NONE then do {
              (x, e) \<leftarrow> getGPR_reg V b e;
              Some (emits [Rr rADD t t x] e)
            } else Some e)
         }) e P (\<lambda>s v. v = part_value b s + d) 1"
proof -
  have t0: "t \<noteq> 0" using t(1) by auto
  have li: "leaves V t (\<lambda>e. Some (emits [LI t d] e)) e P (\<lambda>s v. v = d) 0"
    by (rule leaves_code [where F = "\<lambda>_. d"]) (simp_all add: t0 exec_simps)
  show ?thesis
  proof (cases "b = Z_NONE")
    case True
    then show ?thesis
      using leaves_mono [OF li, of 1] by (simp add: part_value_def)
  next
    case False
    then have b: "plain_reg V b" using b by simp
    show ?thesis
    proof (cases "IsValidSigned12BitImm d")
      case True
      have "leaves V t (\<lambda>e. getGPR_reg V b e \<bind> (\<lambda>(x, e). Some (emits [Ri iADDI t x d] e))) e P (\<lambda>s v. v = part_value b s + d) 1"
        by (rule leaves_reg [OF t i b, where F = "\<lambda>x _. x + d"])
           (rule gen_code, simp_all add: t0 exec_simps part_value_def False)
      then show ?thesis using True False by simp
    next
      case imm: False
      have "leaves V t (\<lambda>e. Some (emits [LI t d] e) \<bind> (\<lambda>e. getGPR_reg V b e \<bind> (\<lambda>(x, e). Some (emits [Rr rADD t t x] e)))) e
          P (\<lambda>s v. v = part_value b s + d) (0 + 1)"
        apply (rule leaves_bind [OF t(1) li])
        apply (rule leaves_reg [OF t(1) _ _ b, where F = "\<lambda>x v. v + x"])
        using t i by (auto intro!: gen_code simp: t0 exec_simps part_value_def False)
      then show ?thesis using imm False by (simp add: Let_def)
    qed
  qed
qed

text \<open>Adding the scaled index to an address, or starting from it.\<close>

lemma leaves_index:
  assumes t: "t \<in> scratches" "t \<notin> free e" and i: "scratch_index e < 6" and x: "ix = Z_NONE \<or> plain_reg V ix" "ix \<noteq> Z_NONE \<longrightarrow> sc \<in> {1, 2, 4, 8}"
    and Q: "\<And>s v. P s v \<Longrightarrow> Q s (v + of_nat sc * part_value ix s)"
  shows "leaves V t (\<lambda>e. if ix \<noteq> Z_NONE then getGPR_reg V ix e \<bind> (\<lambda>(x, e). add_index V t t x sc e) else Some e) e P Q 1"
proof (cases "ix = Z_NONE")
  case True
  have "leaves V t Some e P Q 0" by (rule leaves_nothing) (use Q True in \<open>force simp: part_value_def\<close>)
  from leaves_mono [OF this, of 1] show ?thesis using True by simp
next
  case False
  have "leaves V t (\<lambda>e. getGPR_reg V ix e \<bind> (\<lambda>(x, e). add_index V t t x sc e)) e P Q 1"
  proof (rule leaves_reg [OF t, where F = "\<lambda>x v. v + of_nat sc * x"])
    show "Q s (v + of_nat sc * x86_value (RegOp ix) s)" if "P s v" for s v using Q [OF that] False by (simp add: part_value_def)
  qed (use i x t False in \<open>auto intro!: add_index_gen simp del: insert_iff\<close>)
  then show ?thesis using False by simp
qed

lemma leaves_scaled:
  assumes t: "t \<in> scratches" "t \<notin> free e" and i: "scratch_index e < 7" and x: "plain_reg V ix" "sc \<in> {1, 2, 4, 8}"
  shows "leaves V t (\<lambda>e. getGPR_reg V ix e \<bind> (\<lambda>(i, e). if sc = 1 then Some (emits [Rm uMV t i] e)
     else do { n \<leftarrow> scale_shift sc; Some (emits [Sh sSLLI t i n] e) })) e P (\<lambda>s v. v = of_nat sc * x86_value (RegOp ix) s) 1"
proof (rule leaves_reg [OF t i x(1), where F = "\<lambda>x _. of_nat sc * x"])
  have t0: "t \<noteq> 0" using t(1) by auto
  show "gen (\<lambda>e. if sc = 1 then Some (emits [Rm uMV t i] e) else do { n \<leftarrow> scale_shift sc; Some (emits [Sh sSLLI t i n] e) }) e'
      (\<lambda>m m'. sets_reg e' t (of_nat sc * rget m i) m m')" for i e'
    using x(2) by (elim insertE emptyE)
      (simp_all add: scale_shift_def, (rule gen_code, simp_all add: t0 exec_simps push_bit_eq_mult mult.commute)+)
qed simp

lemma lea_sum_leaves:
  assumes t: "t \<in> scratches" "t \<notin> free e" and i: "scratch_index e < 5" and b: "base oper = Z_NONE \<or> plain_reg V (base oper)"
    and x: "index oper = Z_NONE \<or> plain_reg V (index oper)" "index oper \<noteq> Z_NONE \<longrightarrow> scale oper \<in> {1, 2, 4, 8}"
    and some: "base oper \<noteq> Z_NONE \<or> index oper \<noteq> Z_NONE \<or> disp oper \<noteq> 0"
  shows "leaves V t (lea_sum V t oper) e (\<lambda>_ _. True)
    (\<lambda>s v. v = part_value (base oper) s + of_nat (scale oper) * part_value (index oper) s + disp oper) 2" (is "leaves V t _ e _ (\<lambda>s v. v = ?v s) 2")
proof -
  have t0: "t \<noteq> 0" using t(1) by auto
  have i7: "scratch_index e < 7" "scratch_index e < 6" using i by simp_all
  consider (disp) "disp oper \<noteq> 0" | (base) "disp oper = 0" "index oper = Z_NONE" | (index) "disp oper = 0" "index oper \<noteq> Z_NONE" "base oper = Z_NONE"
    | (both) "disp oper = 0" "index oper \<noteq> Z_NONE" "base oper \<noteq> Z_NONE"
    by blast
  then show ?thesis
  proof cases
    case disp
    have "leaves V t (\<lambda>e. if index oper \<noteq> Z_NONE then getGPR_reg V (index oper) e \<bind> (\<lambda>(x, e). add_index V t t x (scale oper) e) else Some e)
        (emits c (advance j e)) (\<lambda>s v. v = part_value (base oper) s + disp oper) (\<lambda>s v. v = ?v s) 1" if "j \<le> 1" for c j
      by (rule leaves_index [OF t(1) _ _ x]) (use t(2) free_advance_emits [of j c e] i that in auto)
    from leaves_bind [OF t(1) leaves_disp [OF t i7(1) b, of "disp oper" "\<lambda>_ _. True"] this] disp show ?thesis
      by (simp add: lea_sum_def [abs_def] Let_def numeral_2_eq_2)
  next
    case base
    then have nb: "base oper \<noteq> Z_NONE" "plain_reg V (base oper)" using some b by auto
    have "leaves V t (\<lambda>e. getGPR_reg V (base oper) e \<bind> (\<lambda>(b, e). Some (emits [Rm uMV t b] e))) e (\<lambda>_ _. True) (\<lambda>s v. v = ?v s) 1"
      by (rule leaves_reg [OF t i7(1) nb(2), where F = "\<lambda>x _. x"])
         (rule gen_code, simp_all add: t0 exec_simps part_value_def nb(1) base)
    from leaves_mono [OF this, of 2] show ?thesis using base nb(1) by (simp add: lea_sum_def [abs_def])
  next
    case index
    then have xr: "plain_reg V (index oper)" "scale oper \<in> {1, 2, 4, 8}" using x by auto
    from leaves_mono [OF leaves_scaled [OF t i7(1) xr, of "\<lambda>_ _. True"], of 2] show ?thesis
      using index by (simp add: lea_sum_def [abs_def] part_value_def)
  next
    case both
    then have r: "plain_reg V (index oper)" "plain_reg V (base oper)" "scale oper \<in> {1, 2, 4, 8}" using b x by auto
    have "leaves V t (\<lambda>e. getGPR_reg V (index oper) e \<bind> (\<lambda>(i, e). getGPR_reg V (base oper) e \<bind>
        (\<lambda>(b, e). add_index V t b i (scale oper) e))) e (\<lambda>_ _. True) (\<lambda>s v. v = ?v s) 2"
      by (rule leaves_regs [OF t i7(2) r(1,2), where F = "\<lambda>x y. y + of_nat (scale oper) * x"],
          rule add_index_gen [OF _ t0 _ _ _ r(3)], use i in \<open>simp_all add: part_value_def both\<close>)
    then show ?thesis using both by (simp add: lea_sum_def [abs_def])
  qed
qed

section \<open>The address computation\<close>

text \<open>\<open>computes V f e val x k\<close> is \<open>reads\<close> for an operation that may also change the cached address.\<close>

definition computes :: "env \<Rightarrow> (emitter \<Rightarrow> (reg \<times> emitter) option) \<Rightarrow> emitter \<Rightarrow> (x86 \<Rightarrow> u64) \<Rightarrow> reg \<Rightarrow> nat \<Rightarrow> bool" where
  "computes V f e val x k \<longleftrightarrow> (\<exists>c e'. f e = Some (x, e') \<and> code e' = code e @ c \<and> list_all straight c
     \<and> scratch_index e \<le> scratch_index e' \<and> scratch_index e' \<le> scratch_index e + k \<and> x \<notin> free e'
     \<and> (\<forall>m. keeps (free e) m (exec c m) \<and> mem (exec c m) = mem m)
     \<and> (\<forall>tsp L m s. sim V tsp L m s \<longrightarrow> rget (exec c m) x = val s))"

lemma computesI:
  assumes "f e = Some (x, e')" "code e' = code e @ c" "list_all straight c" "scratch_index e \<le> scratch_index e'"
    "scratch_index e' \<le> scratch_index e + k" "x \<notin> free e'" "\<And>m. keeps (free e) m (exec c m)" "\<And>m. mem (exec c m) = mem m"
    "\<And>tsp L m s. sim V tsp L m s \<Longrightarrow> rget (exec c m) x = val s"
  shows "computes V f e val x k"
  unfolding computes_def using assms by blast

lemma address_reg_value: "address_reg V r \<Longrightarrow> take_bit (address_width (current_instruction V)) (x86_value (RegOp r) s) = x86_value (RegOp r) s"
  using value_zext [of r s] by (simp add: address_reg_def)

text \<open>The register behind a plain base or index operand.\<close>

lemma computes_reg:
  assumes i: "scratch_index e < 6" and r: "plain_reg V r" and f: "f e = getGPR_reg V r e1"
    and e1: "code e1 = code e" "scratch_index e1 = scratch_index e + 1"
  shows "\<exists>x. computes V f e (x86_value (RegOp r)) x 2"
proof -
  have "scratch_index e1 < 7" using i e1 by simp
  then obtain x k where k: "k \<le> 1" "reads V (getGPR V (Operand 0) (RegOp r)) e1 (x86_value (RegOp r)) x k"
    using getGPR_reads [of e1 V "RegOp r" "Operand 0"] r by auto
  obtain c where c: "getGPR_reg V r e1 = Some (x, emits c (advance k e1))" "list_all straight c" "x \<notin> free (advance k e1)"
    "\<And>m. keeps (free e1) m (exec c m)" "\<And>m. mem (exec c m) = mem m"
    "\<And>tsp L m s. sim V tsp L m s \<Longrightarrow> rget (exec c m) x = x86_value (RegOp r) s"
    using k(2) unfolding reads_def getGPR.simps by blast
  have "free e1 \<subseteq> free e" unfolding free_def e1(2) by (rule set_drop_subset_set_drop) simp
  then have "keeps (free e) m (exec c m)" for m by (rule keeps_mono [OF c(4)])
  then have "computes V f e (x86_value (RegOp r)) x 2"
    using c k(1) e1 f by (intro computesI [where c = c and e' = "emits c (advance k e1)"]) (simp_all only: free_emits_advance, simp_all)
  then show ?thesis ..
qed

text \<open>The tail of \<^verbatim>\<open>lea\<close>: truncation to the address width and to 32 bits in 32-bit mode.\<close>

definition lea_truncate :: "env \<Rightarrow> reg \<Rightarrow> emitter \<Rightarrow> emitter option" where
  "lea_truncate V t e = do {
     e \<leftarrow> (if address_width (current_instruction V) \<noteq> 64 then do {
             sz \<leftarrow> zydisToSize_bits (address_width (current_instruction V));
             zext V t t sz e
           } else Some e);
     Some (if g_mode32 V then emits [Rm uZEXTW t t] e else e)
   }"

lemma lea_truncate_leaves:
  assumes t: "t \<in> scratches" and a: "address_width (current_instruction V) \<in> (if g_mode32 V then {16, 32} else {32, 64})"
  shows "leaves V t (lea_truncate V t) e (\<lambda>s v. v = A s) (\<lambda>s v. v = take_bit (address_width (current_instruction V)) (A s)) 0"
proof (rule leaves_gen [where F = "take_bit (address_width (current_instruction V))"])
  let ?w = "address_width (current_instruction V)"
  have t0: "t \<noteq> 0" using t by auto
  define sz where "sz = (if ?w = 16 then X86_SIZE_WORD else if ?w = 32 then X86_SIZE_DWORD else X86_SIZE_QWORD)"
  let ?c = "zext_code V t t sz @ (if g_mode32 V then [Rm uZEXTW t t] else [])"
  have w: "?w = 16 \<or> ?w = 32 \<or> ?w = 64" "?w = 64 \<longrightarrow> \<not> g_mode32 V" using a by (auto split: if_splits)
  have sz: "gp_size sz" "bits sz = ?w" "?w \<noteq> 64 \<Longrightarrow> zydisToSize_bits ?w = Some sz" using w by (auto simp: sz_def zydisToSize_bits_def)
  have ex: "exec ?c m = rset t (take_bit ?w (rget m t)) m" for m
    using w t0 sz(2) by (auto simp: exec_append zext_exec [OF sz(1)] exec_simps)
  have "lea_truncate V t e = Some (emits ?c e)"
  proof (cases "?w = 64")
    case True
    then show ?thesis using w by (simp add: lea_truncate_def sz_def)
  next
    case False
    then show ?thesis using sz by (simp add: lea_truncate_def zext_eq)
  qed
  then show "gen (lea_truncate V t) e (\<lambda>m m'. sets_reg e t (take_bit ?w (rget m t)) m m')"
    using t0 by (intro genI [where c = ?c]) (simp_all add: ex sets_reg_def keeps_rset)
qed simp

lemma lea_sum_split:
  assumes "is_mem oper" "cached_lea_operand e \<noteq> Some ptr" "scratch_index e < 7" "base oper \<noteq> Z_RIP" "\<not> has_segment (current_instruction V)"
    and "use_temp \<or> disp oper \<noteq> 0 \<or> (base oper \<noteq> Z_NONE) = (index oper \<noteq> Z_NONE) \<or> base oper = Z_NONE \<and> scale oper \<noteq> 1"
  shows "lea V ptr oper use_temp e = (let t = scratch_gprs ! scratch_index e;
      e1 = (advance 1 e)\<lparr>cached_lea := t, cached_lea_operand := Some ptr\<rparr> in
      (lea_sum V t oper e1 \<bind> lea_truncate V t) \<bind> (\<lambda>e. Some (t, e)))"
  using assms
  by (auto simp: lea_def lea_truncate_def Let_def scratch_advance simp del: scratch_next
      split: Option.bind_splits)

lemma computes_sum:
  assumes oper: "plain_address V oper" "base oper \<noteq> Z_RIP" and i: "scratch_index e \<le> 3" and c: "cached_lea_operand e \<noteq> Some ptr"
    and d: "use_temp \<or> disp oper \<noteq> 0 \<or> (base oper \<noteq> Z_NONE) = (index oper \<noteq> Z_NONE) \<or> base oper = Z_NONE \<and> scale oper \<noteq> 1"
  shows "computes V (lea V ptr oper use_temp) e (x86_address V oper) (scratch_gprs ! scratch_index e) 3"
proof -
  define t where "t = scratch_gprs ! scratch_index e"
  define e1 where "e1 = (advance 1 e)\<lparr>cached_lea := t, cached_lea_operand := Some ptr\<rparr>"
  let ?w = "address_width (current_instruction V)"
  let ?A = "\<lambda>s. part_value (base oper) s + of_nat (scale oper) * part_value (index oper) s + disp oper"
  have i7: "scratch_index e < 7" using i by simp
  note p = oper(1) [unfolded plain_address_def if_not_P [OF oper(2)]]
  have e1: "scratch_index e1 = scratch_index e + 1" "code e1 = code e" "free e1 = free (advance 1 e)"
    by (simp_all add: e1_def free_def)
  have t: "t \<in> scratches" "t \<in> free e" "t \<notin> free e1"
    using scratch_gprs_less [OF i7] scratch_in_free [OF i7] scratch_not_free [OF i7] unfolding e1(3) t_def [symmetric] by blast+
  have lv: "leaves V t (\<lambda>e. lea_sum V t oper e \<bind> lea_truncate V t) e1 (\<lambda>_ _. True) (\<lambda>s v. v = take_bit ?w (?A s)) (2 + 0)"
  proof (rule leaves_bind [OF t(1)])
    show "leaves V t (lea_sum V t oper) e1 (\<lambda>_ _. True) (\<lambda>s v. v = ?A s) 2"
      by (rule lea_sum_leaves [OF t(1,3)]) (use i e1(1) p in \<open>auto simp: address_reg_def\<close>)
    show "leaves V t (lea_truncate V t) (emits c (advance j e1)) (\<lambda>s v. v = ?A s) (\<lambda>s v. v = take_bit ?w (?A s)) 0" for c j
      by (rule lea_truncate_leaves [OF t(1)]) (use p in blast)
  qed
  obtain c j where c: "j \<le> 2" "lea_sum V t oper e1 \<bind> lea_truncate V t = Some (emits c (advance j e1))" "list_all straight c"
    "\<And>m. keeps (insert t (free e1)) m (exec c m)" "\<And>m. mem (exec c m) = mem m"
    "\<And>tsp L m s. sim V tsp L m s \<Longrightarrow> rget (exec c m) t = take_bit ?w (?A s)"
    using lv unfolding leaves_def by auto
  have fr: "insert t (free e1) \<subseteq> free e" using t(2) free_advance [of 1 e] by (simp add: e1(3))
  have "t \<notin> free (emits c (advance j e1))" unfolding free_emits_advance using t(3) free_advance [of j e1] by blast
  moreover have "lea V ptr oper use_temp e = Some (t, emits c (advance j e1))"
    unfolding lea_sum_split [OF p [THEN conjunct1] assms(4) i7 oper(2) p [THEN conjunct2, THEN conjunct1] d] Let_def
    unfolding t_def [symmetric] e1_def [symmetric] by (simp add: c(2))
  ultimately show ?thesis
    unfolding t_def [symmetric]
    by (intro computesI [where c = c and e' = "emits c (advance j e1)"])
       (use c(1,3,5,6) keeps_mono [OF c(4) fr] e1 oper(2) in \<open>simp_all add: x86_address_def\<close>)
qed

lemma lea_computes:
  assumes oper: "plain_address V oper" and i: "scratch_index e \<le> 3" and c: "cached_lea_operand e \<noteq> Some ptr"
  shows "\<exists>x. computes V (lea V ptr oper use_temp) e (x86_address V oper) x 3 \<and> (use_temp \<longrightarrow> x \<in> scratches)"
proof -
  have i7: "scratch_index e < 7" using i by simp
  have t: "scratch_gprs ! scratch_index e \<in> scratches" "scratch_gprs ! scratch_index e \<in> free e" "scratch_gprs ! scratch_index e \<notin> free (advance 1 e)"
    using scratch_gprs_less [OF i7] scratch_in_free [OF i7] scratch_not_free [OF i7] by auto
  consider (rip) "base oper = Z_RIP"
    | (base) "base oper \<noteq> Z_RIP" "\<not> use_temp" "base oper \<noteq> Z_NONE" "index oper = Z_NONE" "disp oper = 0"
    | (index) "base oper \<noteq> Z_RIP" "\<not> use_temp" "base oper = Z_NONE" "index oper \<noteq> Z_NONE" "disp oper = 0" "scale oper = 1"
    | (sum) "base oper \<noteq> Z_RIP" "use_temp \<or> disp oper \<noteq> 0 \<or> (base oper \<noteq> Z_NONE) = (index oper \<noteq> Z_NONE) \<or> base oper = Z_NONE \<and> scale oper \<noteq> 1"
    by blast
  then show ?thesis
  proof cases
    case rip
    let ?t = "scratch_gprs ! scratch_index e" and ?v = "current_rip V + ilength (current_instruction V) + disp oper"
    let ?e = "emits [LI ?t ?v] ((advance 1 e)\<lparr>cached_lea := ?t, cached_lea_operand := Some ptr\<rparr>)"
    have "computes V (lea V ptr oper use_temp) e (x86_address V oper) ?t 3"
      by (rule computesI [where c = "[LI ?t ?v]" and e' = ?e])
         (use oper rip c i7 t in \<open>auto simp: lea_def plain_address_def scratch_advance exec_simps keeps_rset x86_address_def free_def emits_def
            simp del: scratch_next\<close>)
    then show ?thesis using t(1) by blast
  next
    case base
    then have r: "address_reg V (base oper)" using oper by (simp add: plain_address_def)
    let ?e = "(advance 1 e)\<lparr>cached_lea := scratch_gprs ! scratch_index e, cached_lea_operand := None\<rparr>"
    have "\<exists>x. computes V (lea V ptr oper use_temp) e (x86_value (RegOp (base oper))) x 2"
      by (rule computes_reg [where ?e1.0 = ?e])
         (use base r oper c i7 i in \<open>auto simp: address_reg_def lea_def plain_address_def scratch_advance Let_def simp del: scratch_next\<close>)
    moreover have "x86_value (RegOp (base oper)) = x86_address V oper"
      using base address_reg_value [OF r] by (simp add: fun_eq_iff x86_address_def part_value_def)
    ultimately show ?thesis using base(2) unfolding computes_def by fastforce
  next
    case index
    then have r: "address_reg V (index oper)" using oper by (simp add: plain_address_def)
    let ?e = "(advance 1 e)\<lparr>cached_lea := scratch_gprs ! scratch_index e, cached_lea_operand := None\<rparr>"
    have "\<exists>x. computes V (lea V ptr oper use_temp) e (x86_value (RegOp (index oper))) x 2"
      by (rule computes_reg [where ?e1.0 = ?e])
         (use index r oper c i7 i in \<open>auto simp: address_reg_def lea_def plain_address_def scratch_advance Let_def simp del: scratch_next\<close>)
    moreover have "x86_value (RegOp (index oper)) = x86_address V oper"
      using index address_reg_value [OF r] by (simp add: fun_eq_iff x86_address_def part_value_def)
    ultimately show ?thesis using index(2) unfolding computes_def by fastforce
  next
    case sum
    then show ?thesis using computes_sum [OF oper _ i c] t(1) by blast
  qed
qed

end
