(* ===== verification/XchgSpec.thy ===== *)
theory XchgSpec
  imports AddrSpec
begin

text \<open>
  The register form of \<^verbatim>\<open>XCHG\<close>, which writes two registers.
\<close>

text \<open>Both registers are read before either is written.\<close>

definition x86_XCHG :: "ZydisRegister \<Rightarrow> ZydisRegister \<Rightarrow> x86 \<Rightarrow> x86" where
  "x86_XCHG r r' s = x86_write r (x86_value (RegOp r') s) (x86_write r' (x86_value (RegOp r) s) s)"

text \<open>Writing a register that holds a value of the guest.\<close>

lemma setGPR_writes:
  assumes r: "plain_reg V r" and i: "scratch_index e \<le> 5" and x: "x \<notin> free e" "x = gpr_alloc ! reg_no r \<longrightarrow> reg_size r = X86_SIZE_DWORD \<or> reg_size r = X86_SIZE_QWORD"
  shows "\<exists>w. setGPR V ptr (RegOp r) x e = Some (emits w e) \<and> list_all straight w \<and>
    (\<forall>tsp L m s v. sim V tsp L m s \<and> rget m x = v \<longrightarrow> sim V tsp L (exec w m) (x86_write r v s)) \<and>
    (\<forall>m. keeps (insert (gpr_alloc ! reg_no r) (free e)) m (exec w m))"
proof -
  note n = plain_reg_facts [OF r]
  have "Suc (scratch_index e) < 7" using i by simp
  from setGPR_ref_gen [OF this n(2,1) x, of V] obtain w where
    w: "setGPR_ref V (reg_no r) (reg_size r) x e = Some (emits w e)" "list_all straight w"
    "\<And>m. sets_reg e (gpr_alloc ! reg_no r) (write_part (reg_size r) (rget m x) (rget m (gpr_alloc ! reg_no r))) m (exec w m)"
    unfolding gen_def by (elim exE conjE) simp
  have "sim V tsp L (exec w m) (x86_write r (rget m x) s)" if "sim V tsp L m s" for tsp L m s
    by (rule sim_write [OF that r w(3)])
  moreover have "keeps (insert (gpr_alloc ! reg_no r) (free e)) m (exec w m)" for m using w(3) [of m] by (simp only: sets_reg_def)
  ultimately show ?thesis
    using w(1,2) n(3,4) by (intro exI [of _ w]) auto
qed

lemma getGPR_not_dest:
  assumes "plain_reg V r" "plain_reg V r'" "bits (reg_size r) = bits (reg_size r')" "scratch_index e < 7" "getGPR V ptr (RegOp r) e = Some (x, e')"
  shows "x = gpr_alloc ! reg_no r' \<longrightarrow> reg_size r' = X86_SIZE_DWORD \<or> reg_size r' = X86_SIZE_QWORD"
proof (rule impI, rule ccontr)
  assume x: "x = gpr_alloc ! reg_no r'" and "\<not> (reg_size r' = X86_SIZE_DWORD \<or> reg_size r' = X86_SIZE_QWORD)"
  then have "bits (reg_size r') < 32" using narrow_size [OF plain_reg_facts(2) [OF assms(2)]] by simp
  from getGPR_narrow [of V "RegOp r" r' e ptr x e', OF _ _ this assms(4,5)] have "x \<in> scratches" using assms(1,3) by (simp add: fits_def)
  then show False using gpr_alloc_range(1) [OF plain_reg_facts(1) [OF assms(2)]] unfolding x by (rule rev_notE)
qed

text \<open>Reading both registers while scratch register 1 is taken.\<close>

lemma read_both:
  assumes e: "scratch_index e1 = 1" and r: "plain_reg V r" "plain_reg V r'" and sz: "bits (reg_size r) = bits (reg_size r')"
  shows "\<exists>x y c e3. getGPR V (Operand 1) (RegOp r') e1 \<bind> (\<lambda>(x, e). getGPR V (Operand 0) (RegOp r) e \<bind> (\<lambda>(y, e). g x y e)) = g x y e3
    \<and> code e3 = code e1 @ c \<and> list_all straight c \<and> scratch_index e3 \<le> 3 \<and> 1 \<notin> free e3 \<and> y \<notin> free e3 \<and> y \<noteq> 1
    \<and> (y = gpr_alloc ! reg_no r' \<longrightarrow> reg_size r' = X86_SIZE_DWORD \<or> reg_size r' = X86_SIZE_QWORD)
    \<and> (\<forall>tsp L m s. sim V tsp L m s \<longrightarrow> sim V tsp L (exec c m) s \<and> rget (exec c m) x = x86_value (RegOp r') s \<and> rget (exec c m) y = x86_value (RegOp r) s)"
proof -
  have e1: "1 \<notin> free e1" "(1 :: reg) \<notin> set gpr_alloc" by (auto simp: free_def e scratch_gprs_def gpr_alloc_def One_nat_def)
  have i1: "scratch_index e1 < 7" using e by simp
  obtain x k where x: "k \<le> 1" "reads V (getGPR V (Operand 1) (RegOp r')) e1 (x86_value (RegOp r')) x k"
    using getGPR_reads [OF i1, of V "RegOp r'" "Operand 1"] r by auto
  obtain c where c: "getGPR V (Operand 1) (RegOp r') e1 = Some (x, emits c (advance k e1))" "list_all straight c" "x \<notin> free (advance k e1)"
    "\<And>m. keeps (free e1) m (exec c m)" "\<And>m. mem (exec c m) = mem m" "\<And>tsp L m s. sim V tsp L m s \<Longrightarrow> rget (exec c m) x = x86_value (RegOp r') s"
    using x(2) unfolding reads_def by blast
  define e2 where "e2 = emits c (advance k e1)"
  have e2: "scratch_index e2 \<le> 2" "1 \<notin> free e2" "x \<notin> free e2"
    using e e1 x(1) c(3) free_advance [of k e1] unfolding e2_def free_emits_advance by auto
  have i2: "scratch_index e2 < 7" using e2 by simp
  obtain y j where y: "j \<le> 1" "reads V (getGPR V (Operand 0) (RegOp r)) e2 (x86_value (RegOp r)) y j"
    using getGPR_reads [OF i2, of V "RegOp r" "Operand 0"] r by auto
  obtain d where d: "getGPR V (Operand 0) (RegOp r) e2 = Some (y, emits d (advance j e2))" "list_all straight d" "y \<notin> free (advance j e2)"
    "y \<in> free e2 \<or> y \<in> set gpr_alloc"
    "\<And>m. keeps (free e2) m (exec d m)" "\<And>m. mem (exec d m) = mem m" "\<And>tsp L m s. sim V tsp L m s \<Longrightarrow> rget (exec d m) y = x86_value (RegOp r) s"
    using y(2) unfolding reads_def by blast
  let ?e3 = "emits d (advance j e2)"
  have e3: "scratch_index ?e3 \<le> 3" "1 \<notin> free ?e3" "y \<notin> free ?e3"
    using e2 y(1) d(3) free_advance [of j e2] unfolding free_emits_advance [of d] by auto
  have y1: "y \<noteq> 1" using d(4) e2(2) e1(2) by blast
  have v: "sim V tsp L (exec (c @ d) m) s \<and> rget (exec (c @ d) m) x = x86_value (RegOp r') s \<and> rget (exec (c @ d) m) y = x86_value (RegOp r) s"
    if s: "sim V tsp L m s" for tsp L m s
  proof -
    have s1: "sim V tsp L (exec c m) s" by (rule sim_keeps [OF s c(4,5)])
    have "rget (exec d (exec c m)) x = rget (exec c m) x" using d(5) [of "exec c m"] e2(3) by (simp add: keeps_def)
    then show ?thesis using sim_keeps [OF s1 d(5,6)] d(7) [OF s1] c(6) [OF s] by (simp add: exec_append)
  qed
  have "getGPR V (Operand 1) (RegOp r') e1 \<bind> (\<lambda>(x, e). getGPR V (Operand 0) (RegOp r) e \<bind> (\<lambda>(y, e). g x y e)) = g x y ?e3"
    by (simp only: c(1) [folded e2_def] bind.bind_lunit prod.case d(1))
  moreover have "code ?e3 = code e1 @ (c @ d)" "list_all straight (c @ d)" using c(2) d(2) by (simp_all add: e2_def)
  ultimately show ?thesis using e3 y1 getGPR_not_dest [OF r sz i2 d(1)] v by blast
qed

lemma fast_XCHG_translates:
  assumes e: "scratch_index e = 0" and r: "plain_reg V r" "plain_reg V r'" and sz: "bits (reg_size r) = bits (reg_size r')"
  shows "translates V (fast_XCHG xchg_lock V (RegOp r) (RegOp r')) e {} {} (x86_XCHG r r')"
proof -
  note n = plain_reg_facts(1) [OF r(1)] plain_reg_facts(1) [OF r(2)]
  let ?g = "\<lambda>x y e. setGPR V (Operand 1) (RegOp r') y (emits [Rm uMV 1 x] e) \<bind> (\<lambda>e. setGPR V (Operand 0) (RegOp r) 1 e)"
  have "scratch_index (advance 1 e) = 1" using e by simp
  from read_both [OF this r sz, of ?g] obtain x y c e3 where
    c: "getGPR V (Operand 1) (RegOp r') (advance 1 e) \<bind> (\<lambda>(x, e). getGPR V (Operand 0) (RegOp r) e \<bind> (\<lambda>(y, e). ?g x y e)) = ?g x y e3"
    "code e3 = code (advance 1 e) @ c" "list_all straight c" "scratch_index e3 \<le> 3" "1 \<notin> free e3" "y \<notin> free e3" "y \<noteq> 1"
    "y = gpr_alloc ! reg_no r' \<longrightarrow> reg_size r' = X86_SIZE_DWORD \<or> reg_size r' = X86_SIZE_QWORD"
    and v: "\<forall>tsp L m s. sim V tsp L m s \<longrightarrow> sim V tsp L (exec c m) s \<and> rget (exec c m) x = x86_value (RegOp r') s \<and> rget (exec c m) y = x86_value (RegOp r) s"
    by (elim exE conjE)
  define e4 where "e4 = emits [Rm uMV 1 x] e3"
  have e4: "scratch_index e4 \<le> 5" "y \<notin> free e4" "1 \<notin> free e4" using c(4,5,6) by (simp_all add: e4_def)
  from setGPR_writes [OF r(2) e4(1,2) c(8), of "Operand 1"] obtain w where
    w: "setGPR V (Operand 1) (RegOp r') y e4 = Some (emits w e4)" "list_all straight w"
    "\<forall>tsp L m s v. sim V tsp L m s \<and> rget m y = v \<longrightarrow> sim V tsp L (exec w m) (x86_write r' v s)"
    "\<forall>m. keeps (insert (gpr_alloc ! reg_no r') (free e4)) m (exec w m)"
    by (elim exE conjE)
  have "1 = gpr_alloc ! reg_no r \<longrightarrow> reg_size r = X86_SIZE_DWORD \<or> reg_size r = X86_SIZE_QWORD" using gpr_alloc_range(1) [OF n(1)] by simp
  moreover have "scratch_index (emits w e4) \<le> 5" "1 \<notin> free (emits w e4)" using e4 by simp_all
  ultimately obtain z where z: "setGPR V (Operand 0) (RegOp r) 1 (emits w e4) = Some (emits z (emits w e4))" "list_all straight z"
    "\<forall>tsp L m s v. sim V tsp L m s \<and> rget m 1 = v \<longrightarrow> sim V tsp L (exec z m) (x86_write r v s)"
    using setGPR_writes [OF r(1), of "emits w e4" 1 "Operand 0"] by blast
  let ?c = "c @ [Rm uMV 1 x] @ w @ z"
  have "scratch e = Some (1, advance 1 e)" using e by (simp add: scratch_advance scratch_0 del: scratch_next)
  then have h: "fast_XCHG xchg_lock V (RegOp r) (RegOp r') e = Some (emits z (emits w e4))"
    by (simp only: fast_XCHG_def is_mem.simps if_False bind.bind_lunit prod.case c(1) e4_def [symmetric] w(1) z(1))
  have "sim V tsp L (exec ?c m) (x86_XCHG r r' s)" if s: "sim V tsp L m s" for tsp L m s
  proof -
    define m3 where "m3 = rset 1 (rget (exec c m) x) (exec c m)"
    have "keeps scratches (exec c m) m3" unfolding m3_def by (rule keeps_rset [OF _ keeps_refl]) simp
    then have s3: "sim V tsp L m3 s" using sim_scratches [of V tsp L "exec c m" s m3] v s by (simp add: m3_def)
    have y3: "rget m3 y = x86_value (RegOp r) s" "rget m3 1 = x86_value (RegOp r') s" using c(7) v s by (simp_all add: m3_def)
    have s4: "sim V tsp L (exec w m3) (x86_write r' (x86_value (RegOp r) s) s)" using w(3) s3 y3(1) by blast
    have "1 \<notin> insert (gpr_alloc ! reg_no r') (free e4)" using e4(3) gpr_alloc_range(1) [OF n(2)] by simp
    then have "rget (exec w m3) 1 = x86_value (RegOp r') s" using w(4) y3(2) by (simp add: keeps_def)
    with z(3) s4 have "sim V tsp L (exec z (exec w m3)) (x86_XCHG r r' s)" unfolding x86_XCHG_def by blast
    then show ?thesis by (simp add: exec_append exec_Cons exec_Nil effect_simps m3_def)
  qed
  moreover have "lands ?c m (exec ?c m)" for m by (rule lands_straight) (use c(3) w(2) z(2) in simp)
  moreover have "code (emits z (emits w e4)) = code e @ ?c" using c(2) by (simp add: e4_def)
  moreover have "live_after V {} L = L" for L by (simp add: live_after_def)
  ultimately show ?thesis unfolding translates_def using h by (metis (no_types, lifting))
qed

end
