(* ===== verification/Block.thy ===== *)
theory Block
  imports FlagScan CondSpec XchgSpec
begin

text \<open>
  Whole blocks. \<^verbatim>\<open>compileInstruction\<close> dispatches on the mnemonic and
  \<^verbatim>\<open>compileSequence\<close> calls it for one decoded instruction after the other, with the flags
  that \<^verbatim>\<open>shouldEmitFlag\<close> asks for. The locale states what the block compiler needs of the
  handlers; its theorem composes their translations, and the interpretation supplies the
  handlers of \<^verbatim>\<open>v2/handlers.cpp\<close>.
\<close>

section \<open>The block compiler\<close>

text \<open>Compiling a list of instructions, each in its own environment.\<close>

fun compile_all :: "(env \<Rightarrow> 'i \<Rightarrow> emitter \<Rightarrow> emitter option) \<Rightarrow> (env \<times> 'i) list \<Rightarrow> emitter \<Rightarrow> emitter option" where
  "compile_all h [] e = Some e"
| "compile_all h ((V, i) # is) e = do {
     e \<leftarrow> h V i e;
     compile_all h is e
   }"

text \<open>\<^verbatim>\<open>compileInstruction\<close>: \<open>others\<close> stands for the handlers of all other mnemonics and of the locked
  exchange, \<open>seg\<close> for the code that sets a segment register.\<close>

definition compileInstruction :: "(reg \<Rightarrow> ZydisRegister \<Rightarrow> rv list) \<Rightarrow> (env \<Rightarrow> decoded \<Rightarrow> emitter \<Rightarrow> emitter option) \<Rightarrow> env \<Rightarrow> decoded \<Rightarrow> emitter \<Rightarrow> emitter option" where
  "compileInstruction seg others V d e = (
     let e = resetScratch e in
     case mnemonic d of
       M_ADD \<Rightarrow> fast_ADD V (op0 d) (op1 d) e
     | M_SUB \<Rightarrow> fast_SUB V (op0 d) (op1 d) e
     | M_ADC \<Rightarrow> fast_ADC V (op0 d) (op1 d) e
     | M_SBB \<Rightarrow> fast_SBB V (op0 d) (op1 d) e
     | M_CMP \<Rightarrow> fast_CMP V (op0 d) (op1 d) e
     | M_AND \<Rightarrow> fast_AND V (op0 d) (op1 d) e
     | M_OR \<Rightarrow> fast_OR V (op0 d) (op1 d) e
     | M_XOR \<Rightarrow> fast_XOR V (op0 d) (op1 d) e
     | M_TEST \<Rightarrow> fast_TEST V (op0 d) (op1 d) e
     | M_NOT \<Rightarrow> fast_NOT V (op0 d) e
     | M_INC \<Rightarrow> fast_INC V (op0 d) e
     | M_DEC \<Rightarrow> fast_DEC V (op0 d) e
     | M_NEG \<Rightarrow> fast_NEG V (op0 d) e
     | M_MOV \<Rightarrow> fast_MOV seg V (op0 d) (op1 d) e
     | M_MOVZX \<Rightarrow> fast_MOVZX V (op0 d) (op1 d) e
     | M_MOVSX \<Rightarrow> fast_MOVSX V (op0 d) (op1 d) e
     | M_MOVSXD \<Rightarrow> fast_MOVSXD V (op0 d) (op1 d) e
     | M_XCHG \<Rightarrow> fast_XCHG (others V d) V (op0 d) (op1 d) e
     | M_CBW \<Rightarrow> fast_CBW V e
     | M_CWDE \<Rightarrow> fast_CWDE V e
     | M_CDQE \<Rightarrow> fast_CDQE V e
     | M_CWD \<Rightarrow> fast_CWD V e
     | M_CDQ \<Rightarrow> fast_CDQ V e
     | M_CQO \<Rightarrow> fast_CQO V e
     | M_CLC \<Rightarrow> fast_CLC e
     | M_STC \<Rightarrow> fast_STC e
     | M_CMC \<Rightarrow> fast_CMC e
     | M_SETcc n \<Rightarrow> fast_SETcc V (op0 d) e
     | M_CMOVcc n \<Rightarrow> fast_CMOVcc V (op0 d) (op1 d) e
     | _ \<Rightarrow> others V d e)"

text \<open>The environment in which \<^verbatim>\<open>compileSequence\<close> compiles the instruction at \<open>pc\<close>.\<close>

definition env_at :: "env \<Rightarrow> scan \<Rightarrow> u64 \<times> decoded \<Rightarrow> env" where
  "env_at V st = (\<lambda>(pc, d). V\<lparr>current_rip := pc, current_instruction := insn d,
     needs_flag := (\<lambda>f. shouldEmitFlag Default False st pc f = Some True)\<rparr>)"

text \<open>The instructions of a scanned block up to the \<open>n\<close>-th.\<close>

definition compileSequence :: "(reg \<Rightarrow> ZydisRegister \<Rightarrow> rv list) \<Rightarrow> (env \<Rightarrow> decoded \<Rightarrow> emitter \<Rightarrow> emitter option) \<Rightarrow> env \<Rightarrow> scan \<Rightarrow> nat \<Rightarrow> emitter \<Rightarrow> emitter option" where
  "compileSequence seg others V st n e =
     compile_all (compileInstruction seg others) (map (\<lambda>p. (env_at V st p, snd p)) (take n (instructions st))) e"

section \<open>Reference semantics of a block\<close>

fun sem_all :: "('i \<Rightarrow> x86 \<Rightarrow> x86) \<Rightarrow> 'i list \<Rightarrow> x86 \<Rightarrow> x86" where
  "sem_all sem [] s = s"
| "sem_all sem (i # is) s = sem_all sem is (sem i s)"

text \<open>Flags live before the rest of the block, when \<open>X\<close> is live at its end. A flag that an
  instruction leaves undefined is overwritten by it.\<close>

fun live_before :: "('i \<Rightarrow> x86_ref set) \<Rightarrow> ('i \<Rightarrow> x86_ref set) \<Rightarrow> ('i \<Rightarrow> x86_ref set) \<Rightarrow> 'i list \<Rightarrow> x86_ref set \<Rightarrow> x86_ref set" where
  "live_before us dfs udfs [] X = X"
| "live_before us dfs udfs (i # is) X = us i \<union> (live_before us dfs udfs is X - (dfs i \<union> udfs i))"

text \<open>The flags without a defined value after the block, starting with \<open>T\<close>; a well-defined block
  never uses one.\<close>

fun undefined_after :: "('i \<Rightarrow> x86_ref set) \<Rightarrow> ('i \<Rightarrow> x86_ref set) \<Rightarrow> 'i list \<Rightarrow> x86_ref set \<Rightarrow> x86_ref set" where
  "undefined_after dfs udfs [] T = T"
| "undefined_after dfs udfs (i # is) T = undefined_after dfs udfs is ((T - dfs i) \<union> udfs i)"

fun well_defined :: "('i \<Rightarrow> x86_ref set) \<Rightarrow> ('i \<Rightarrow> x86_ref set) \<Rightarrow> ('i \<Rightarrow> x86_ref set) \<Rightarrow> 'i list \<Rightarrow> x86_ref set \<Rightarrow> bool" where
  "well_defined us dfs udfs [] T = True"
| "well_defined us dfs udfs (i # is) T \<longleftrightarrow> us i \<inter> T = {} \<and> well_defined us dfs udfs is ((T - dfs i) \<union> udfs i)"

section \<open>The interface of the handlers\<close>

lemma sim_env: "g_mode32 V = g_mode32 W \<Longrightarrow> sim V = sim W"
  by (simp add: sim_def fun_eq_iff)

locale translator =
  fixes handler :: "env \<Rightarrow> 'i \<Rightarrow> emitter \<Rightarrow> emitter option"
    and sem :: "'i \<Rightarrow> x86 \<Rightarrow> x86"
    and us :: "'i \<Rightarrow> x86_ref set"
    and dfs :: "'i \<Rightarrow> x86_ref set"
    and udfs :: "'i \<Rightarrow> x86_ref set"
    and ok :: "env \<Rightarrow> 'i \<Rightarrow> bool"
  assumes handler_translates: "ok V i \<Longrightarrow> translates V (handler V i) e (us i) (dfs i) (sem i)"
begin

text \<open>Every flag an instruction defines is requested if it is live after it.\<close>

fun requested :: "(env \<times> 'i) list \<Rightarrow> x86_ref set \<Rightarrow> bool" where
  "requested [] X = True"
| "requested ((V, i) # is) X \<longleftrightarrow>
     (\<forall>f \<in> dfs i \<inter> live_before us dfs udfs (map snd is) X. needs_flag V f) \<and> requested is X"

lemma compile_all_translates:
  assumes "\<And>V i. (V, i) \<in> set is \<Longrightarrow> ok V i" "\<And>V i. (V, i) \<in> set is \<Longrightarrow> g_mode32 V = b"
    and "requested is X" "well_defined us dfs udfs (map snd is) T"
  shows "\<exists>c e'. compile_all handler is e = Some e' \<and> code e' = code e @ c \<and>
    (\<forall>W tsp L m s. g_mode32 W = b \<and> live_before us dfs udfs (map snd is) X - T \<subseteq> L \<and> sim W tsp L m s \<longrightarrow>
      (\<exists>m'. lands c m m' \<and> sim W tsp (X - undefined_after dfs udfs (map snd is) T) m' (sem_all sem (map snd is) s)))"
  using assms
proof (induction "is" arbitrary: T e)
  case Nil
  have "sim W tsp (X - T) m s" if "X - T \<subseteq> L" "sim W tsp L m s" for W tsp L m s
    by (rule sim_flags [OF that(2)]) (use that(1) in auto)
  moreover have "lands [] m m" for m using lands_straight [of "[]" m] by (simp add: exec_Nil)
  ultimately show ?case
    by (intro exI [of _ "[]"] exI [of _ e] conjI allI impI) (simp_all, blast)
next
  case (Cons p "is")
  obtain V i where p: "p = (V, i)" by (cases p)
  let ?T = "(T - dfs i) \<union> udfs i" and ?is = "map snd is"
  have V: "ok V i" "g_mode32 V = b" using Cons.prems(1,2) [of V i] p by simp_all
  obtain c e1 where c: "handler V i e = Some e1" "code e1 = code e @ c"
    and c3: "\<forall>tsp L m s. us i \<subseteq> L \<and> sim V tsp L m s \<longrightarrow> (\<exists>m'. lands c m m' \<and> sim V tsp (live_after V (dfs i) L) m' (sem i s))"
    using handler_translates [OF V(1), of e] unfolding translates_def by (elim exE conjE)
  have "\<exists>d e'. compile_all handler is e1 = Some e' \<and> code e' = code e1 @ d \<and>
    (\<forall>W tsp L m s. g_mode32 W = b \<and> live_before us dfs udfs ?is X - ?T \<subseteq> L \<and> sim W tsp L m s \<longrightarrow>
      (\<exists>m'. lands d m m' \<and> sim W tsp (X - undefined_after dfs udfs ?is ?T) m' (sem_all sem ?is s)))"
  proof (rule Cons.IH)
    show "ok V i" "g_mode32 V = b" if "(V, i) \<in> set is" for V i
      using Cons.prems(1,2) [of V i] that by simp_all
    show "requested is X" "well_defined us dfs udfs ?is ?T" using Cons.prems(3,4) p by simp_all
  qed
  then obtain d e' where d: "compile_all handler is e1 = Some e'" "code e' = code e1 @ d"
    and d3: "\<forall>W tsp L m s. g_mode32 W = b \<and> live_before us dfs udfs ?is X - ?T \<subseteq> L \<and> sim W tsp L m s \<longrightarrow>
      (\<exists>m'. lands d m m' \<and> sim W tsp (X - undefined_after dfs udfs ?is ?T) m' (sem_all sem ?is s))"
    by (elim exE conjE)
  have "\<exists>m'. lands (c @ d) m m' \<and> sim W tsp (X - undefined_after dfs udfs (i # ?is) T) m' (sem_all sem (i # ?is) s)"
    if W: "g_mode32 W = b" and L: "live_before us dfs udfs (i # ?is) X - T \<subseteq> L" and s: "sim W tsp L m s" for W tsp L m s
  proof -
    have eq: "sim V = sim W" using sim_env V(2) W by simp
    have "us i \<inter> T = {}" using Cons.prems(4) p by simp
    with L have "us i \<subseteq> L" by auto
    then obtain m1 where m1: "lands c m m1" "sim W tsp (live_after V (dfs i) L) m1 (sem i s)"
      using c3 [rule_format, of L tsp m s] s unfolding eq by blast
    have "\<forall>f \<in> dfs i \<inter> live_before us dfs udfs ?is X. needs_flag V f" using Cons.prems(3) p by simp
    with L have "live_before us dfs udfs ?is X - ?T \<subseteq> live_after V (dfs i) L"
      unfolding live_after_def by auto
    with W m1(2) d3 [rule_format, of W "live_after V (dfs i) L" tsp m1 "sem i s"] obtain m2 where
      m2: "lands d m1 m2" "sim W tsp (X - undefined_after dfs udfs ?is ?T) m2 (sem_all sem ?is (sem i s))" by blast
    show ?thesis using lands_append [OF m1(1) m2(1)] m2(2) by (intro exI [of _ m2]) simp
  qed
  moreover have "compile_all handler (p # is) e = Some e'" "code e' = code e @ c @ d"
    using c(1,2) d(1,2) p by simp_all
  moreover have "map snd (p # is) = i # ?is" using p by simp
  ultimately show ?case
    by (intro exI [of _ "c @ d"] exI [of _ e'] conjI allI impI) (auto simp only:)
qed

end

section \<open>The instructions\<close>

fun dest :: "operand \<Rightarrow> ZydisRegister" where
  "dest (RegOp r) = r"
| "dest _ = Z_NONE"

definition isem :: "decoded \<Rightarrow> x86 \<Rightarrow> x86" where
  "isem d = (let r = dest (op0 d); n = condition (insn d) in case mnemonic d of
       M_ADD \<Rightarrow> x86_ADD r (op1 d)
     | M_SUB \<Rightarrow> x86_SUB r (op1 d)
     | M_ADC \<Rightarrow> x86_ADC r (op1 d)
     | M_CMP \<Rightarrow> x86_CMP r (op1 d)
     | M_AND \<Rightarrow> x86_logic (AND) r (op1 d)
     | M_OR \<Rightarrow> x86_logic (OR) r (op1 d)
     | M_XOR \<Rightarrow> x86_logic (XOR) r (op1 d)
     | M_TEST \<Rightarrow> x86_TEST r (op1 d)
     | M_NOT \<Rightarrow> x86_NOT r
     | M_INC \<Rightarrow> x86_INC r
     | M_DEC \<Rightarrow> x86_DEC r
     | M_NEG \<Rightarrow> x86_NEG r
     | M_MOV \<Rightarrow> x86_MOV r (op1 d)
     | M_MOVZX \<Rightarrow> x86_MOVZX r (op1 d)
     | M_MOVSX \<Rightarrow> x86_MOVSX (bits (reg_size (dest (op1 d)))) r (op1 d)
     | M_MOVSXD \<Rightarrow> x86_MOVSX 32 r (op1 d)
     | M_XCHG \<Rightarrow> x86_XCHG r (dest (op1 d))
     | M_CBW \<Rightarrow> x86_CBW
     | M_CWDE \<Rightarrow> x86_CWDE
     | M_CDQE \<Rightarrow> x86_CDQE
     | M_CWD \<Rightarrow> x86_CWD
     | M_CDQ \<Rightarrow> x86_CDQ
     | M_CQO \<Rightarrow> x86_CQO
     | M_CLC \<Rightarrow> (\<lambda>s. set_flag X86_REF_CF False s)
     | M_STC \<Rightarrow> (\<lambda>s. set_flag X86_REF_CF True s)
     | M_CMC \<Rightarrow> (\<lambda>s. set_flag X86_REF_CF (\<not> xflag s X86_REF_CF) s)
     | M_SETcc _ \<Rightarrow> x86_SETcc n r
     | M_CMOVcc _ \<Rightarrow> x86_CMOVcc n r (op1 d)
     | _ \<Rightarrow> (\<lambda>s. s))"

definition iuses :: "decoded \<Rightarrow> x86_ref set" where
  "iuses d = (case mnemonic d of
       M_ADC \<Rightarrow> {X86_REF_CF} | M_CMC \<Rightarrow> {X86_REF_CF}
     | M_SETcc _ \<Rightarrow> cond_uses (condition (insn d)) | M_CMOVcc _ \<Rightarrow> cond_uses (condition (insn d)) | _ \<Rightarrow> {})"

definition idefs :: "decoded \<Rightarrow> x86_ref set" where
  "idefs d = (case mnemonic d of
       M_AND \<Rightarrow> logic_defs | M_OR \<Rightarrow> logic_defs | M_XOR \<Rightarrow> logic_defs | M_TEST \<Rightarrow> logic_defs
     | M_INC \<Rightarrow> inc_defs | M_DEC \<Rightarrow> inc_defs
     | M_ADD \<Rightarrow> status_flags | M_SUB \<Rightarrow> status_flags | M_ADC \<Rightarrow> status_flags | M_CMP \<Rightarrow> status_flags | M_NEG \<Rightarrow> status_flags
     | M_CLC \<Rightarrow> {X86_REF_CF} | M_STC \<Rightarrow> {X86_REF_CF} | M_CMC \<Rightarrow> {X86_REF_CF} | _ \<Rightarrow> {})"

definition iundefs :: "decoded \<Rightarrow> x86_ref set" where
  "iundefs d = (if mnemonic d \<in> {M_AND, M_OR, M_XOR, M_TEST} then {X86_REF_AF} else {})"

text \<open>Instructions on registers and immediates that the theorems cover. A \<^verbatim>\<open>TEST\<close> has to come with
  both or neither of the requests for CF and OF.\<close>

definition supported_alu :: "env \<Rightarrow> decoded \<Rightarrow> bool" where
  "supported_alu V d \<longleftrightarrow> (case op0 d of
     RegOp r \<Rightarrow> plain_reg V r \<and> (
       (mnemonic d \<in> {M_ADD, M_SUB, M_ADC, M_CMP, M_AND, M_OR, M_XOR, M_TEST} \<and> plain_operand V (op1 d)
          \<and> noflags_src V r (op1 d)
          \<and> (mnemonic d = M_TEST \<longrightarrow> needs_flag V X86_REF_CF = needs_flag V X86_REF_OF))
       \<or> mnemonic d \<in> {M_NOT, M_INC, M_DEC, M_NEG})
   | _ \<Rightarrow> False)"

text \<open>The moves between two registers, by the sizes the architecture has them in.\<close>

definition supported_pair :: "ZydisMnemonic \<Rightarrow> env \<Rightarrow> ZydisRegister \<Rightarrow> ZydisRegister \<Rightarrow> bool" where
  "supported_pair mn V r r' \<longleftrightarrow> plain_reg V r \<and> plain_reg V r' \<and> (case mn of
       M_MOVZX \<Rightarrow> bits (reg_size r') < bits (reg_size r)
     | M_MOVSX \<Rightarrow> bits (reg_size r') < 32
     | M_MOVSXD \<Rightarrow> (reg_size r = X86_SIZE_DWORD \<or> reg_size r = X86_SIZE_QWORD) \<and> reg_size r' = X86_SIZE_DWORD
     | M_XCHG \<Rightarrow> bits (reg_size r) = bits (reg_size r')
     | M_CMOVcc _ \<Rightarrow> reg_size r \<in> {X86_SIZE_WORD, X86_SIZE_DWORD, X86_SIZE_QWORD} \<and> reg_size r' = reg_size r
         \<and> operand_width (current_instruction V) = bits (reg_size r)
     | _ \<Rightarrow> False)"

definition supported_move :: "env \<Rightarrow> decoded \<Rightarrow> bool" where
  "supported_move V d \<longleftrightarrow> current_instruction V = insn d \<and> (
     mnemonic d \<in> {M_CBW, M_CWDE, M_CWD, M_CDQ, M_CLC, M_STC, M_CMC}
     \<or> mnemonic d \<in> {M_CDQE, M_CQO} \<and> \<not> g_mode32 V
     \<or> (case op0 d of
         RegOp r \<Rightarrow> (case mnemonic d of
             M_SETcc _ \<Rightarrow> plain_reg V r
           | M_MOV \<Rightarrow> plain_reg V r \<and> plain_operand V (op1 d) \<and> fits r (op1 d) \<and> zydisToRef (punned_reg V) \<noteq> None
           | _ \<Rightarrow> (case op1 d of RegOp r' \<Rightarrow> supported_pair (mnemonic d) V r r' | _ \<Rightarrow> False))
       | _ \<Rightarrow> False))"

definition supported :: "env \<Rightarrow> decoded \<Rightarrow> bool" where
  "supported V d \<longleftrightarrow> supported_alu V d \<or> supported_move V d"

lemma translates_reset:
  assumes "\<And>e. scratch_index e = 0 \<Longrightarrow> translates V h e R D instr"
  shows "translates V (\<lambda>e. h (resetScratch e)) e R D instr"
  using assms [of "resetScratch e"] unfolding translates_def by (simp add: resetScratch_def)

lemma noflags_src_fits: "plain_operand V src \<Longrightarrow> noflags_src V r src \<Longrightarrow> fits r src"
  by (cases src) (auto simp: fits_def noflags_src_def)

lemma compile_alu_translates:
  assumes "supported_alu V d"
  shows "translates V (compileInstruction seg others V d) e (iuses d) (idefs d) (isem d)"
proof -
  obtain r where r: "op0 d = RegOp r" "plain_reg V r"
    using assms by (cases "op0 d") (auto simp: supported_alu_def)
  have two: "plain_operand V (op1 d)" "noflags_src V r (op1 d)" "fits r (op1 d)"
    "mnemonic d = M_TEST \<Longrightarrow> needs_flag V X86_REF_CF = needs_flag V X86_REF_OF"
    if "mnemonic d \<notin> {M_NOT, M_INC, M_DEC, M_NEG}"
    using that assms r noflags_src_fits by (auto simp: supported_alu_def)
  have m: "mnemonic d \<in> {M_ADD, M_SUB, M_ADC, M_CMP, M_AND, M_OR, M_XOR, M_TEST, M_NOT, M_INC, M_DEC, M_NEG}"
    using assms r by (auto simp: supported_alu_def)
  note defs = compileInstruction_def [abs_def] iuses_def idefs_def isem_def Let_def r(1) dest.simps
  show ?thesis
    using m two
    apply (elim insertE emptyE)
               apply (simp_all add: defs)
               apply (rule translates_reset, rule fast_ADD_translates [OF _ r(2)]; assumption)
              apply (rule translates_reset, rule fast_SUB_translates [OF _ r(2)]; assumption)
             apply (rule translates_reset, rule fast_ADC_translates [OF _ r(2)]; assumption)
            apply (rule translates_reset, rule fast_CMP_translates [OF _ r(2)]; assumption)
           apply (rule translates_reset, rule fast_AND_translates [OF _ r(2)]; assumption)
          apply (rule translates_reset, rule fast_OR_translates [OF _ r(2)]; assumption)
         apply (rule translates_reset, rule fast_XOR_translates [OF _ r(2)]; assumption)
        apply (rule translates_reset, rule fast_TEST_translates [OF _ r(2)]; assumption)
       apply (rule translates_reset, rule fast_NOT_translates [OF _ r(2)]; assumption)
      apply (rule translates_reset, rule fast_INC_translates [OF _ r(2)]; assumption)
     apply (rule translates_reset, rule fast_DEC_translates [OF _ r(2)]; assumption)
    apply (rule translates_reset, rule fast_NEG_translates [OF _ r(2)]; assumption)
    done
qed

lemma compile_pair_translates:
  assumes ops: "op0 d = RegOp r" "op1 d = RegOp r'" and p: "supported_pair (mnemonic d) V r r'" and i: "current_instruction V = insn d"
  shows "translates V (compileInstruction seg others V d) e (iuses d) (idefs d) (isem d)"
proof -
  note defs = compileInstruction_def [abs_def] iuses_def idefs_def isem_def Let_def ops dest.simps
  have r: "plain_reg V r" "plain_reg V r'" using p by (simp_all add: supported_pair_def)
  show ?thesis
    using p
    by (cases "mnemonic d") (simp_all add: defs supported_pair_def flip: i,
        (rule translates_reset, (rule fast_MOVZX_translates fast_MOVSX_translates fast_MOVSXD_translates fast_XCHG_translates fast_CMOVcc_translates; simp))+)
qed

lemma compile_fixed_translates:
  assumes "mnemonic d \<in> {M_CBW, M_CWDE, M_CWD, M_CDQ, M_CLC, M_STC, M_CMC} \<or> mnemonic d \<in> {M_CDQE, M_CQO} \<and> \<not> g_mode32 V"
  shows "translates V (compileInstruction seg others V d) e (iuses d) (idefs d) (isem d)"
proof -
  note defs = compileInstruction_def [abs_def] iuses_def idefs_def isem_def Let_def
  show ?thesis
    using assms
    by (cases "mnemonic d") (simp_all add: defs,
        (rule translates_reset, (rule fast_CBW_translates fast_CWDE_translates fast_CWD_translates fast_CDQ_translates
          fast_CDQE_translates fast_CQO_translates fast_CLC_translates fast_STC_translates fast_CMC_translates; simp))+)
qed

lemma compile_move_translates:
  assumes "supported_move V d"
  shows "translates V (compileInstruction seg others V d) e (iuses d) (idefs d) (isem d)"
proof -
  note s = assms [unfolded supported_move_def]
  note defs = compileInstruction_def [abs_def] iuses_def idefs_def isem_def Let_def
  consider (fixed) "mnemonic d \<in> {M_CBW, M_CWDE, M_CWD, M_CDQ, M_CLC, M_STC, M_CMC} \<or> mnemonic d \<in> {M_CDQE, M_CQO} \<and> \<not> g_mode32 V"
    | (set) r n where "op0 d = RegOp r" "mnemonic d = M_SETcc n" "plain_reg V r"
    | (mov) r where "op0 d = RegOp r" "mnemonic d = M_MOV" "plain_reg V r" "plain_operand V (op1 d)" "fits r (op1 d)" "zydisToRef (punned_reg V) \<noteq> None"
    | (pair) r r' where "op0 d = RegOp r" "op1 d = RegOp r'" "supported_pair (mnemonic d) V r r'"
    using s by (cases "op0 d"; cases "mnemonic d"; cases "op1 d") auto
  then show ?thesis
  proof cases
    case fixed
    then show ?thesis by (rule compile_fixed_translates)
  next
    case set
    have "translates V (\<lambda>e. fast_SETcc V (RegOp r) (resetScratch e)) e (cond_uses (condition (current_instruction V))) {}
        (x86_SETcc (condition (current_instruction V)) r)"
      by (rule translates_reset, rule fast_SETcc_translates [OF _ set(3)])
    then show ?thesis using s set by (simp add: defs)
  next
    case mov
    have "translates V (\<lambda>e. fast_MOV seg V (RegOp r) (op1 d) (resetScratch e)) e {} {} (x86_MOV r (op1 d))"
      by (rule translates_reset, rule fast_MOV_translates [OF _ mov(3-6)])
    then show ?thesis using mov by (simp add: defs)
  next
    case pair
    then show ?thesis using compile_pair_translates s by blast
  qed
qed

lemma compileInstruction_translates:
  "supported V d \<Longrightarrow> translates V (compileInstruction seg others V d) e (iuses d) (idefs d) (isem d)"
  using compile_alu_translates compile_move_translates by (auto simp: supported_def)

interpretation jit: translator "compileInstruction seg others" isem iuses idefs iundefs supported for seg others
  by unfold_locales (rule compileInstruction_translates)

section \<open>Translation of a scanned block\<close>

text \<open>The decoder's flag masks agree with the architecture.\<close>

definition masks_ok :: "decoded \<Rightarrow> bool" where
  "masks_ok d \<longleftrightarrow> uses d = iuses d \<and> overwrites d = idefs d \<union> iundefs d"

lemma status_eq: "status = status_flags"
  by (simp add: status_def cpazso_def status_flags_def)

lemma live_before_live:
  "(\<And>d. d \<in> set body \<Longrightarrow> masks_ok d) \<Longrightarrow> live_before iuses idefs iundefs body (live tail) = live (body @ tail)"
  by (induction body) (auto simp: masks_ok_def)

lemma env_at_needs:
  "needs_flag (env_at V st p) f \<longleftrightarrow> shouldEmitFlag Default False st (fst p) f = Some True" "g_mode32 (env_at V st p) = g_mode32 V"
  by (simp_all add: env_at_def split: prod.splits)

lemma idefs_status: "idefs d \<subseteq> status"
  by (auto simp: idefs_def status_eq status_flags_def logic_defs_def inc_defs_def split: ZydisMnemonic.splits)

text \<open>What the scan requests is what the block needs.\<close>

lemma scan_requests:
  assumes scan: "scanAhead cfg decode strlen pc = Some st" "\<forall>x \<in> set (instructions st). plain cfg (snd x)"
      "sorted_wrt (<) (map fst (instructions st))"
    and n: "k \<le> n" "n \<le> length (instructions st)" and masks: "\<forall>x \<in> set (take n (instructions st)). masks_ok (snd x)"
  shows "jit.requested (map (\<lambda>p. (env_at V st p, snd p)) (drop k (take n (instructions st))))
     (live (map snd (drop n (instructions st))))"
  using n(1)
proof (induction rule: inc_induct)
  case base
  then show ?case by simp
next
  case (step k)
  define xs where "xs = instructions st"
  have k: "k < length xs" "k < n" using step.hyps n(2) by (simp_all add: xs_def)
  have split: "drop k (take n xs) = xs ! k # drop (Suc k) (take n xs)"
    using k n(2) by (simp add: Cons_nth_drop_Suc [symmetric] xs_def)
  have join: "drop (Suc k) (take n xs) @ drop n xs = drop (Suc k) xs"
    using k n(2) by (metis append_take_drop_id drop_append length_take min.absorb2 Suc_leI diff_is_0_eq drop0 xs_def)
  have "live_before iuses idefs iundefs (map snd (drop (Suc k) (take n xs))) (live (map snd (drop n xs)))
      = live (map snd (drop (Suc k) (take n xs)) @ map snd (drop n xs))"
    using masks by (intro live_before_live) (auto simp: xs_def dest: in_set_dropD)
  also have "\<dots> = live (map snd (drop (Suc k) xs))"
    unfolding map_append [symmetric] join ..
  finally have lb: "live_before iuses idefs iundefs (map snd (drop (Suc k) (take n xs))) (live (map snd (drop n xs)))
      = live (map snd (drop (Suc k) xs))" .
  have "needs_flag (env_at V st (xs ! k)) f" if "f \<in> idefs (snd (xs ! k))" "f \<in> live (map snd (drop (Suc k) xs))" for f
    using shouldEmitFlag_live [OF scan, of k f] that idefs_status k by (auto simp: env_at_needs xs_def)
  then show ?case
    using step.IH lb unfolding xs_def [symmetric] split by (simp add: comp_def)
qed


text \<open>C1: whole blocks. Take a block that \<^verbatim>\<open>scanAhead\<close> has scanned and its first \<open>n\<close>
  instructions, all supported integer instructions whose decoder masks are right and none of
  which uses a flag that an earlier one left undefined. Then \<^verbatim>\<open>compileSequence\<close> succeeds, and
  the code it emits takes every machine that represents a guest state, with the flags that are
  live at the start of the block, to a machine that represents the guest state after the \<open>n\<close>
  instructions, with all the flags that are live there and have a defined value.\<close>

theorem block_translation_correct:
  assumes scan: "scanAhead cfg decode strlen pc = Some st" "\<forall>x \<in> set (instructions st). plain cfg (snd x)"
      "sorted_wrt (<) (map fst (instructions st))"
    and n: "n \<le> length (instructions st)"
    and ok: "\<forall>x \<in> set (take n (instructions st)). masks_ok (snd x) \<and> supported (env_at V st x) (snd x)"
    and wd: "well_defined iuses idefs iundefs (map snd (take n (instructions st))) {}"
  shows "\<exists>c e'. compileSequence seg others V st n e = Some e' \<and> code e' = code e @ c \<and>
    (\<forall>tsp L m s. live (map snd (instructions st)) \<subseteq> L \<and> sim V tsp L m s \<longrightarrow>
      (\<exists>m'. run (length c) c 0 m = Some m' \<and>
        sim V tsp (live (map snd (drop n (instructions st))) - undefined_after idefs iundefs (map snd (take n (instructions st))) {})
          m' (sem_all isem (map snd (take n (instructions st))) s)))"
proof -
  define xs where "xs = instructions st"
  define ps where "ps = map (\<lambda>p. (env_at V st p, snd p)) (take n xs)"
  define X where "X = live (map snd (drop n xs))"
  have snd_ps: "map snd ps = map snd (take n xs)" by (simp add: ps_def comp_def)
  have lb: "live_before iuses idefs iundefs (map snd (take n xs)) X = live (map snd xs)"
    using live_before_live [of "map snd (take n xs)" "map snd (drop n xs)"] ok
    by (auto simp: X_def xs_def simp flip: map_append)
  have req: "jit.requested ps X"
    using scan_requests [OF scan le0 n, of V] ok by (simp add: ps_def X_def xs_def)
  have sup: "supported W i" "g_mode32 W = g_mode32 V" if "(W, i) \<in> set ps" for W i
    using that ok by (auto simp: ps_def xs_def env_at_needs)
  have wd': "well_defined iuses idefs iundefs (map snd ps) {}"
    using wd by (simp add: snd_ps xs_def)
  have "\<exists>c e'. compile_all (compileInstruction seg others) ps e = Some e' \<and> code e' = code e @ c \<and>
    (\<forall>W tsp L m s. g_mode32 W = g_mode32 V \<and> live_before iuses idefs iundefs (map snd ps) X - {} \<subseteq> L \<and> sim W tsp L m s \<longrightarrow>
      (\<exists>m'. lands c m m' \<and> sim W tsp (X - undefined_after idefs iundefs (map snd ps) {}) m' (sem_all isem (map snd ps) s)))"
    by (rule jit.compile_all_translates; (rule sup req wd'; assumption)?)
  then obtain c e' where c: "compile_all (compileInstruction seg others) ps e = Some e'" "code e' = code e @ c"
    and run: "\<forall>W tsp L m s. g_mode32 W = g_mode32 V \<and> live_before iuses idefs iundefs (map snd ps) X - {} \<subseteq> L \<and> sim W tsp L m s \<longrightarrow>
      (\<exists>m'. lands c m m' \<and> sim W tsp (X - undefined_after idefs iundefs (map snd ps) {}) m' (sem_all isem (map snd ps) s))"
    by (elim exE conjE)
  show ?thesis
    unfolding xs_def [symmetric] X_def [symmetric]
  proof (rule exI [of _ c], rule exI [of _ e'], intro conjI allI impI)
    show "compileSequence seg others V st n e = Some e'" using c(1) by (simp add: compileSequence_def ps_def xs_def)
    show "code e' = code e @ c" by (fact c(2))
    fix tsp L m s assume h: "live (map snd xs) \<subseteq> L \<and> sim V tsp L m s"
    obtain m' where "lands c m m'" "sim V tsp (X - undefined_after idefs iundefs (map snd (take n xs)) {}) m'
        (sem_all isem (map snd (take n xs)) s)"
      using run [THEN spec, of V, THEN spec, THEN spec, THEN spec, THEN spec, THEN mp, of L tsp m s] h
      unfolding snd_ps lb Diff_empty by auto
    then show "\<exists>m'. run (length c) c 0 m = Some m' \<and>
        sim V tsp (X - undefined_after idefs iundefs (map snd (take n xs)) {}) m' (sem_all isem (map snd (take n xs)) s)"
      using lands_run by (intro exI [of _ m'] conjI)
  qed
qed

lemma sample_masks: "masks_ok (sample_block 0x1000)" "masks_ok (sample_block 0x1002)"
  by (auto simp: masks_ok_def uses_def overwrites_def changed_def sample_block_def iuses_def idefs_def iundefs_def
      flag_passthrough_def status_def cpazso_def status_flags_def ZYDIS_CPUFLAG_def)

theorem block_translation_correct_witness:
  "\<exists>c e'. compileSequence (\<lambda>_ _. []) (\<lambda>_ _ _. None) sample_env sample_scan 2 sample_emitter = Some e' \<and> code e' = code sample_emitter @ c \<and>
    (\<forall>tsp L m s. live (map snd (instructions sample_scan)) \<subseteq> L \<and> sim sample_env tsp L m s \<longrightarrow>
      (\<exists>m'. run (length c) c 0 m = Some m' \<and>
        sim sample_env tsp (live (map snd (drop 2 (instructions sample_scan)))
            - undefined_after idefs iundefs (map snd (take 2 (instructions sample_scan))) {})
          m' (sem_all isem (map snd (take 2 (instructions sample_scan))) s)))"
proof (rule block_translation_correct [OF sample_scan])
  show "\<forall>x \<in> set (take 2 (instructions sample_scan)). masks_ok (snd x) \<and> supported (env_at sample_env sample_scan x) (snd x)"
    using sample_masks
    by (simp add: sample_scan_def supported_def supported_alu_def env_at_def noflags_src_def sample_env_def)
       (simp add: sample_block_def sample_insn_def noflags_src_def)
qed (simp_all add: sample_scan_def plain_def is_ret_def sample_block_def iuses_def)

end
