(* ===== verification/HandlerTheorems.thy ===== *)
theory HandlerTheorems
  imports Block
begin

text \<open>
  The translation theorems of the most used integer instructions, in terms of runs: the
  handler succeeds, appends code, and the code takes any machine that represents a guest state
  to one that represents the state after the instruction, with every requested flag. They hold
  for all operand sizes, both host configurations (with and without the B extension), 32- and
  64-bit guests, and every set of requested flags.
\<close>

text \<open>The environment of the examples: an 8-bit instruction at which the flags are dead.\<close>

definition byte_env :: env where
  "byte_env = sample_env\<lparr>current_instruction := \<lparr>ilength = 2, operand_width = 8, address_width = 64, has_segment = False,
     has_lock = False, opcode = 0\<rparr>, needs_flag := (\<lambda>_. False)\<rparr>"

text \<open>C3: \<^verbatim>\<open>fast_ADD\<close> translates addition.\<close>

theorem fast_ADD_correct:
  assumes "scratch_index e = 0" "plain_reg V r" "plain_operand V src" "noflags_src V r src"
  shows "\<exists>c e'. fast_ADD V (RegOp r) src e = Some e' \<and> code e' = code e @ c \<and>
    (\<forall>tsp L m s. sim V tsp L m s \<longrightarrow>
      (\<exists>m'. run (length c) c 0 m = Some m' \<and> sim V tsp (live_after V status_flags L) m' (x86_ADD r src s)))"
  using translates_runs [OF fast_ADD_translates [OF assms]] by simp

theorem fast_ADD_correct_witness:
  "\<exists>c e'. fast_ADD byte_env (RegOp (Z_8H 0)) (RegOp (Z_8 1)) sample_emitter = Some e' \<and> code e' = code sample_emitter @ c \<and>
    (\<forall>tsp L m s. sim byte_env tsp L m s \<longrightarrow>
      (\<exists>m'. run (length c) c 0 m = Some m' \<and> sim byte_env tsp (live_after byte_env status_flags L) m' (x86_ADD (Z_8H 0) (RegOp (Z_8 1)) s)))"
  by (rule fast_ADD_correct) (simp_all add: byte_env_def sample_env_def sample_emitter_def noflags_src_def fits_def)

text \<open>C11: \<^verbatim>\<open>fast_SUB\<close> translates subtraction.\<close>

theorem fast_SUB_correct:
  assumes "scratch_index e = 0" "plain_reg V r" "plain_operand V src" "noflags_src V r src"
  shows "\<exists>c e'. fast_SUB V (RegOp r) src e = Some e' \<and> code e' = code e @ c \<and>
    (\<forall>tsp L m s. sim V tsp L m s \<longrightarrow>
      (\<exists>m'. run (length c) c 0 m = Some m' \<and> sim V tsp (live_after V status_flags L) m' (x86_SUB r src s)))"
  using translates_runs [OF fast_SUB_translates [OF assms]] by simp

theorem fast_SUB_correct_witness:
  "\<exists>c e'. fast_SUB byte_env (RegOp (Z_8H 0)) (RegOp (Z_8 1)) sample_emitter = Some e' \<and> code e' = code sample_emitter @ c \<and>
    (\<forall>tsp L m s. sim byte_env tsp L m s \<longrightarrow>
      (\<exists>m'. run (length c) c 0 m = Some m' \<and> sim byte_env tsp (live_after byte_env status_flags L) m' (x86_SUB (Z_8H 0) (RegOp (Z_8 1)) s)))"
  by (rule fast_SUB_correct) (simp_all add: byte_env_def sample_env_def sample_emitter_def noflags_src_def fits_def)

text \<open>C7: \<^verbatim>\<open>fast_ADC\<close> translates addition with carry, provided the carry flag is represented before it.\<close>

theorem fast_ADC_correct:
  assumes "scratch_index e = 0" "plain_reg V r" "plain_operand V src"
  shows "\<exists>c e'. fast_ADC V (RegOp r) src e = Some e' \<and> code e' = code e @ c \<and>
    (\<forall>tsp L m s. X86_REF_CF \<in> L \<and> sim V tsp L m s \<longrightarrow>
      (\<exists>m'. run (length c) c 0 m = Some m' \<and> sim V tsp (live_after V status_flags L) m' (x86_ADC r src s)))"
  using translates_runs [OF fast_ADC_translates [OF assms]] by simp

theorem fast_ADC_correct_witness:
  "\<exists>c e'. fast_ADC byte_env (RegOp (Z_8H 0)) (RegOp (Z_8 1)) sample_emitter = Some e' \<and> code e' = code sample_emitter @ c \<and>
    (\<forall>tsp L m s. X86_REF_CF \<in> L \<and> sim byte_env tsp L m s \<longrightarrow>
      (\<exists>m'. run (length c) c 0 m = Some m' \<and> sim byte_env tsp (live_after byte_env status_flags L) m' (x86_ADC (Z_8H 0) (RegOp (Z_8 1)) s)))"
  by (rule fast_ADC_correct) (simp_all add: byte_env_def sample_env_def sample_emitter_def noflags_src_def fits_def)

text \<open>C8: \<^verbatim>\<open>fast_CMP\<close> translates comparison; nothing is emitted when no flag is requested.\<close>

theorem fast_CMP_correct:
  assumes "scratch_index e = 0" "plain_reg V r" "plain_operand V src" "fits r src"
  shows "\<exists>c e'. fast_CMP V (RegOp r) src e = Some e' \<and> code e' = code e @ c \<and>
    (\<forall>tsp L m s. sim V tsp L m s \<longrightarrow>
      (\<exists>m'. run (length c) c 0 m = Some m' \<and> sim V tsp (live_after V status_flags L) m' (x86_CMP r src s)))"
  using translates_runs [OF fast_CMP_translates [OF assms]] by simp

theorem fast_CMP_correct_witness:
  "\<exists>c e'. fast_CMP byte_env (RegOp (Z_8H 0)) (RegOp (Z_8 1)) sample_emitter = Some e' \<and> code e' = code sample_emitter @ c \<and>
    (\<forall>tsp L m s. sim byte_env tsp L m s \<longrightarrow>
      (\<exists>m'. run (length c) c 0 m = Some m' \<and> sim byte_env tsp (live_after byte_env status_flags L) m' (x86_CMP (Z_8H 0) (RegOp (Z_8 1)) s)))"
  by (rule fast_CMP_correct) (simp_all add: byte_env_def sample_env_def sample_emitter_def noflags_src_def fits_def)

text \<open>C12: \<^verbatim>\<open>fast_XOR\<close> translates exclusive or, including the idiom that zeroes a register.\<close>

theorem fast_XOR_correct:
  assumes "scratch_index e = 0" "plain_reg V r" "plain_operand V src" "noflags_src V r src"
  shows "\<exists>c e'. fast_XOR V (RegOp r) src e = Some e' \<and> code e' = code e @ c \<and>
    (\<forall>tsp L m s. sim V tsp L m s \<longrightarrow>
      (\<exists>m'. run (length c) c 0 m = Some m' \<and> sim V tsp (live_after V logic_defs L) m' (x86_logic (XOR) r src s)))"
  using translates_runs [OF fast_XOR_translates [OF assms]] by simp

theorem fast_XOR_correct_witness:
  "\<exists>c e'. fast_XOR byte_env (RegOp (Z_8H 0)) (RegOp (Z_8 1)) sample_emitter = Some e' \<and> code e' = code sample_emitter @ c \<and>
    (\<forall>tsp L m s. sim byte_env tsp L m s \<longrightarrow>
      (\<exists>m'. run (length c) c 0 m = Some m' \<and> sim byte_env tsp (live_after byte_env logic_defs L) m' (x86_logic (XOR) (Z_8H 0) (RegOp (Z_8 1)) s)))"
  by (rule fast_XOR_correct) (simp_all add: byte_env_def sample_env_def sample_emitter_def noflags_src_def fits_def)

text \<open>C39: \<^verbatim>\<open>fast_INC\<close> translates increment, which leaves CF alone.\<close>

theorem fast_INC_correct:
  assumes "scratch_index e = 0" "plain_reg V r"
  shows "\<exists>c e'. fast_INC V (RegOp r) e = Some e' \<and> code e' = code e @ c \<and>
    (\<forall>tsp L m s. sim V tsp L m s \<longrightarrow>
      (\<exists>m'. run (length c) c 0 m = Some m' \<and> sim V tsp (live_after V inc_defs L) m' (x86_INC r s)))"
  using translates_runs [OF fast_INC_translates [OF assms]] by simp

theorem fast_INC_correct_witness:
  "\<exists>c e'. fast_INC byte_env (RegOp (Z_8H 0)) sample_emitter = Some e' \<and> code e' = code sample_emitter @ c \<and>
    (\<forall>tsp L m s. sim byte_env tsp L m s \<longrightarrow>
      (\<exists>m'. run (length c) c 0 m = Some m' \<and> sim byte_env tsp (live_after byte_env inc_defs L) m' (x86_INC (Z_8H 0) s)))"
  by (rule fast_INC_correct) (simp_all add: byte_env_def sample_env_def sample_emitter_def noflags_src_def fits_def)

text \<open>C38: \<^verbatim>\<open>fast_NEG\<close> translates negation.\<close>

theorem fast_NEG_correct:
  assumes "scratch_index e = 0" "plain_reg V r"
  shows "\<exists>c e'. fast_NEG V (RegOp r) e = Some e' \<and> code e' = code e @ c \<and>
    (\<forall>tsp L m s. sim V tsp L m s \<longrightarrow>
      (\<exists>m'. run (length c) c 0 m = Some m' \<and> sim V tsp (live_after V status_flags L) m' (x86_NEG r s)))"
  using translates_runs [OF fast_NEG_translates [OF assms]] by simp

theorem fast_NEG_correct_witness:
  "\<exists>c e'. fast_NEG byte_env (RegOp (Z_8H 0)) sample_emitter = Some e' \<and> code e' = code sample_emitter @ c \<and>
    (\<forall>tsp L m s. sim byte_env tsp L m s \<longrightarrow>
      (\<exists>m'. run (length c) c 0 m = Some m' \<and> sim byte_env tsp (live_after byte_env status_flags L) m' (x86_NEG (Z_8H 0) s)))"
  by (rule fast_NEG_correct) (simp_all add: byte_env_def sample_env_def sample_emitter_def noflags_src_def fits_def)

end
