(* ===== verification/MemSpec.thy ===== *)
theory MemSpec
  imports AddrSpec
begin

text \<open>
  \<^verbatim>\<open>LEA\<close> and the forms of \<^verbatim>\<open>MOV\<close> with a memory operand. The guest shares its address space
  with the emulator, so the theorems about memory ask that an access stays away from the two
  flag bytes in the thread state.
\<close>

section \<open>Accesses and the thread state\<close>

definition outside :: "nat \<Rightarrow> u64 \<Rightarrow> u64 \<Rightarrow> bool" where
  "outside n a b \<longleftrightarrow> (\<forall>i < n. a + of_nat i \<noteq> b)"

definition apart :: "nat \<Rightarrow> u64 \<Rightarrow> u64 \<Rightarrow> bool" where
  "apart n a tsp \<longleftrightarrow> outside n a (tsp + off_pf) \<and> outside n a (tsp + off_af)"

lemma outside_Suc: "outside (Suc n) a b \<longleftrightarrow> a \<noteq> b \<and> outside n (a + 1) b"
  unfolding outside_def All_less_Suc2 by (simp add: add.assoc)

lemma load_same: "(\<And>b. \<not> outside n a b \<Longrightarrow> mm b = mm' b) \<Longrightarrow> load n mm a = load n mm' a"
proof (induction n arbitrary: a)
  case (Suc n)
  have "mm a = mm' a" "load n mm (a + 1) = load n mm' (a + 1)"
    using Suc.prems [unfolded outside_Suc] Suc.IH by blast+
  then show ?case by simp
qed simp

lemma sim_load:
  assumes "sim V tsp L m s" "apart n a tsp"
  shows "load n (mem m) a = load n (xmem s) a"
proof (rule load_same)
  fix b assume "\<not> outside n a b"
  then have "b \<noteq> tsp + off_pf" "b \<noteq> tsp + off_af" using assms(2) unfolding apart_def by metis+
  then show "mem m b = xmem s b" by (rule simD(4) [OF assms(1)])
qed

lemma store_same: "mm b = mm' b \<Longrightarrow> store n a v mm b = store n a v mm' b"
proof (induction n arbitrary: a v mm mm')
  case (Suc n)
  show ?case unfolding store.simps by (rule Suc.IH) (simp add: Suc.prems)
qed simp

lemma store_outside: "outside n a b \<Longrightarrow> store n a v mm b = mm b"
  by (induction n arbitrary: a v mm) (auto simp: outside_Suc)

lemma store_low: "take_bit (8 * n) v = take_bit (8 * n) (w :: u64) \<Longrightarrow> store n a v mm = store n a w mm"
proof (induction n arbitrary: a v w mm)
  case (Suc n)
  have b: "bit v i \<longleftrightarrow> bit w i" if "i < 8 * Suc n" for i
  proof -
    have "bit (take_bit (8 * Suc n) v) i \<longleftrightarrow> bit (take_bit (8 * Suc n) w) i" by (simp only: Suc.prems)
    then show ?thesis using that by (simp add: bit_take_bit_iff)
  qed
  have u: "(ucast v :: u8) = ucast w"
  proof (rule bit_word_eqI)
    fix i assume "i < LENGTH(8)"
    then show "bit (ucast v :: u8) i \<longleftrightarrow> bit (ucast w :: u8) i" using b [of i] by (simp add: bit_simps)
  qed
  have d: "take_bit (8 * n) (drop_bit 8 v) = take_bit (8 * n) (drop_bit 8 w)"
  proof (rule bit_word_eqI)
    fix i
    show "bit (take_bit (8 * n) (drop_bit 8 v)) i \<longleftrightarrow> bit (take_bit (8 * n) (drop_bit 8 w)) i"
      using b [of "8 + i"] by (simp add: bit_take_bit_iff bit_drop_bit_eq) blast
  qed
  show ?case unfolding store.simps u by (rule Suc.IH [OF d])
qed simp

lemma sim_store:
  assumes s: "sim V tsp L m s" and a: "apart n a tsp"
  shows "sim V tsp L (m\<lparr>mem := store n a v (mem m)\<rparr>) (s\<lparr>xmem := store n a v (xmem s)\<rparr>)"
proof -
  have "flag_val (m\<lparr>mem := store n a v (mem m)\<rparr>) f = flag_val m f" for f
    using store_outside [OF a [unfolded apart_def, THEN conjunct1]] store_outside [OF a [unfolded apart_def, THEN conjunct2]] simD(1) [OF s]
    by (simp add: flag_val_def)
  then show ?thesis
    using simD [OF s] by (intro simI) (auto intro: store_same)
qed

section \<open>LEA\<close>

definition x86_LEA :: "env \<Rightarrow> ZydisRegister \<Rightarrow> operand \<Rightarrow> x86 \<Rightarrow> x86" where
  "x86_LEA V r oper s = x86_write r (x86_address V oper s) s"

lemma fast_LEA_translates:
  assumes e: "scratch_index e = 0" "cached_lea_operand e = None" and r: "plain_reg V r" and oper: "plain_address V oper"
  shows "translates V (fast_LEA V (RegOp r) oper) e {} {} (x86_LEA V r oper)"
proof -
  obtain x where x: "computes V (lea V (Operand 1) oper True) e (x86_address V oper) x 3" "x \<in> scratches"
    using lea_computes [OF oper, of e "Operand 1" True] e by auto
  obtain c e' where c: "lea V (Operand 1) oper True e = Some (x, e')" "code e' = code e @ c" "list_all straight c"
    "scratch_index e \<le> scratch_index e'" "scratch_index e' \<le> scratch_index e + 3" "x \<notin> free e'"
    "\<And>m. keeps (free e) m (exec c m)" "\<And>m. mem (exec c m) = mem m"
    "\<And>tsp L m s. sim V tsp L m s \<Longrightarrow> rget (exec c m) x = x86_address V oper s"
    using x(1) unfolding computes_def by blast
  show ?thesis
    unfolding x86_LEA_def [abs_def]
  proof (rule translates_set [OF _ _ _ _ r])
    show "fast_LEA V (RegOp r) oper e = setGPR V (Operand 0) (RegOp r) x e'" by (simp add: fast_LEA_def c(1))
    show "x = gpr_alloc ! reg_no r \<longrightarrow> reg_size r = X86_SIZE_DWORD \<or> reg_size r = X86_SIZE_QWORD"
      using x(2) gpr_alloc_range(1) [OF plain_reg_facts(1) [OF r]] by blast
    fix tsp L m s assume "sim V tsp L m s"
    from c(9) [OF this] show "\<exists>m1. lands c m m1 \<and> keeps (overwritten r \<union> free e) m m1 \<and> mem m1 = mem m \<and>
        take_bit (bits (reg_size r)) (rget m1 x) = take_bit (bits (reg_size r)) (x86_address V oper s)"
      using lands_straight [OF c(3), of m] keeps_mono [OF c(7) [of m] Un_upper2] c(8)
      by (intro exI [of _ "exec c m"]) simp
  qed (use c e in simp_all)
qed

section \<open>Loads and stores\<close>

text \<open>The address with the displacement left to the load or store.\<close>

definition locate :: "env \<Rightarrow> operand_ptr \<Rightarrow> nat \<Rightarrow> operand \<Rightarrow> emitter \<Rightarrow> (reg \<times> emitter) option" where
  "locate V ptr copy oper e = (if fold_disp V oper then lea V (LocalCopy copy) (no_disp oper) False e else lea V ptr oper False e)"

definition offset_of :: "env \<Rightarrow> operand \<Rightarrow> u64" where
  "offset_of V oper = (if fold_disp V oper then disp oper else 0)"

text \<open>Operands for which folding is right: 64-bit addresses with a base or an index register.\<close>

definition memory_operand :: "env \<Rightarrow> operand \<Rightarrow> bool" where
  "memory_operand V oper \<longleftrightarrow> plain_address V oper \<and> msize oper \<in> {8, 16, 32, 64}
     \<and> (fold_disp V oper \<longrightarrow> address_width (current_instruction V) = 64 \<and> (base oper \<noteq> Z_NONE \<or> index oper \<noteq> Z_NONE))"

lemma no_disp_address:
  assumes "memory_operand V oper" "fold_disp V oper"
  shows "plain_address V (no_disp oper)" "x86_address V (no_disp oper) s + disp oper = x86_address V oper s"
  using assms by (auto simp: memory_operand_def plain_address_def no_disp_def x86_address_def)

lemma locate_computes:
  assumes oper: "memory_operand V oper" and i: "scratch_index e \<le> 3" and c: "cached_lea_operand e = None"
  shows "\<exists>x. computes V (locate V ptr copy oper) e (\<lambda>s. x86_address V oper s - offset_of V oper) x 3"
proof (cases "fold_disp V oper")
  case True
  have "x86_address V oper s - disp oper = x86_address V (no_disp oper) s" for s
    using no_disp_address(2) [OF oper True, of s] by (metis add_diff_cancel_right')
  then show ?thesis
    using lea_computes [OF no_disp_address(1) [OF oper True] i, of "LocalCopy copy" False] c True
    by (auto simp: locate_def [abs_def] offset_of_def)
next
  case False
  then show ?thesis
    using lea_computes [of V oper e ptr False] oper i c by (auto simp: memory_operand_def locate_def [abs_def] offset_of_def)
qed

definition fence :: "env \<Rightarrow> rv list" where
  "fence V = (if always_tso V \<and> \<not> ext_TSO V then [FENCE] else [])"

lemma fence_exec [simp]: "exec (fence V) m = m" "list_all straight (fence V)"
  by (simp_all add: fence_def exec_simps)

lemma readMemory_emits: "n \<in> {8, 16, 32, 64} \<Longrightarrow>
    zydisToSize_bits n \<bind> (\<lambda>sz. readMemory V d a off sz e) = Some (emits ([Lu (n div 8) d off a] @ fence V) e)"
  by (auto simp: zydisToSize_bits_def readMemory_def fence_def)

lemma writeMemory_emits: "n \<in> {8, 16, 32, 64} \<Longrightarrow>
    zydisToSize_bits n \<bind> (\<lambda>sz. writeMemory V x a off sz e) = Some (emits (fence V @ [St (n div 8) x off a]) e)"
  by (auto simp: zydisToSize_bits_def writeMemory_def fence_def)

lemma zydisToSize_bits_cases: "n \<in> {8, 16, 32, 64} \<Longrightarrow> \<exists>sz. zydisToSize_bits n = Some sz"
  by (auto simp: zydisToSize_bits_def)

text \<open>Reading memory into register \<open>d\<close>.\<close>

lemma load_low: "n \<le> 8 \<Longrightarrow> take_bit (8 * n) (load n mm a) = load n mm a"
proof (induction n arbitrary: a)
  case (Suc n)
  have l: "bit (load n mm (a + 1)) i \<Longrightarrow> i < 8 * n" for i
    using Suc.IH [of "a + 1"] Suc.prems by (metis Suc_leD bit_take_bit_iff)
  have "bit (load (Suc n) mm a) i \<Longrightarrow> i < 8 * Suc n" for i
    using l [of "i - 8"] bit_imp_le_length [of "mm a" i] by (auto simp: bit_simps)
  then show ?case by (intro bit_word_eqI) (auto simp: bit_take_bit_iff simp del: load.simps)
qed simp

lemma locate_read:
  assumes oper: "memory_operand V oper" and i: "scratch_index e \<le> 3" "cached_lea_operand e = None" and d: "d \<noteq> 0"
  shows "\<exists>c e'. locate V ptr copy oper e \<bind> (\<lambda>(x, e). zydisToSize_bits (msize oper) \<bind> (\<lambda>sz. readMemory V d x (offset_of V oper) sz e)) = Some e'
    \<and> code e' = code e @ c \<and> list_all straight c \<and> scratch_index e \<le> scratch_index e' \<and> scratch_index e' \<le> scratch_index e + 3
    \<and> (\<forall>m. keeps (insert d (free e)) m (exec c m) \<and> mem (exec c m) = mem m)
    \<and> (\<forall>tsp L m s. apart (msize oper div 8) (x86_address V oper s) tsp \<and> sim V tsp L m s \<longrightarrow>
         rget (exec c m) d = load (msize oper div 8) (xmem s) (x86_address V oper s))"
proof -
  obtain x where x: "computes V (locate V ptr copy oper) e (\<lambda>s. x86_address V oper s - offset_of V oper) x 3"
    using locate_computes [OF oper i] by blast
  obtain c e' where c: "locate V ptr copy oper e = Some (x, e')" "code e' = code e @ c" "list_all straight c"
    "scratch_index e \<le> scratch_index e'" "scratch_index e' \<le> scratch_index e + 3"
    "\<And>m. keeps (free e) m (exec c m)" "\<And>m. mem (exec c m) = mem m"
    "\<And>tsp L m s. sim V tsp L m s \<Longrightarrow> rget (exec c m) x = x86_address V oper s - offset_of V oper"
    using x unfolding computes_def by blast
  let ?n = "msize oper div 8"
  let ?l = "[Lu ?n d (offset_of V oper) x] @ fence V"
  have n: "msize oper \<in> {8, 16, 32, 64}" using oper by (simp add: memory_operand_def)
  have ex: "exec (c @ ?l) m = rset d (load ?n (mem m) (rget (exec c m) x + offset_of V oper)) (exec c m)" for m
    by (simp add: exec_append exec_Cons effect_simps c(7))
  have k: "keeps (insert d (free e)) m (exec (c @ ?l) m) \<and> mem (exec (c @ ?l) m) = mem m" for m
    unfolding ex using keeps_mono [OF c(6) [of m] subset_insertI] by (simp add: keeps_rset c(7))
  have v: "rget (exec (c @ ?l) m) d = load ?n (xmem s) (x86_address V oper s)"
    if "apart ?n (x86_address V oper s) tsp \<and> sim V tsp L m s" for tsp L m s
    unfolding ex using sim_load [OF that [THEN conjunct2] that [THEN conjunct1]] c(8) [OF that [THEN conjunct2]] d by simp
  show ?thesis
    unfolding c(1) bind.bind_lunit prod.case readMemory_emits [OF n]
    by (rule exI [of _ "c @ ?l"], rule exI [of _ "emits ?l e'"], intro conjI allI impI)
       (use c(2-5) in \<open>simp_all add: k [simplified] v [simplified]\<close>)
qed

definition x86_LOAD :: "env \<Rightarrow> ZydisRegister \<Rightarrow> operand \<Rightarrow> x86 \<Rightarrow> x86" where
  "x86_LOAD V r oper s = x86_write r (load (msize oper div 8) (xmem s) (x86_address V oper s)) s"

text \<open>The condition that an access of operand \<open>oper\<close> does not touch the flag bytes.\<close>

definition untouched :: "env \<Rightarrow> operand \<Rightarrow> u64 \<Rightarrow> x86 \<Rightarrow> bool" where
  "untouched V oper tsp s \<longleftrightarrow> apart (msize oper div 8) (x86_address V oper s) tsp"

lemma getGPR_memory:
  assumes "is_mem oper" "msize oper \<in> {8, 16, 32, 64}" "scratch_index e < 7"
  defines "t \<equiv> scratch_gprs ! scratch_index e"
  shows "getGPR V ptr oper e = (locate V ptr (local_get V) oper (advance 1 e) \<bind> (\<lambda>(x, e). zydisToSize_bits (msize oper) \<bind>
    (\<lambda>sz. readMemory V t x (offset_of V oper) sz e))) \<bind> (\<lambda>e. Some (t, e))"
proof -
  obtain sz where sz: "zydisToSize_bits (msize oper) = Some sz" using zydisToSize_bits_cases [OF assms(2)] by blast
  show ?thesis
    using assms(1,3) sz
    by (cases oper) (auto simp: locate_def offset_of_def t_def scratch_advance Let_def simp del: scratch_next split: Option.bind_splits)
qed

lemma mov_load_memory:
  assumes "plain_reg V r" "is_mem oper" "msize oper = operand_size (RegOp r)" "operand_size (RegOp r) \<in> {8, 16, 32, 64}"
  shows "mov_load V (RegOp r) oper e = locate V (Operand 1) (Suc (local_get V + local_set V)) oper e \<bind> (\<lambda>(x, e).
    zydisToSize_bits (msize oper) \<bind> (\<lambda>sz. readMemory V (gpr_alloc ! reg_no r) x (offset_of V oper) sz e))"
proof -
  obtain sz where sz: "zydisToSize_bits (operand_size (RegOp r)) = Some sz" using zydisToSize_bits_cases [OF assms(4)] by blast
  show ?thesis
    using sz plain_reg_facts [OF assms(1)] assms(3)
    by (simp add: mov_load_def reg_value_def allocatedGPR_gpr locate_def offset_of_def del: operand_size.simps)
qed

lemma operand_size_bits: "plain_reg V r \<Longrightarrow> operand_size (RegOp r) = bits (reg_size r)"
  by (cases r) simp_all

text \<open>The narrow forms go through a scratch register, the wide ones load into the destination.\<close>

lemma load_narrow:
  assumes e: "scratch_index e = 0" "cached_lea_operand e = None" and r: "plain_reg V r"
    and oper: "memory_operand V oper" "msize oper = bits (reg_size r)"
    and h: "h e = getGPR V (Operand 1) oper e \<bind> (\<lambda>(x, e). setGPR V (Operand 0) (RegOp r) x e)"
  shows "implements V h e (\<lambda>tsp L s. untouched V oper tsp s) {} (x86_LOAD V r oper)"
proof -
  let ?n = "msize oper div 8" and ?v = "\<lambda>s. load (msize oper div 8) (xmem s) (x86_address V oper s)"
  have mem: "is_mem oper" "msize oper \<in> {8, 16, 32, 64}" using oper(1) by (simp_all add: memory_operand_def plain_address_def)
  have i: "scratch_index e < 7" "scratch_index (advance 1 e) \<le> 3" "cached_lea_operand (advance 1 e) = None" using e by (simp_all add: advance_def)
  have one: "(1 :: reg) \<noteq> 0" by simp
  obtain c e' where c: "locate V (Operand 1) (local_get V) oper (advance 1 e) \<bind> (\<lambda>(x, e). zydisToSize_bits (msize oper) \<bind>
        (\<lambda>sz. readMemory V 1 x (offset_of V oper) sz e)) = Some e'" "code e' = code e @ c" "list_all straight c"
    "1 \<le> scratch_index e'" "scratch_index e' \<le> 4"
    "\<forall>m. keeps (insert 1 (free (advance 1 e))) m (exec c m) \<and> mem (exec c m) = mem m"
    "\<forall>tsp L m s. apart ?n (x86_address V oper s) tsp \<and> sim V tsp L m s \<longrightarrow> rget (exec c m) 1 = ?v s"
    using locate_read [OF oper(1) i(2,3) one, of "Operand 1" "local_get V"] e(1) by auto
  have "getGPR V (Operand 1) oper e = Some (1, e')"
    using getGPR_memory [OF mem i(1), of V "Operand 1"] c(1) e(1) by (simp add: scratch_0)
  then have h': "h e = setGPR V (Operand 0) (RegOp r) 1 e'" using h by simp
  have "free e' \<subseteq> free (advance 1 e)" unfolding free_def by (rule set_drop_subset_set_drop) (use c(4) e(1) in simp)
  then have f1: "1 \<in> free e" "1 \<notin> free e'" using free_1(1,2) [OF e(1)] by blast+
  show ?thesis
    unfolding x86_LOAD_def [abs_def]
  proof (rule implements_set [OF _ c(2) _ _ r f1(2)])
    show "h e = setGPR V (Operand 0) (RegOp r) 1 e'" by (fact h')
    show "1 = gpr_alloc ! reg_no r \<longrightarrow> reg_size r = X86_SIZE_DWORD \<or> reg_size r = X86_SIZE_QWORD"
      using gpr_alloc_range(1) [OF plain_reg_facts(1) [OF r]] by simp
    fix tsp L m s assume g: "untouched V oper tsp s" and s: "sim V tsp L m s"
    have "insert 1 (free (advance 1 e)) \<subseteq> overwritten r \<union> free e" using f1(1) free_advance [of 1 e] by blast
    with c(6) have "keeps (overwritten r \<union> free e) m (exec c m)" using keeps_mono by blast
    moreover have "rget (exec c m) 1 = ?v s" using c(7) g s unfolding untouched_def by blast
    ultimately show "\<exists>m1. lands c m m1 \<and> keeps (overwritten r \<union> free e) m m1 \<and> mem m1 = mem m \<and>
        take_bit (bits (reg_size r)) (rget m1 1) = take_bit (bits (reg_size r)) (?v s)"
      using lands_straight [OF c(3), of m] c(6) by (intro exI [of _ "exec c m"]) simp
  qed (use e(1) c(4,5) in simp_all)
qed

lemma load_wide:
  assumes e: "scratch_index e = 0" "cached_lea_operand e = None" and r: "plain_reg V r" "reg_size r = X86_SIZE_DWORD \<or> reg_size r = X86_SIZE_QWORD"
    and oper: "memory_operand V oper" "msize oper = bits (reg_size r)"
  shows "implements V (mov_load V (RegOp r) oper) e (\<lambda>tsp L s. untouched V oper tsp s) {} (x86_LOAD V r oper)"
proof -
  let ?n = "msize oper div 8" and ?v = "\<lambda>s. load (msize oper div 8) (xmem s) (x86_address V oper s)"
  have mem: "is_mem oper" "msize oper \<in> {8, 16, 32, 64}" using oper(1) by (simp_all add: memory_operand_def plain_address_def)
  define d where "d = gpr_alloc ! reg_no r"
  have d: "d \<noteq> 0" using gpr_alloc_range(2) [OF plain_reg_facts(1) [OF r(1)]] by (simp add: d_def)
  obtain c e' where c: "mov_load V (RegOp r) oper e = Some e'" "code e' = code e @ c" "list_all straight c"
    "\<forall>m. keeps (insert d (free e)) m (exec c m) \<and> mem (exec c m) = mem m"
    "\<forall>tsp L m s. apart ?n (x86_address V oper s) tsp \<and> sim V tsp L m s \<longrightarrow> rget (exec c m) d = ?v s"
    using locate_read [OF oper(1) _ e(2) d, of "Operand 1" "Suc (local_get V + local_set V)"]
      mov_load_memory [OF r(1) mem(1), of e, folded d_def] e(1) oper(2) mem(2) operand_size_bits [OF r(1)] by auto
  show ?thesis
    unfolding x86_LOAD_def [abs_def]
  proof (rule implements_write [OF _ c(2) r(1)])
    show "mov_load V (RegOp r) oper e = Some e'" by (fact c(1))
    fix tsp L m s assume g: "untouched V oper tsp s" and s: "sim V tsp L m s"
    have "write_part (reg_size r) (?v s) old = ?v s" for old
      using r(2) oper(2) load_low [of 4 "xmem s" "x86_address V oper s"] by auto
    moreover have "rget (exec c m) d = ?v s" using c(5) g s d unfolding untouched_def by blast
    ultimately have "sets_reg e d (write_part (reg_size r) (?v s) (rget m d)) m (exec c m)"
      using c(4) by (simp add: sets_reg_def)
    then show "\<exists>m'. lands c m m' \<and> sets_reg e (gpr_alloc ! reg_no r)
        (write_part (reg_size r) (?v s) (rget m (gpr_alloc ! reg_no r))) m m'"
      using lands_straight [OF c(3)] unfolding d_def by blast
  qed
qed

lemma implements_cong: "h e = g e \<Longrightarrow> implements V g e G D instr \<Longrightarrow> implements V h e G D instr"
  by (simp add: implements_def)

lemma not_segment: "plain_reg V r \<Longrightarrow> \<not> is_segment (RegOp r)" "is_mem oper \<Longrightarrow> \<not> is_segment oper" "is_mem oper \<Longrightarrow> \<not> is_reg oper"
  "\<not> is_segment (ImmOp v w)"
  by (cases r; simp add: is_segment_def) (cases oper; simp add: is_segment_def)+

lemma fast_MOV_load:
  assumes e: "scratch_index e = 0" "cached_lea_operand e = None" and r: "plain_reg V r"
    and oper: "memory_operand V oper" "msize oper = bits (reg_size r)" and p: "zydisToRef (punned_reg V) \<noteq> None"
  shows "implements V (fast_MOV set_segment V (RegOp r) oper) e (\<lambda>tsp L s. untouched V oper tsp s) {} (x86_LOAD V r oper)"
proof -
  note n = plain_reg_facts [OF r]
  have mem: "is_mem oper" using oper(1) by (simp add: memory_operand_def plain_address_def)
  have split: "fast_MOV set_segment V (RegOp r) oper e = (if bits (reg_size r) \<in> {8, 16}
      then getGPR V (Operand 1) oper e \<bind> (\<lambda>(x, e). setGPR V (Operand 0) (RegOp r) x e) else mov_load V (RegOp r) oper e)"
    using not_segment(1) [OF r] not_segment(2,3) [OF mem] mem p n(2,3) operand_size_bits [OF r] by (cases oper; cases "reg_size r")
      (auto simp: fast_MOV_def reg_value_def simp del: getGPR.simps setGPR.simps operand_size.simps)
  show ?thesis
  proof (cases "bits (reg_size r) \<in> {8, 16}")
    case True
    then show ?thesis using split by (intro load_narrow [OF e r oper]) (simp del: setGPR.simps getGPR.simps)
  next
    case False
    then have "reg_size r = X86_SIZE_DWORD \<or> reg_size r = X86_SIZE_QWORD" using n(2) by (cases "reg_size r") auto
    then show ?thesis using split False by (intro implements_cong [OF _ load_wide [OF e r _ oper]]) simp_all
  qed
qed

section \<open>Stores\<close>

definition x86_STORE :: "env \<Rightarrow> operand \<Rightarrow> operand \<Rightarrow> x86 \<Rightarrow> x86" where
  "x86_STORE V oper src s = s\<lparr>xmem := store (msize oper div 8) (x86_address V oper s) (x86_value src s) (xmem s)\<rparr>"

lemma setGPR_memory:
  assumes "is_mem oper" "msize oper \<in> {8, 16, 32, 64}"
  shows "setGPR V ptr oper x e = locate V ptr (local_set V) oper e \<bind> (\<lambda>(a, e). zydisToSize_bits (msize oper) \<bind>
    (\<lambda>sz. writeMemory V x a (offset_of V oper) sz e))"
proof -
  obtain sz where sz: "zydisToSize_bits (msize oper) = Some sz" using zydisToSize_bits_cases [OF assms(2)] by blast
  show ?thesis using assms(1) sz by (cases oper) (simp_all add: locate_def offset_of_def Let_def)
qed

lemma implements_store:
  assumes h: "h e = setGPR V ptr oper x e1" "code e1 = code e @ c0" "list_all straight c0" "scratch_index e1 \<le> 3" "cached_lea_operand e1 = None"
    and oper: "memory_operand V oper" and x: "x \<notin> free e1"
    and c0: "\<And>m. keeps (free e) m (exec c0 m)" "\<And>m. mem (exec c0 m) = mem m"
    and v: "\<And>tsp L m s. sim V tsp L m s \<Longrightarrow> take_bit (msize oper) (rget (exec c0 m) x) = take_bit (msize oper) (x86_value src s)"
  shows "implements V h e (\<lambda>tsp L s. untouched V oper tsp s) {} (x86_STORE V oper src)"
proof -
  have mem: "is_mem oper" "msize oper \<in> {8, 16, 32, 64}" using oper(1) by (simp_all add: memory_operand_def plain_address_def)
  obtain a where a: "computes V (locate V ptr (local_set V) oper) e1 (\<lambda>s. x86_address V oper s - offset_of V oper) a 3"
    using locate_computes [OF oper h(4,5)] by blast
  obtain c e' where c: "locate V ptr (local_set V) oper e1 = Some (a, e')" "code e' = code e1 @ c" "list_all straight c"
    "\<And>m. keeps (free e1) m (exec c m)" "\<And>m. mem (exec c m) = mem m"
    "\<And>tsp L m s. sim V tsp L m s \<Longrightarrow> rget (exec c m) a = x86_address V oper s - offset_of V oper"
    using a unfolding computes_def by blast
  let ?n = "msize oper div 8"
  let ?st = "fence V @ [St ?n x (offset_of V oper) a]"
  have n8: "8 * ?n = msize oper" using mem(2) by auto
  have he: "h e = Some (emits ?st e')"
    by (simp only: h(1) setGPR_memory [OF mem] c(1) bind.bind_lunit prod.case writeMemory_emits [OF mem(2)])
  have l: "live_after V {} L = L" for L by (simp add: live_after_def)
  have "lands (c0 @ c @ ?st) m (exec (c0 @ c @ ?st) m)" for m using h(3) c(3) by (intro lands_straight) simp
  moreover have "sim V tsp L (exec (c0 @ c @ ?st) m) (x86_STORE V oper src s)"
    if g: "untouched V oper tsp s" and s: "sim V tsp L m s" for tsp L m s
  proof -
    have s1: "sim V tsp L (exec c0 m) s" by (rule sim_keeps [OF s c0])
    have s2: "sim V tsp L (exec c (exec c0 m)) s" by (rule sim_keeps [OF s1 c(4,5)])
    have "rget (exec c (exec c0 m)) x = rget (exec c0 m) x" using c(4) [of "exec c0 m"] x by (simp add: keeps_def)
    moreover have "rget (exec c (exec c0 m)) a + offset_of V oper = x86_address V oper s" using c(6) [OF s1] by simp
    ultimately have ex: "exec (c0 @ c @ ?st) m = (exec c (exec c0 m))\<lparr>mem := store ?n (x86_address V oper s) (rget (exec c0 m) x) (mem (exec c (exec c0 m)))\<rparr>"
      by (simp add: exec_append exec_Cons exec_Nil effect_simps)
    have low: "store ?n b (rget (exec c0 m) x) mm = store ?n b (x86_value src s) mm" for b mm
      using store_low [of ?n "rget (exec c0 m) x" "x86_value src s"] v [OF s] n8 by simp
    show ?thesis
      unfolding ex low x86_STORE_def using sim_store [OF s2] g unfolding untouched_def by blast
  qed
  moreover have "code (emits ?st e') = code e @ c0 @ c @ ?st" using h(2) c(2) by simp
  ultimately show ?thesis unfolding implements_def l using he by blast
qed

lemma fast_MOV_store:
  assumes e: "scratch_index e = 0" "cached_lea_operand e = None" and oper: "memory_operand V oper" and src: "plain_operand V src"
    and sz: "case src of RegOp r \<Rightarrow> msize oper = bits (reg_size r) | _ \<Rightarrow> True" and p: "zydisToRef (punned_reg V) \<noteq> None"
  shows "implements V (fast_MOV set_segment V oper src) e (\<lambda>tsp L s. untouched V oper tsp s) {} (x86_STORE V oper src)"
proof -
  have mem: "is_mem oper" using oper(1) by (simp add: memory_operand_def plain_address_def)
  obtain ref where ref: "zydisToRef (punned_reg V) = Some ref" using p by blast
  have pun: "reg_value V oper = punned_reg V" using mem by (cases oper) (simp_all add: reg_value_def)
  show ?thesis
  proof (cases src)
    case (RegOp r)
    then have r: "plain_reg V r" using src by simp
    note n = plain_reg_facts [OF r]
    define g where "g = gpr_alloc ! reg_no r"
    define hi where "hi \<longleftrightarrow> reg_size r = X86_SIZE_BYTE_HIGH"
    let ?x = "if hi then 1 else g" and ?c = "if hi then [Sh sSRLI 1 g 8] else []" and ?k = "if hi then 1 else 0"
    show ?thesis
    proof (rule implements_store [OF _ _ _ _ _ oper])
      have "fast_MOV set_segment V oper src e = mov_wide V oper src e"
        using RegOp not_segment(1) [OF r] not_segment(2,3) [OF mem] mem
        by (simp add: fast_MOV_def pun ref reg_value_def [of V "RegOp r"] n(3))
      also have "\<dots> = setGPR V (Operand 0) oper ?x (emits ?c (advance ?k e))"
        unfolding mov_wide_def RegOp getGPR_size_reg [OF r] using e
        by (simp add: reg_value_def n(4) hi_def g_def scratch_advance scratch_0 del: scratch_next setGPR.simps)
      finally show "fast_MOV set_segment V oper src e = setGPR V (Operand 0) oper ?x (emits ?c (advance ?k e))" .
      show "?x \<notin> free (emits ?c (advance ?k e))"
        unfolding emits_fields(5) using gpr_alloc_not_free [OF n(1), folded g_def] free_1(2) [OF e(1)] by simp
      show "keeps (free e) m (exec ?c m)" for m using free_1(1) [OF e(1)] by (simp add: exec_simps keeps_rset)
      fix tsp L m s assume "sim V tsp L m s"
      from simD(2) [OF this n(1)] show "take_bit (msize oper) (rget (exec ?c m) ?x) = take_bit (msize oper) (x86_value src s)"
        using sz RegOp by (cases r) (auto simp: hi_def g_def x86_value.simps exec_simps)
    qed (use e in \<open>simp_all add: exec_simps advance_def\<close>)
  next
    case (ImmOp v w)
    show ?thesis
    proof (rule implements_store [OF _ _ _ _ _ oper])
      show "fast_MOV set_segment V oper src e = setGPR V (Operand 0) oper 1 (emits [LI 1 v] (advance 1 e))"
        using not_segment(2,3) [OF mem] not_segment(4) [of v w] mem ImmOp e(1)
        by (simp add: fast_MOV_def pun ref reg_value_def [of V "ImmOp v w"] scratch_advance scratch_0 del: setGPR.simps scratch_next)
      show "1 \<notin> free (emits [LI 1 v] (advance 1 e))" unfolding emits_fields(5) by (rule free_1(2) [OF e(1)])
      show "keeps (free e) m (exec [LI 1 v] m)" for m using free_1(1) [OF e(1)] by (simp add: exec_simps keeps_rset)
    qed (use e ImmOp in \<open>simp_all add: exec_simps advance_def x86_value.simps\<close>)
  qed (use src in simp)
qed

section \<open>Where folding the displacement is wrong\<close>

text \<open>With 32-bit addresses the displacement is added after the truncation, so an address that
  wraps around leaves the 4 GiB address space. The example is \<^verbatim>\<open>mov eax, [ecx + 8]\<close> in 32-bit mode.\<close>

definition wrap_env :: env where
  "wrap_env = sample_env\<lparr>g_mode32 := True, current_instruction := \<lparr>ilength = 3, operand_width = 32, address_width = 32,
     has_segment = False, has_lock = False, opcode = 0x8B\<rparr>\<rparr>"

lemma folded_displacement_wraps:
  "map_option code (fast_MOV (\<lambda>_ _. []) wrap_env (RegOp (Z_32 0)) (MemOp Z_DS (Z_32 1) Z_NONE 1 8 32) sample_emitter) = Some [Lu 4 5 8 26]"
  "xgpr s 1 = 0xFFFFFFFC \<Longrightarrow> x86_address wrap_env (MemOp Z_DS (Z_32 1) Z_NONE 1 8 32) s = 4"
  "rget m 26 = 0xFFFFFFFC \<Longrightarrow> exec [Lu 4 5 8 26] m = rset 5 (load 4 (mem m) 0x100000004) m"
  by (simp_all add: fast_MOV_def mov_load_def wrap_env_def sample_env_def sample_emitter_def is_segment_def reg_value_def fold_disp_def
      IsValidSigned12BitImm_def no_disp_def lea_def scratch_def scratch_gprs_def getGPR_reg_def getGPR_ref_def allocatedGPR_def gpr_alloc_def
      zydisToSize_bits_def readMemory_def emits_def x86_address_def part_value_def x86_value.simps exec_simps One_nat_def)

end
