(* ===== verification/HandlerCases.thy ===== *)
theory HandlerCases
  imports Block
begin

text \<open>
  Concrete runs of emitted code, most of them where it departs from the architecture.
\<close>

definition run_handler :: "(emitter \<Rightarrow> emitter option) \<Rightarrow> machine \<Rightarrow> machine option" where
  "run_handler h m = do {
     e \<leftarrow> h sample_emitter;
     run (10 * length (code e)) (code e) 0 m
   }"

text \<open>A machine with given registers and memory bytes, zero elsewhere.\<close>

definition machine_with :: "(reg \<times> u64) list \<Rightarrow> (u64 \<times> u8) list \<Rightarrow> machine" where
  "machine_with rs bs = \<lparr>xregs = (\<lambda>r. case map_of rs r of None \<Rightarrow> 0 | Some v \<Rightarrow> v),
     mem = (\<lambda>a. case map_of bs a of None \<Rightarrow> 0 | Some v \<Rightarrow> v)\<rparr>"

definition env_for :: "nat \<Rightarrow> bool \<Rightarrow> (x86_ref \<Rightarrow> bool) \<Rightarrow> env" where
  "env_for width lock flags = sample_env\<lparr>current_instruction := \<lparr>ilength = 2, operand_width = width, address_width = 64,
     has_segment = False, has_lock = lock, opcode = 0\<rparr>, needs_flag := flags\<rparr>"

section \<open>Flags\<close>

text \<open>\<^verbatim>\<open>sbb al, cl\<close> on 0x7F and 0xFF with the carry set: 127 + 1 - 1 does not overflow, but the
  emitted code sets OF.\<close>

lemma sbb_overflow_wrong:
  "map_option (\<lambda>m. rget m 25) (run_handler (fast_SBB (env_for 8 False (\<lambda>_. True)) (RegOp (Z_8 0)) (RegOp (Z_8 1)))
     (machine_with [(5, 0x7F), (26, 0xFF), (21, 1), (27, 0x100000)] [])) = Some 1"
  "\<not> x86_of_sub 8 0x7F 0xFF True"
  by (code_simp, simp add: x86_of_sub_def in_signed_def slow_def low_def)

text \<open>\<^verbatim>\<open>test eax, eax\<close> when only CF is live: the code leaves CF as it was.\<close>

lemma test_keeps_carry:
  "map_option (\<lambda>m. rget m 21) (run_handler (fast_TEST (env_for 32 False (\<lambda>f. f = X86_REF_CF)) (RegOp (Z_32 0)) (RegOp (Z_32 0)))
     (machine_with [(21, 1), (27, 0x100000)] [])) = Some 1"
  by code_simp

text \<open>\<^verbatim>\<open>shl eax, 1\<close> on 0x40000000 changes the sign, so OF is defined as one; the emitted code
  clears it.\<close>

lemma shl_overflow_lost:
  "map_option (\<lambda>m. (rget m 5, rget m 21, rget m 25)) (run_handler (fast_SHL_imm (env_for 32 False (\<lambda>_. True)) (RegOp (Z_32 0)) (ImmOp 1 8))
     (machine_with [(5, 0x40000000), (25, 1), (27, 0x100000)] [])) = Some (0x80000000, 0, 0)"
  by code_simp

text \<open>\<^verbatim>\<open>sar al, 12\<close> on 0x80: all bits shifted out are copies of the sign, but CF is cleared.\<close>

lemma sar_carry_lost:
  "map_option (\<lambda>m. (rget m 5, rget m 21)) (run_handler (fast_SAR_imm (env_for 8 False (\<lambda>_. True)) (RegOp (Z_8 0)) (ImmOp 12 8))
     (machine_with [(5, 0x80), (27, 0x100000)] [])) = Some (0xFF, 0)"
  by code_simp

text \<open>\<^verbatim>\<open>clearFlag\<close> and \<^verbatim>\<open>setFlag\<close> on PF or AF change a scratch register and not the flag.\<close>

lemma memory_flags_not_set:
  "g \<in> {clearFlag, setFlag} \<Longrightarrow> f \<in> {X86_REF_PF, X86_REF_AF} \<Longrightarrow> scratch_index e < 7 \<Longrightarrow>
    \<exists>e' c. g f e = Some e' \<and> code e' = code e @ c \<and> list_all straight c \<and> (\<forall>m. mem (exec c m) = mem m)"
  by (auto simp: clearFlag_def setFlag_def flag_def exec_simps)

section \<open>Locked operations\<close>

text \<open>\<^verbatim>\<open>lock add [rbx], eax\<close> with 0x80000000 in memory and zero in \<^verbatim>\<open>eax\<close>: the atomic returns the old
  value sign-extended, and the comparison sets CF.\<close>

lemma lock_add_carry_wrong:
  "map_option (\<lambda>m. rget m 21) (run_handler (fast_ADD (env_for 32 True (\<lambda>_. True)) (MemOp Z_DS (Z_64 3) Z_NONE 1 0 32) (RegOp (Z_32 0)))
     (machine_with [(8, 0x2000), (27, 0x100000)] [(0x2003, 0x80)])) = Some 1"
  by code_simp

text \<open>\<^verbatim>\<open>lock add [rbx], al\<close> with 0xFF in memory and one in \<^verbatim>\<open>al\<close>: memory becomes zero, but ZF is clear,
  because the old value is shifted by the shifted source instead of the byte position.\<close>

lemma lock_add_byte_flags_wrong:
  "map_option (\<lambda>m. (mem m 0x2000, rget m 23)) (run_handler (fast_ADD (env_for 8 True (\<lambda>_. True)) (MemOp Z_DS (Z_64 3) Z_NONE 1 0 8) (RegOp (Z_8 0)))
     (machine_with [(5, 1), (8, 0x2000), (27, 0x100000)] [(0x2000, 0xFF)])) = Some (0, 0)"
  by code_simp

section \<open>Operands that stop the emulator\<close>

text \<open>An absolute address below 2048 is folded into the load, and \<^verbatim>\<open>lea\<close> then finds neither base
  nor index.\<close>

lemma small_absolute_address_aborts:
  "getGPR (env_for 32 False (\<lambda>_. True)) (Operand 1) (MemOp Z_DS Z_NONE Z_NONE 1 0x10 32) sample_emitter = None"
  by code_simp

text \<open>\<^verbatim>\<open>add [ebx + ecx], eax\<close> in 64-bit mode needs more than the seven scratch registers, unless the
  two local copies of the operand happen to share a stack address.\<close>

lemma address_override_exhausts_scratch:
  "fast_ADD ((env_for 32 False (\<lambda>_. True))\<lparr>current_instruction := \<lparr>ilength = 3, operand_width = 32, address_width = 32,
       has_segment = False, has_lock = False, opcode = 1\<rparr>\<rparr>)
     (MemOp Z_DS (Z_32 3) (Z_32 1) 1 0 32) (RegOp (Z_32 0)) sample_emitter = None"
  by code_simp

end
