(* ===== verification/BlockCache.thy ===== *)
theory BlockCache
  imports Felix_Prelude
begin

text \<open>
  The code cache of \<^verbatim>\<open>v2/recompiler.cpp\<close>: where translated blocks are placed, how blocks are
  linked to each other, how the translations of modified guest code are invalidated, and
  how the dispatcher finds the code for a guest address.

  The instructions of a translation that do not leave the block are opaque here; what the
  handlers emit for one guest instruction is a list of \<open>piece\<close>s, and the parameter \<open>plan\<close> gives
  them for the block at an address (decoder, flag scan and handlers). Host code is a partial
  map from addresses to instructions, so that overwriting part of an instruction destroys it.
\<close>

section \<open>Ordered maps\<close>

text \<open>\<^verbatim>\<open>std::map\<close> as a list in ascending order of the keys.\<close>

fun omap_insert :: "'k::linorder \<Rightarrow> 'v \<Rightarrow> ('k \<times> 'v) list \<Rightarrow> ('k \<times> 'v) list" where
  "omap_insert k v [] = [(k, v)]"
| "omap_insert k v ((k', v') # m) = (
     if k < k' then (k, v) # (k', v') # m
     else if k = k' then (k, v) # m
     else (k', v') # omap_insert k v m)"

definition lower_bound :: "('k::linorder \<times> 'v) list \<Rightarrow> 'k \<Rightarrow> ('k \<times> 'v) option" where
  "lower_bound m k = (case dropWhile (\<lambda>p. fst p < k) m of [] \<Rightarrow> None | p # _ \<Rightarrow> Some p)"

section \<open>Host code\<close>

text \<open>The instructions that move control between blocks; \<open>Insn\<close> is any other instruction.\<close>

datatype hinstr = NOP | AUIPC nat u32 | JAL nat u64 | JALR nat u32 nat | Insn nat | C_UNDEF

fun width :: "hinstr \<Rightarrow> u64" where
  "width C_UNDEF = 2"
| "width _ = 4"

type_synonym host_code = "u64 \<Rightarrow> hinstr option"

definition put_code :: "u64 \<Rightarrow> hinstr \<Rightarrow> host_code \<Rightarrow> host_code" where
  "put_code a i c x = (
     if x = a then Some i
     else case c x of
       None \<Rightarrow> None
     | Some j \<Rightarrow> if x - a < width i \<or> a - x < width j then None else Some j)"

abbreviation (input) t4 :: nat where "t4 \<equiv> 29"
abbreviation (input) t5 :: nat where "t5 \<equiv> 30"
abbreviation (input) t6 :: nat where "t6 \<equiv> 31"

section \<open>State\<close>

record BlockMetadata =
  address :: u64
  address_end :: u64
  guest_address :: u64
  guest_address_end :: u64
  pending_links :: "u64 list"
  instruction_spans :: "(u64 \<times> u64) list"

record AddressCacheEntry =
  host :: u64
  guest :: u64

text \<open>What the handlers emit for a block: ordinary instructions, the two-byte undefined
  instruction of \<^verbatim>\<open>UD2\<close>, and the two ways to leave a block.\<close>

datatype piece = Op nat | Undef | Link u64 | Back

type_synonym insns = "(u64 \<times> piece list) list"

text \<open>Model-only history: the translations emitted since the code cache was cleared. No operation
  reads it.\<close>

record version =
  v_start :: u64
  v_end :: u64
  v_guest :: u64
  v_insns :: insns

text \<open>A pointer to a \<^verbatim>\<open>BlockMetadata\<close> is the guest address it is stored under.\<close>

record Recompiler =
  code :: host_code
  cursor :: u64
  code_cache :: u64
  start_of_code_cache :: u64
  compile_next_handler :: u64
  invalidate_caller_thunk :: u64
  block_metadata :: "u64 \<Rightarrow> BlockMetadata"
  host_pc_map :: "(u64 \<times> u64) list"
  page_map :: "(u64 \<times> u64 list) list"
  address_cache :: "u64 \<Rightarrow> AddressCacheEntry"
  history :: "version list"

record cache_config =
  cfg_link :: bool
  cfg_address_cache :: bool
  cfg_protect_pages :: bool
  cfg_mode32 :: bool

text \<open>The size in bytes of the dispatcher up to the entry that compiles the next block, up to the
  invalidation thunk, and of both.\<close>

record prologue =
  to_compile_next :: u64
  to_thunk :: u64
  prologue_size :: u64

type_synonym guest_memory = "u64 \<Rightarrow> u8"
type_synonym block_plan = "guest_memory \<Rightarrow> u64 \<Rightarrow> insns"

definition no_block :: BlockMetadata where
  "no_block = \<lparr>address = 0, address_end = 0, guest_address = 0, guest_address_end = 0,
     pending_links = [], instruction_spans = []\<rparr>"

definition empty_entry :: AddressCacheEntry where
  "empty_entry = \<lparr>host = 0, guest = 0\<rparr>"

definition set_meta :: "u64 \<Rightarrow> (BlockMetadata \<Rightarrow> BlockMetadata) \<Rightarrow> Recompiler \<Rightarrow> Recompiler" where
  "set_meta rip f r = r\<lparr>block_metadata := (block_metadata r)(rip := f (block_metadata r rip))\<rparr>"

definition cache_index :: "u64 \<Rightarrow> u64" where
  "cache_index rip = rip AND (push_bit 20 1 - 1)"

definition set_entry :: "u64 \<Rightarrow> AddressCacheEntry \<Rightarrow> Recompiler \<Rightarrow> Recompiler" where
  "set_entry rip en r = r\<lparr>address_cache := (address_cache r)(cache_index rip := en)\<rparr>"

definition blockExists :: "Recompiler \<Rightarrow> u64 \<Rightarrow> bool" where
  "blockExists r rip \<longleftrightarrow> address (block_metadata r rip) \<noteq> 0"

section \<open>Emitting jumps\<close>

definition emit :: "hinstr \<Rightarrow> Recompiler \<Rightarrow> Recompiler" where
  "emit i r = r\<lparr>code := put_code (cursor r) i (code r), cursor := cursor r + width i\<rparr>"

definition IsValidJTypeImm :: "u64 \<Rightarrow> bool" where
  "IsValidJTypeImm v \<longleftrightarrow> - 0x80000 \<le> sint v \<and> sint v \<le> 0x7FFFF"

definition IsValid2GBImm :: "u64 \<Rightarrow> bool" where
  "IsValid2GBImm v \<longleftrightarrow> - (2 ^ 31) \<le> sint v \<and> sint v \<le> 2 ^ 31 - 1"

definition hi20 :: "u64 \<Rightarrow> u32" where
  "hi20 offset = drop_bit 12 (ucast offset + 0x800) AND 0xFFFFF"

definition lo12 :: "u64 \<Rightarrow> u32" where
  "lo12 offset = signed_drop_bit 20 (ucast (push_bit 20 offset))"

definition backToDispatcher :: "Recompiler \<Rightarrow> Recompiler option" where
  "backToDispatcher r = do {
     let offset = compile_next_handler r - cursor r;
     ASSERT (IsValid2GBImm offset);
     Some (emit (JALR 0 (lo12 offset) t6) (emit (AUIPC t6 (hi20 offset)) r))
   }"

definition jumpAndLink :: "cache_config \<Rightarrow> u64 \<Rightarrow> Recompiler \<Rightarrow> Recompiler option" where
  "jumpAndLink cfg rip r = (
     if \<not> cfg_link cfg then backToDispatcher r
     else do {
       let start = cursor r;
       r \<leftarrow> (if \<not> blockExists r rip then do {
               r \<leftarrow> backToDispatcher r;
               Some (set_meta rip (\<lambda>b. b\<lparr>pending_links := pending_links b @ [start]\<rparr>) r)
             } else do {
               let target = address (block_metadata r rip);
               let offset = target - cursor r;
               if IsValidJTypeImm (offset - 4)
               then Some (emit (JAL t5 (offset - 4)) (emit NOP r))
               else do {
                 ASSERT (IsValid2GBImm offset);
                 Some (emit (JALR t5 (lo12 offset) t4) (emit (AUIPC t4 (hi20 offset)) r))
               }
             });
       ASSERT (cursor r - start = 8);
       Some r
     })"

definition link_at :: "cache_config \<Rightarrow> u64 \<Rightarrow> u64 \<Rightarrow> Recompiler \<Rightarrow> Recompiler option" where
  "link_at cfg site rip r = do {
     let saved = cursor r;
     r \<leftarrow> jumpAndLink cfg rip (r\<lparr>cursor := site\<rparr>);
     Some (r\<lparr>cursor := saved\<rparr>)
   }"

fun link_all :: "cache_config \<Rightarrow> u64 \<Rightarrow> u64 list \<Rightarrow> Recompiler \<Rightarrow> Recompiler option" where
  "link_all cfg rip [] r = Some r"
| "link_all cfg rip (l # ls) r = do {
     r \<leftarrow> link_at cfg l rip r;
     link_all cfg rip ls r
   }"

definition expirePendingLinks :: "cache_config \<Rightarrow> u64 \<Rightarrow> Recompiler \<Rightarrow> Recompiler option" where
  "expirePendingLinks cfg rip r = (
     if \<not> cfg_link cfg then Some r
     else if \<not> blockExists r rip then Some r
     else do {
       r \<leftarrow> link_all cfg rip (pending_links (block_metadata r rip)) r;
       Some (set_meta rip (\<lambda>b. b\<lparr>pending_links := []\<rparr>) r)
     })"

section \<open>Compiling a block\<close>

fun emit_piece :: "cache_config \<Rightarrow> piece \<Rightarrow> Recompiler \<Rightarrow> Recompiler option" where
  "emit_piece cfg (Op k) r = Some (emit (Insn k) r)"
| "emit_piece cfg Undef r = Some (emit C_UNDEF r)"
| "emit_piece cfg (Link rip) r = jumpAndLink cfg rip r"
| "emit_piece cfg Back r = backToDispatcher r"

fun emit_pieces :: "cache_config \<Rightarrow> piece list \<Rightarrow> Recompiler \<Rightarrow> Recompiler option" where
  "emit_pieces cfg [] r = Some r"
| "emit_pieces cfg (p # ps) r = do {
     r \<leftarrow> emit_piece cfg p r;
     emit_pieces cfg ps r
   }"

text \<open>The loop of \<^verbatim>\<open>compileSequence\<close> over the decoded instructions of the block at \<open>g\<close>.\<close>

fun emit_insns :: "cache_config \<Rightarrow> u64 \<Rightarrow> insns \<Rightarrow> u64 \<Rightarrow> Recompiler \<Rightarrow> (u64 \<times> Recompiler) option" where
  "emit_insns cfg g [] rip r = Some (rip, r)"
| "emit_insns cfg g ((len, ps) # is) rip r = do {
     let r = set_meta g (\<lambda>b. b\<lparr>instruction_spans := instruction_spans b @ [(rip, cursor r)]\<rparr>) r;
     r \<leftarrow> emit_pieces cfg ps r;
     emit_insns cfg g is (rip + len) r
   }"

definition compile_block :: "cache_config \<Rightarrow> insns \<Rightarrow> u64 \<Rightarrow> Recompiler \<Rightarrow> (u64 \<times> Recompiler) option" where
  "compile_block cfg is rip r = do {
     let r = set_meta rip (\<lambda>b. b\<lparr>guest_address := rip\<rparr>) r;
     (end_rip, r) \<leftarrow> emit_insns cfg rip is rip r;
     let r = set_meta rip (\<lambda>b. b\<lparr>guest_address_end := end_rip, address_end := cursor r\<rparr>) r;
     Some (end_rip, r)
   }"

definition emitNecessaryStuff :: "prologue \<Rightarrow> Recompiler \<Rightarrow> Recompiler" where
  "emitNecessaryStuff P r = r\<lparr>compile_next_handler := cursor r + to_compile_next P,
     invalidate_caller_thunk := cursor r + to_thunk P,
     start_of_code_cache := cursor r + prologue_size P,
     cursor := cursor r + prologue_size P\<rparr>"

definition clearCodeCache :: "prologue \<Rightarrow> Recompiler \<Rightarrow> Recompiler" where
  "clearCodeCache P r = emitNecessaryStuff P (r\<lparr>cursor := code_cache r,
     block_metadata := (\<lambda>_. no_block), host_pc_map := [], page_map := [],
     address_cache := (\<lambda>_. empty_entry), history := []\<rparr>)"

definition code_cache_size :: u64 where
  "code_cache_size = 64 * 1024 * 1024"

text \<open>The pages from the first to the last byte of a block. At the last page of the address
  space the loop variable would wrap to 0 and the loop would not end.\<close>

definition page_of :: "u64 \<Rightarrow> u64" where
  "page_of a = a AND NOT 0xFFF"

definition pages_between :: "u64 \<Rightarrow> u64 \<Rightarrow> u64 list" where
  "pages_between p q = (if p \<le> q then map (\<lambda>i. p + of_nat i * 0x1000) [0..<Suc (unat (q - p) div 0x1000)] else [])"

definition page_blocks :: "Recompiler \<Rightarrow> u64 \<Rightarrow> u64 list" where
  "page_blocks r p = (case map_of (page_map r) p of None \<Rightarrow> [] | Some gs \<Rightarrow> gs)"

definition register_page :: "u64 \<Rightarrow> u64 \<Rightarrow> Recompiler \<Rightarrow> Recompiler" where
  "register_page g p r = r\<lparr>page_map := omap_insert p (page_blocks r p @ [g]) (page_map r)\<rparr>"

definition register_pages :: "u64 \<Rightarrow> u64 \<Rightarrow> u64 \<Rightarrow> Recompiler \<Rightarrow> Recompiler option" where
  "register_pages g p q r = do {
     ASSERT (q \<noteq> NOT 0xFFF);
     Some (fold (register_page g) (pages_between p q) r)
   }"

definition wrap_rip :: "cache_config \<Rightarrow> u64 \<Rightarrow> u64" where
  "wrap_rip cfg rip = (
     if cfg_mode32 cfg \<and> rip AND 0xFFFFFFFF00000000 \<noteq> 0 \<and> 0x100000000 \<le> rip \<and> rip \<le> 0x1FFFFFFFF
     then rip AND 0xFFFFFFFF else rip)"

definition markPagesAsReadOnly :: "cache_config \<Rightarrow> u64 \<Rightarrow> u64 \<Rightarrow> (u64 \<Rightarrow> bool) \<Rightarrow> u64 \<Rightarrow> bool" where
  "markPagesAsReadOnly cfg start end' writable p = (
     if \<not> cfg_protect_pages cfg then writable p
     else writable p \<and> \<not> (page_of start \<le> p \<and> p < page_of (end' + 0xFFF)))"

definition compile :: "cache_config \<Rightarrow> prologue \<Rightarrow> block_plan \<Rightarrow> guest_memory \<Rightarrow> u64 \<Rightarrow> Recompiler \<Rightarrow> (u64 \<Rightarrow> bool)
    \<Rightarrow> (u64 \<times> Recompiler \<times> (u64 \<Rightarrow> bool)) option" where
  "compile cfg P plan m rip0 r w = do {
     let remaining_size = code_cache_size - (cursor r - code_cache r);
     let r = (if remaining_size < 100000 then clearCodeCache P r else r);
     let rip = wrap_rip cfg rip0;
     let start = cursor r;
     let r = set_meta rip (\<lambda>b. b\<lparr>address := start\<rparr>) r;
     (end_rip, r) \<leftarrow> compile_block cfg (plan m rip) rip r;
     ASSERT (8 \<le> cursor r - start);
     let b = block_metadata r rip;
     let r = r\<lparr>host_pc_map := omap_insert (address_end b - 1) rip (host_pc_map r)\<rparr>;
     r \<leftarrow> register_pages rip (page_of (guest_address b)) (page_of (guest_address_end b - 1)) r;
     let r = (if cfg_address_cache cfg then set_entry (guest_address b) \<lparr>host = address b, guest = guest_address b\<rparr> r else r);
     let r = r\<lparr>history := \<lparr>v_start = start, v_end = address_end b, v_guest = rip, v_insns = plan m rip\<rparr> # history r\<rparr>;
     r \<leftarrow> expirePendingLinks cfg rip r;
     Some (start, r, markPagesAsReadOnly cfg rip end_rip w)
   }"

section \<open>The dispatcher\<close>

definition getCompiledBlock :: "cache_config \<Rightarrow> prologue \<Rightarrow> block_plan \<Rightarrow> guest_memory \<Rightarrow> u64 \<Rightarrow> Recompiler \<Rightarrow> (u64 \<Rightarrow> bool)
    \<Rightarrow> (u64 \<times> Recompiler \<times> (u64 \<Rightarrow> bool)) option" where
  "getCompiledBlock cfg P plan m rip r w = (
     let en = address_cache r (cache_index rip); h = address (block_metadata r rip) in
     if cfg_address_cache cfg then
       (if guest en = rip then Some (host en, r, w)
        else if blockExists r rip then Some (h, set_entry rip \<lparr>host = h, guest = rip\<rparr> r, w)
        else compile cfg P plan m rip r w)
     else
       (if blockExists r rip then Some (h, r, w)
        else compile cfg P plan m rip r w))"

definition CompileNext :: "cache_config \<Rightarrow> prologue \<Rightarrow> block_plan \<Rightarrow> guest_memory \<Rightarrow> u64 \<Rightarrow> Recompiler \<Rightarrow> (u64 \<Rightarrow> bool)
    \<Rightarrow> (u64 \<times> Recompiler \<times> (u64 \<Rightarrow> bool)) option" where
  "CompileNext cfg P plan m rip r w = do {
     (next_block, r, w) \<leftarrow> getCompiledBlock cfg P plan m rip r w;
     ASSERT (next_block \<noteq> 0);
     Some (next_block, r, w)
   }"

text \<open>The emitted dispatcher looks into the address cache before it calls \<^verbatim>\<open>CompileNext\<close>.\<close>

definition dispatch :: "cache_config \<Rightarrow> prologue \<Rightarrow> block_plan \<Rightarrow> guest_memory \<Rightarrow> u64 \<Rightarrow> Recompiler \<Rightarrow> (u64 \<Rightarrow> bool)
    \<Rightarrow> (u64 \<times> Recompiler \<times> (u64 \<Rightarrow> bool)) option" where
  "dispatch cfg P plan m rip r w = (
     let en = address_cache r (cache_index rip) in
     if cfg_address_cache cfg \<and> guest en = rip then Some (host en, r, w)
     else CompileNext cfg P plan m rip r w)"

section \<open>Invalidation\<close>

text \<open>The stored pair of instructions jumps to the invalidation thunk. A block without code has
  address 0, and the store faults.\<close>

definition invalidateBlock :: "u64 \<Rightarrow> Recompiler \<Rightarrow> Recompiler option" where
  "invalidateBlock g r = do {
     let a = address (block_metadata r g);
     ASSERT (a \<noteq> 0);
     let offset = invalidate_caller_thunk r - a;
     Some (r\<lparr>code := put_code (a + 4) (JALR t6 (lo12 offset) t4) (put_code a (AUIPC t4 (hi20 offset)) (code r))\<rparr>)
   }"

fun invalidate_all :: "u64 list \<Rightarrow> Recompiler \<Rightarrow> Recompiler option" where
  "invalidate_all [] r = Some r"
| "invalidate_all (g # gs) r = do {
     r \<leftarrow> invalidateBlock g r;
     invalidate_all gs r
   }"

definition invalidateRange :: "u64 \<Rightarrow> u64 \<Rightarrow> Recompiler \<Rightarrow> Recompiler option" where
  "invalidateRange start end' r = do {
     let inside = (\<lambda>p. start \<le> p \<and> p \<le> end' - 1);
     r \<leftarrow> invalidate_all (concat (map snd (filter (\<lambda>e. inside (fst e)) (page_map r)))) r;
     Some (r\<lparr>page_map := map (\<lambda>(p, gs). (p, if inside p then [] else gs)) (page_map r)\<rparr>)
   }"

fun invalidate_threads :: "u64 \<Rightarrow> u64 \<Rightarrow> Recompiler list \<Rightarrow> Recompiler list option" where
  "invalidate_threads start end' [] = Some []"
| "invalidate_threads start end' (r # rs) = do {
     r \<leftarrow> invalidateRange start end' r;
     rs \<leftarrow> invalidate_threads start end' rs;
     Some (r # rs)
   }"

definition invalidateRangeGlobal :: "u64 \<Rightarrow> u64 \<Rightarrow> Recompiler list \<Rightarrow> Recompiler list option" where
  "invalidateRangeGlobal start end' rs = invalidate_threads (page_of start) (page_of (end' + 0xFFF)) rs"

definition invalidateAt :: "cache_config \<Rightarrow> u64 \<Rightarrow> u64 \<Rightarrow> Recompiler \<Rightarrow> Recompiler option" where
  "invalidateAt cfg address_of_block linked_block r = do {
     (_, g) \<leftarrow> lower_bound (host_pc_map r) address_of_block;
     let b = block_metadata r g;
     let r = (if \<not> (address b \<le> address_of_block \<and> address_of_block \<le> address_end b) then r
              else set_meta g (\<lambda>b. b\<lparr>address := 0\<rparr>) r);
     let r = (if cfg_address_cache cfg then set_entry (guest_address b) empty_entry r else r);
     if linked_block \<noteq> 0 then do {
       let site = linked_block - 8;
       ASSERT (start_of_code_cache r \<le> site \<and> site < cursor r);
       link_at cfg site (guest_address b) r
     } else Some r
   }"

section \<open>Control flow between blocks\<close>

text \<open>Control that arrives at \<open>pc\<close> runs through jumps until it reaches the dispatcher's entry, the
  invalidation thunk or the first ordinary instruction of a translation.\<close>

datatype landing = Dispatcher | Thunk u64 u64 | Body u64 | Lost

definition set_hreg :: "nat \<Rightarrow> u64 \<Rightarrow> (nat \<Rightarrow> u64) \<Rightarrow> nat \<Rightarrow> u64" where
  "set_hreg rd v x = (if rd = 0 then x else x(rd := v))"

fun follow :: "nat \<Rightarrow> Recompiler \<Rightarrow> u64 \<Rightarrow> (nat \<Rightarrow> u64) \<Rightarrow> landing" where
  "follow n r pc x = (
     if pc = compile_next_handler r then Dispatcher
     else if pc = invalidate_caller_thunk r then Thunk (x t6) (x t5)
     else case n of
       0 \<Rightarrow> Lost
     | Suc n \<Rightarrow> (case code r pc of
         Some NOP \<Rightarrow> follow n r (pc + 4) x
       | Some (AUIPC rd i) \<Rightarrow> follow n r (pc + 4) (set_hreg rd (pc + scast (push_bit 12 i)) x)
       | Some (JAL rd off) \<Rightarrow> follow n r (pc + off) (set_hreg rd (pc + 4) x)
       | Some (JALR rd i rs) \<Rightarrow> follow n r ((x rs + scast i) AND NOT 1) (set_hreg rd (pc + 4) x)
       | Some (Insn k) \<Rightarrow> Body pc
       | _ \<Rightarrow> Lost))"

text \<open>Control of a thread at host address \<open>pc\<close> with guest address \<open>rip\<close>, until an ordinary
  instruction is reached; \<open>n\<close> bounds the visits of the dispatcher. The result is the host address
  of that instruction.\<close>

fun resume :: "nat \<Rightarrow> cache_config \<Rightarrow> prologue \<Rightarrow> block_plan \<Rightarrow> guest_memory \<Rightarrow> u64 \<Rightarrow> u64 \<Rightarrow> (nat \<Rightarrow> u64)
    \<Rightarrow> Recompiler \<Rightarrow> (u64 \<Rightarrow> bool) \<Rightarrow> (u64 \<times> Recompiler \<times> (u64 \<Rightarrow> bool)) option" where
  "resume n cfg P plan m rip pc x r w = (
     case follow 5 r pc x of
       Body a \<Rightarrow> Some (a, r, w)
     | Lost \<Rightarrow> None
     | Dispatcher \<Rightarrow> (case n of
         0 \<Rightarrow> None
       | Suc n \<Rightarrow> do {
           (h, r, w) \<leftarrow> dispatch cfg P plan m rip r w;
           resume n cfg P plan m rip h (x(t5 := 0)) r w
         })
     | Thunk a l \<Rightarrow> (case n of
         0 \<Rightarrow> None
       | Suc n \<Rightarrow> do {
           r \<leftarrow> invalidateAt cfg a l r;
           (h, r, w) \<leftarrow> dispatch cfg P plan m rip r w;
           resume n cfg P plan m rip h (x(t5 := 0)) r w
         }))"

end
