(* ===== verification/BlockCacheCode.thy ===== *)
theory BlockCacheCode
  imports BlockCache
begin

text \<open>
  Jumps in the code cache: where the emitted jumps land, what a store to host code leaves intact,
  and how the pieces of a translation are laid out.
\<close>

section \<open>Far jumps\<close>

lemma shifted_low: "signed_drop_bit 20 (push_bit 20 (x :: u32)) = signed_take_bit 11 x"
proof (rule bit_word_eqI)
  fix n :: nat
  consider "n < 11" | "n = 11" | "12 \<le> n" by linarith
  then show "n < LENGTH(32) \<Longrightarrow> bit (signed_drop_bit 20 (push_bit 20 x)) n = bit (signed_take_bit 11 x) n"
    by cases (auto simp: bit_simps min_def)
qed

lemma push_ucast: "ucast (push_bit 20 (x :: u64)) = push_bit 20 (ucast x :: u32)"
  by (rule bit_word_eqI) (auto simp: bit_simps)

lemma ucast_sint: "(ucast (x :: u64) :: u32) = word_of_int (sint x)"
  by (rule bit_word_eqI) (auto simp: bit_simps min_def)

lemma low_word_of_int: "signed_take_bit 11 (word_of_int z :: u32) = word_of_int (signed_take_bit 11 z)"
  by (rule bit_word_eqI) (auto simp: bit_simps min_def)

lemma high_word_of_int: "push_bit 12 (drop_bit 12 (word_of_int z :: u32)) = word_of_int (push_bit 12 (drop_bit 12 z))"
  by (rule bit_word_eqI) (auto simp: bit_simps)

lemma mask_high: "push_bit 12 (drop_bit 12 y AND 0xFFFFF) = push_bit 12 (drop_bit 12 (y :: u32))"
proof -
  have "(0xFFFFF :: u32) = mask 20" by (simp add: mask_eq_exp_minus_1)
  then have "drop_bit 12 y AND 0xFFFFF = drop_bit 12 y AND mask 20" by simp
  also have "\<dots> = drop_bit 12 y"
    by (rule bit_word_eqI) (auto simp: bit_simps simp del: mask_numeral dest: bit_imp_le_length)
  finally show ?thesis by simp
qed

lemma scast_word_of_int:
  "- (2 ^ 31) \<le> z \<Longrightarrow> z < 2 ^ 31 \<Longrightarrow> (scast (word_of_int z :: u32) :: u64) = word_of_int z"
  unfolding scast_eq signed_of_int by (simp add: signed_take_bit_int_eq_self)

lemma lo12_eq: "lo12 x = word_of_int ((sint x + 2048) mod 4096 - 2048)"
  unfolding lo12_def push_ucast shifted_low unfolding ucast_sint [of x] low_word_of_int
  by (simp add: signed_take_bit_eq_take_bit_shift take_bit_eq_mod)

lemma hi20_eq: "push_bit 12 (hi20 x) = word_of_int (4096 * ((sint x + 2048) div 4096))"
proof -
  have "word_of_int (sint x) + 0x800 = (word_of_int (sint x + 2048) :: u32)" by simp
  then show ?thesis
    unfolding hi20_def mask_high ucast_sint
    by (simp only: high_word_of_int) (simp only: push_bit_eq_mult drop_bit_eq_div, simp add: mult.commute)
qed

lemma far_target:
  assumes "- (2 ^ 31) \<le> sint off" "sint off < 2 ^ 31 - 0x800"
  shows "scast (push_bit 12 (hi20 off)) + scast (lo12 off) = off"
proof -
  let ?o = "sint off"
  let ?h = "4096 * ((?o + 2048) div 4096)" and ?l = "(?o + 2048) mod 4096 - 2048"
  have "?h + ?l = ?o" by presburger
  then have "(word_of_int ?h + word_of_int ?l :: u64) = word_of_int ?o" by (simp only: flip: of_int_add)
  moreover have "- 524288 \<le> (?o + 2048) div 4096" "(?o + 2048) div 4096 \<le> 524287"
    using assms zdiv_mono1 [of "- 2147481600" "?o + 2048" 4096] zdiv_mono1 [of "?o + 2048" 2147483647 4096] by simp_all
  then have "- (2 ^ 31) \<le> ?h" "?h < 2 ^ 31" by simp_all
  moreover have "- (2 ^ 31) \<le> ?l" "?l < 2 ^ 31"
    using pos_mod_bound [of 4096 "?o + 2048"] pos_mod_sign [of 4096 "?o + 2048"] by simp_all
  ultimately show ?thesis
    unfolding hi20_eq lo12_eq by (simp only: scast_word_of_int) simp
qed

lemma int_diff_bounds:
  "p < 2 ^ 63 \<Longrightarrow> q < 2 ^ 63 \<Longrightarrow> - (2 ^ 63) \<le> int p - int q \<and> int p - int q < 2 ^ 63"
  "p < q + 2 ^ 30 \<Longrightarrow> q < p + 2 ^ 30 \<Longrightarrow> - (2 ^ 31) \<le> int p - int q \<and> int p - int q < 2 ^ 31 - 0x800"
  by simp_all

lemma sint_diff:
  fixes a b :: u64
  assumes "unat a < 2 ^ 63" "unat b < 2 ^ 63"
  shows "sint (a - b) = int (unat a) - int (unat b)"
proof -
  define d where "d = int (unat a) - int (unat b)"
  have "a - b = word_of_int d" by (simp add: d_def)
  moreover have "- (2 ^ 63) \<le> d \<and> d < 2 ^ 63" unfolding d_def by (rule int_diff_bounds(1) [OF assms])
  then have "sint (word_of_int d :: u64) = d"
    unfolding signed_of_int by (simp add: signed_take_bit_int_eq_self)
  ultimately show ?thesis by (simp add: d_def)
qed

section \<open>Stores to host code\<close>

text \<open>\<open>keeps_code lo hi c c'\<close>: the instructions outside the bytes from \<open>lo\<close> to \<open>hi\<close> stay.\<close>

definition keeps_code :: "nat \<Rightarrow> nat \<Rightarrow> host_code \<Rightarrow> host_code \<Rightarrow> bool" where
  "keeps_code lo hi c c' \<longleftrightarrow>
     (\<forall>a j. c a = Some j \<and> unat a < 2 ^ 63 \<and> (unat a + unat (width j) \<le> lo \<or> hi \<le> unat a) \<longrightarrow> c' a = Some j)"

lemma keeps_codeD:
  "keeps_code lo hi c c' \<Longrightarrow> c a = Some j \<Longrightarrow> unat a < 2 ^ 63 \<Longrightarrow> unat a + unat (width j) \<le> lo \<or> hi \<le> unat a \<Longrightarrow> c' a = Some j"
  unfolding keeps_code_def by blast

lemma keeps_code_refl: "keeps_code lo hi c c"
  by (simp add: keeps_code_def)

lemma keeps_code_trans:
  "keeps_code lo hi c c' \<Longrightarrow> keeps_code lo hi c' c'' \<Longrightarrow> keeps_code lo hi c c''"
  unfolding keeps_code_def by blast

lemma keeps_code_widen:
  "keeps_code lo hi c c' \<Longrightarrow> lo' \<le> lo \<Longrightarrow> hi \<le> hi' \<Longrightarrow> keeps_code lo' hi' c c'"
  unfolding keeps_code_def by (meson le_trans)

lemma width_cases: "unat (width i) = (if i = C_UNDEF then 2 else 4)"
  by (cases i) simp_all

lemma put_code_keeps:
  assumes "unat a < 2 ^ 63"
  shows "keeps_code (unat a) (unat a + unat (width i)) c (put_code a i c)"
  unfolding keeps_code_def
proof (intro allI impI, elim conjE)
  fix x j
  assume c: "c x = Some j" and x: "unat x < 2 ^ 63"
    and out: "unat x + unat (width j) \<le> unat a \<or> unat a + unat (width i) \<le> unat x"
  have far: "\<not> p - q < width k" if "unat p + unat (width l) \<le> unat q \<or> unat q + unat (width k) \<le> unat p"
    "unat p < 2 ^ 63" "unat q < 2 ^ 63" for p q k l
  proof (cases "unat q \<le> unat p")
    case True
    then show ?thesis using that(1) by (auto simp: word_less_nat_alt unat_minus_small width_cases split: if_splits)
  next
    case False
    then have "unat (p - q) = 2 ^ 64 + unat p - unat q"
      using that(2,3) by (subst unat_sub_if') simp
    then have "4 < unat (p - q)" using that(3) by simp
    then show ?thesis by (simp add: word_less_nat_alt width_cases)
  qed
  have "x \<noteq> a" using out by (auto simp: width_cases split: if_splits)
  moreover have "\<not> x - a < width i" using far [of x j a i] out x assms by blast
  moreover have "\<not> a - x < width j" using far [of a i x j] out x assms by blast
  ultimately show "put_code a i c x = Some j" using c by (simp add: put_code_def)
qed

lemma put_code_same [simp]: "put_code a i c a = Some i"
  by (simp add: put_code_def)

lemma unat_offset: "unat a < 2 ^ 63 \<Longrightarrow> unat b < 2 ^ 32 \<Longrightarrow> unat (a + b :: u64) = unat a + unat b"
  by (rule unat_plus_small) simp

text \<open>Two adjacent instructions.\<close>

definition pair_at :: "host_code \<Rightarrow> u64 \<Rightarrow> hinstr \<Rightarrow> hinstr \<Rightarrow> bool" where
  "pair_at c a i j \<longleftrightarrow> c a = Some i \<and> c (a + 4) = Some j"

lemma put_pair:
  assumes a: "unat a < 2 ^ 62" and w: "width i = 4" "width j = 4"
  shows "pair_at (put_code (a + 4) j (put_code a i c)) a i j"
    "keeps_code (unat a) (unat a + 8) c (put_code (a + 4) j (put_code a i c))"
proof -
  have a4: "unat (a + 4) = unat a + 4" using a unat_offset [of a 4] by simp
  have k1: "keeps_code (unat a) (unat a + 8) c (put_code a i c)"
    by (rule keeps_code_widen [OF put_code_keeps]) (use a w in simp_all)
  have k: "keeps_code (unat a + 4) (unat a + 8) (put_code a i c) (put_code (a + 4) j (put_code a i c))"
    by (rule keeps_code_widen [OF put_code_keeps]) (use a w a4 in simp_all)
  have "put_code (a + 4) j (put_code a i c) a = Some i"
    by (rule keeps_codeD [OF k]) (use a w in simp_all)
  then show "pair_at (put_code (a + 4) j (put_code a i c)) a i j" by (simp add: pair_at_def)
  show "keeps_code (unat a) (unat a + 8) c (put_code (a + 4) j (put_code a i c))"
    by (rule keeps_code_trans [OF k1 keeps_code_widen [OF k]]) simp_all
qed

lemma pair_at_keeps:
  assumes "pair_at c a i j" "keeps_code lo hi c c'" "unat a < 2 ^ 62" "width i = 4" "width j = 4"
    "unat a + 8 \<le> lo \<or> hi \<le> unat a"
  shows "pair_at c' a i j"
proof -
  have "unat (a + 4) = unat a + 4" using assms(3) unat_offset [of a 4] by simp
  then show ?thesis
    using assms keeps_codeD [OF assms(2), of a i] keeps_codeD [OF assms(2), of "a + 4" j] by (auto simp: pair_at_def)
qed

definition far :: "host_code \<Rightarrow> u64 \<Rightarrow> nat \<Rightarrow> nat \<Rightarrow> u64 \<Rightarrow> bool" where
  "far c a rt rl t \<longleftrightarrow> pair_at c a (AUIPC rt (hi20 (t - a))) (JALR rl (lo12 (t - a)) rt)"

definition near :: "host_code \<Rightarrow> u64 \<Rightarrow> u64 \<Rightarrow> bool" where
  "near c a t \<longleftrightarrow> pair_at c a NOP (JAL t5 (t - a - 4))"

definition direct :: "host_code \<Rightarrow> u64 \<Rightarrow> u64 \<Rightarrow> bool" where
  "direct c a t \<longleftrightarrow> near c a t \<or> far c a t4 t5 t"

lemma jump_keeps:
  assumes "keeps_code lo hi c c'" "unat a < 2 ^ 62" "unat a + 8 \<le> lo \<or> hi \<le> unat a"
  shows "far c a rt rl t \<Longrightarrow> far c' a rt rl t" "direct c a t \<Longrightarrow> direct c' a t"
  using pair_at_keeps [OF _ assms(1,2) _ _ assms(3)] by (auto simp: far_def near_def direct_def)

section \<open>Where jumps land\<close>

text \<open>Host addresses are below \<open>2 ^ 62\<close>, and a jump spans less than a gigabyte.\<close>

lemma far_lands:
  fixes a t :: u64
  assumes "unat a < 2 ^ 62" "unat t < 2 ^ 62" "unat a < unat t + 2 ^ 30" "unat t < unat a + 2 ^ 30"
  shows "a + scast (push_bit 12 (hi20 (t - a))) + scast (lo12 (t - a)) = t" "IsValid2GBImm (t - a)"
proof -
  have s: "sint (t - a) = int (unat t) - int (unat a)" using assms by (intro sint_diff) simp_all
  have "- (2 ^ 31) \<le> sint (t - a) \<and> sint (t - a) < 2 ^ 31 - 0x800"
    unfolding s by (rule int_diff_bounds(2) [OF assms(4,3)])
  then show "IsValid2GBImm (t - a)" "a + scast (push_bit 12 (hi20 (t - a))) + scast (lo12 (t - a)) = t"
    using far_target [of "t - a"] by (simp_all add: IsValid2GBImm_def add.assoc)
qed

lemma even_align: "even (unat (t :: u64)) \<Longrightarrow> t AND NOT 1 = t"
proof -
  assume "even (unat t)"
  then have "\<not> bit t 0" using bit_unsigned_iff [of t 0, where ?'a = nat] by (simp add: bit_0)
  show ?thesis
    by (rule bit_word_eqI) (use \<open>\<not> bit t 0\<close> in \<open>auto simp: bit_simps bit_1_iff intro!: gr0I\<close>)
qed

declare follow.simps [simp del]

lemma follow_far:
  assumes f: "far (code r) a rt rl t" and rt: "rt \<noteq> 0" and t: "even (unat t)"
    and a: "unat a < 2 ^ 62" "unat t < 2 ^ 62" "unat a < unat t + 2 ^ 30" "unat t < unat a + 2 ^ 30"
    and out: "a \<notin> {compile_next_handler r, invalidate_caller_thunk r}" "a + 4 \<notin> {compile_next_handler r, invalidate_caller_thunk r}"
  shows "\<exists>y. follow (Suc (Suc n)) r a x = follow n r t (set_hreg rl (a + 8) (x(rt := y)))"
proof -
  let ?y = "a + scast (push_bit 12 (hi20 (t - a)))"
  have "follow (Suc (Suc n)) r a x = follow (Suc n) r (a + 4) (x(rt := ?y))"
    using f out rt by (subst follow.simps) (auto simp: far_def pair_at_def set_hreg_def)
  also have "\<dots> = follow n r t (set_hreg rl (a + 8) (x(rt := ?y)))"
    using f out far_lands(1) [OF a] even_align [OF t]
    by (subst follow.simps) (auto simp: far_def pair_at_def add.assoc)
  finally show ?thesis by blast
qed

lemma follow_near:
  assumes "near (code r) a t" 
    and out: "a \<notin> {compile_next_handler r, invalidate_caller_thunk r}" "a + 4 \<notin> {compile_next_handler r, invalidate_caller_thunk r}"
  shows "follow (Suc (Suc n)) r a x = follow n r t (x(t5 := a + 8))"
proof -
  have "follow (Suc (Suc n)) r a x = follow (Suc n) r (a + 4) x"
    using assms by (subst follow.simps) (auto simp: near_def pair_at_def)
  also have "\<dots> = follow n r t (x(t5 := a + 8))"
    using assms by (subst follow.simps) (auto simp: near_def pair_at_def set_hreg_def add.commute)
  finally show ?thesis .
qed

lemma follow_direct:
  assumes d: "direct (code r) a t" and t: "even (unat t)"
    and a: "unat a < 2 ^ 62" "unat t < 2 ^ 62" "unat a < unat t + 2 ^ 30" "unat t < unat a + 2 ^ 30"
    and out: "a \<notin> {compile_next_handler r, invalidate_caller_thunk r}" "a + 4 \<notin> {compile_next_handler r, invalidate_caller_thunk r}"
  shows "\<exists>x'. follow (Suc (Suc n)) r a x = follow n r t x' \<and> x' t5 = a + 8"
proof -
  consider "near (code r) a t" | "far (code r) a t4 t5 t" using d unfolding direct_def by blast
  then show ?thesis
  proof cases
    case 1
    show ?thesis using follow_near [OF 1 out] by auto
  next
    case 2
    show ?thesis using follow_far [OF 2 _ t a out, of n x] by (auto simp: set_hreg_def)
  qed
qed

section \<open>Layout of a translation\<close>

fun psize :: "piece \<Rightarrow> nat" where
  "psize (Op k) = 4"
| "psize Undef = 2"
| "psize (Link t) = 8"
| "psize Back = 8"

definition psizes :: "piece list \<Rightarrow> nat" where
  "psizes ps = sum_list (map psize ps)"

definition pieces :: "insns \<Rightarrow> piece list" where
  "pieces is = concat (map snd is)"

definition guest_length :: "insns \<Rightarrow> nat" where
  "guest_length is = sum_list (map (\<lambda>i. unat (fst i)) is)"

fun place :: "u64 \<Rightarrow> piece list \<Rightarrow> (u64 \<times> piece) list" where
  "place a [] = []"
| "place a (p # ps) = (a, p) # place (a + of_nat (psize p)) ps"

lemma psizes_simps [simp]: "psizes [] = 0" "psizes (p # ps) = psize p + psizes ps"
  "psizes (ps @ qs) = psizes ps + psizes qs"
  by (simp_all add: psizes_def)

lemma psize_bounds: "2 \<le> psize p" "psize p \<le> 8" "even (psize p)"
  by (cases p; simp)+

lemma even_psizes: "even (psizes ps)"
  by (induction ps) (simp_all add: psize_bounds)

lemma unat_step: "unat (a :: u64) + n < 2 ^ 63 \<Longrightarrow> unat (a + of_nat n) = unat a + n"
  by (subst unat_plus_small) (simp_all add: unat_of_nat)

lemma place_bounds:
  "(b, q) \<in> set (place a ps) \<Longrightarrow> unat a + psizes ps < 2 ^ 63 \<Longrightarrow>
     unat a \<le> unat b \<and> unat b + psize q \<le> unat a + psizes ps \<and> (even (unat a) \<longrightarrow> even (unat b))"
proof (induction ps arbitrary: a)
  case (Cons p ps)
  have u: "unat (a + of_nat (psize p)) = unat a + psize p" using Cons.prems by (intro unat_step) simp
  show ?case
  proof (cases "(b, q) = (a, p)")
    case False
    then show ?thesis using Cons.IH [of "a + of_nat (psize p)"] Cons.prems u psize_bounds(3) [of p] by auto
  qed (use Cons.prems in simp)
qed simp

lemma place_append:
  "place a (ps @ qs) = place a ps @ place (a + of_nat (psizes ps)) qs"
  by (induction ps arbitrary: a) (simp_all add: add.assoc)

lemma place_disjoint:
  assumes "(b, q) \<in> set (place a ps)" "(b', q') \<in> set (place a ps)" "unat a + psizes ps < 2 ^ 63"
  shows "(b = b' \<and> q = q') \<or> unat b + psize q \<le> unat b' \<or> unat b' + psize q' \<le> unat b"
  using assms
proof (induction ps arbitrary: a)
  case (Cons p ps)
  let ?a = "a + of_nat (psize p)"
  have u: "unat ?a = unat a + psize p" using Cons.prems by (intro unat_step) simp
  have lower: "unat a + psize p \<le> unat c" if "(c, s) \<in> set (place ?a ps)" for c s
    using place_bounds [OF that] Cons.prems u by auto
  show ?case
    using Cons.prems(1,2) Cons.IH [of ?a] lower [of b q] lower [of b' q'] u Cons.prems(3) by auto
qed simp

end
