(* ===== verification/BlockCacheInv.thy ===== *)
theory BlockCacheInv
  imports BlockCacheCode
begin

text \<open>
  The invariant of one thread's code cache: every translation is intact up to its first two
  instructions, each translation is either patched to enter the invalidation thunk or is the
  translation of the current guest memory and registered for every page it was read from, and
  every link leads to the dispatcher or to a translation of the address it stands for.
\<close>

section \<open>Geometry\<close>

definition prologue_ok :: "prologue \<Rightarrow> bool" where
  "prologue_ok P \<longleftrightarrow> even (unat (to_compile_next P)) \<and> even (unat (to_thunk P)) \<and> even (unat (prologue_size P))
     \<and> unat (to_compile_next P) + 8 \<le> unat (prologue_size P) \<and> unat (to_thunk P) + 8 \<le> unat (prologue_size P)
     \<and> to_compile_next P \<noteq> to_thunk P \<and> unat (prologue_size P) < 2 ^ 20"

definition frame :: "prologue \<Rightarrow> Recompiler \<Rightarrow> bool" where
  "frame P r \<longleftrightarrow> prologue_ok P \<and> even (unat (code_cache r)) \<and> 0 < unat (code_cache r) \<and> unat (code_cache r) < 2 ^ 61
     \<and> compile_next_handler r = code_cache r + to_compile_next P
     \<and> invalidate_caller_thunk r = code_cache r + to_thunk P
     \<and> start_of_code_cache r = code_cache r + prologue_size P"

definition spot :: "Recompiler \<Rightarrow> u64 \<Rightarrow> bool" where
  "spot r a \<longleftrightarrow> unat (start_of_code_cache r) \<le> unat a \<and> unat a + 8 \<le> unat (code_cache r) + 2 ^ 26"

lemma frame_nat:
  assumes "frame P r"
  shows "unat (compile_next_handler r) = unat (code_cache r) + unat (to_compile_next P)"
    "unat (invalidate_caller_thunk r) = unat (code_cache r) + unat (to_thunk P)"
    "unat (start_of_code_cache r) = unat (code_cache r) + unat (prologue_size P)"
proof -
  have "unat (code_cache r) < 2 ^ 63" "unat (to_compile_next P) < 2 ^ 32" "unat (to_thunk P) < 2 ^ 32"
    "unat (prologue_size P) < 2 ^ 32"
    using assms by (simp_all add: frame_def prologue_ok_def)
  then show "unat (compile_next_handler r) = unat (code_cache r) + unat (to_compile_next P)"
    "unat (invalidate_caller_thunk r) = unat (code_cache r) + unat (to_thunk P)"
    "unat (start_of_code_cache r) = unat (code_cache r) + unat (prologue_size P)"
    using assms unat_offset by (simp_all add: frame_def)
qed

lemma frame_even:
  assumes "frame P r"
  shows "even (unat (compile_next_handler r))" "even (unat (invalidate_caller_thunk r))"
    "even (unat (start_of_code_cache r))" "compile_next_handler r \<noteq> invalidate_caller_thunk r"
  using assms frame_nat [OF assms] by (simp_all add: frame_def prologue_ok_def)

lemma spot_facts:
  assumes f: "frame P r" and s: "spot r a"
  shows "unat a < 2 ^ 62" "unat (a + 4) = unat a + 4" "unat (a + 8) = unat a + 8"
    "a \<notin> {compile_next_handler r, invalidate_caller_thunk r}" "a + 4 \<notin> {compile_next_handler r, invalidate_caller_thunk r}"
    "0 < unat a"
proof -
  note n = frame_nat [OF f]
  have p: "unat (to_compile_next P) + 8 \<le> unat (prologue_size P)" "unat (to_thunk P) + 8 \<le> unat (prologue_size P)"
    "unat (code_cache r) < 2 ^ 61" "0 < unat (code_cache r)"
    using f by (simp_all add: frame_def prologue_ok_def)
  show a: "unat a < 2 ^ 62" using s p by (simp add: spot_def)
  then show a4: "unat (a + 4) = unat a + 4" "unat (a + 8) = unat a + 8"
    using unat_offset [of a 4] unat_offset [of a 8] by simp_all
  show "a \<notin> {compile_next_handler r, invalidate_caller_thunk r}" "a + 4 \<notin> {compile_next_handler r, invalidate_caller_thunk r}"
    using s p n a4 by (auto simp: spot_def unat_eq_u64)
  show "0 < unat a" using s p n by (simp add: spot_def)
qed

lemma in_reach:
  assumes f: "frame P r" and s: "spot r a"
    and t: "unat (code_cache r) \<le> unat t" "unat t \<le> unat (code_cache r) + 2 ^ 26"
  shows "unat a < 2 ^ 62" "unat t < 2 ^ 62" "unat a < unat t + 2 ^ 30" "unat t < unat a + 2 ^ 30"
  using frame_nat(3) [OF f] assms by (simp_all add: frame_def spot_def)

lemma entries_in_cache:
  assumes "frame P r"
  shows "unat (code_cache r) \<le> unat (compile_next_handler r)" "unat (compile_next_handler r) \<le> unat (code_cache r) + 2 ^ 26"
    "unat (code_cache r) \<le> unat (invalidate_caller_thunk r)" "unat (invalidate_caller_thunk r) \<le> unat (code_cache r) + 2 ^ 26"
  using assms frame_nat [OF assms] by (simp_all add: frame_def prologue_ok_def)

section \<open>Emission\<close>

lemma emit_fields [simp]:
  "cursor (emit i r) = cursor r + width i" "code (emit i r) = put_code (cursor r) i (code r)"
  by (simp_all add: emit_def)

lemma emit_pair: "width i = 4 \<Longrightarrow> width j = 4 \<Longrightarrow> emit j (emit i r) =
  r\<lparr>code := put_code (cursor r + 4) j (put_code (cursor r) i (code r)), cursor := cursor r + 8\<rparr>"
  by (simp add: emit_def add.assoc)

lemma backToDispatcher_spec:
  assumes f: "frame P r" and s: "spot r (cursor r)"
  shows "\<exists>c. backToDispatcher r = Some (r\<lparr>code := c, cursor := cursor r + 8\<rparr>)
    \<and> far c (cursor r) t6 0 (compile_next_handler r) \<and> keeps_code (unat (cursor r)) (unat (cursor r) + 8) (code r) c"
  using far_lands(2) [OF in_reach [OF f s entries_in_cache(1,2) [OF f]]] put_pair [OF spot_facts(1) [OF f s]]
  by (intro exI [of _ "put_code (cursor r + 4) (JALR 0 (lo12 (compile_next_handler r - cursor r)) t6)
    (put_code (cursor r) (AUIPC t6 (hi20 (compile_next_handler r - cursor r))) (code r))"])
    (simp add: backToDispatcher_def emit_pair far_def Let_def)

definition linked :: "cache_config \<Rightarrow> u64 \<Rightarrow> u64 \<Rightarrow> Recompiler \<Rightarrow> Recompiler \<Rightarrow> bool" where
  "linked cfg T a r r' \<longleftrightarrow> (\<exists>c ls.
     r' = r\<lparr>code := c, block_metadata := (block_metadata r)(T := (block_metadata r T)\<lparr>pending_links := ls\<rparr>)\<rparr>
     \<and> keeps_code (unat a) (unat a + 8) (code r) c
     \<and> (if cfg_link cfg \<and> blockExists r T
        then ls = pending_links (block_metadata r T) \<and> direct c a (address (block_metadata r T))
        else far c a t6 0 (compile_next_handler r)
          \<and> ls = pending_links (block_metadata r T) @ (if cfg_link cfg then [a] else [])))"

definition targets_ok :: "Recompiler \<Rightarrow> bool" where
  "targets_ok r \<longleftrightarrow> (\<forall>T. blockExists r T \<longrightarrow> unat (code_cache r) \<le> unat (address (block_metadata r T))
     \<and> unat (address (block_metadata r T)) \<le> unat (code_cache r) + 2 ^ 26)"

lemma jumpAndLink_spec:
  assumes f: "frame P r" and s: "spot r (cursor r)" and t: "targets_ok r"
  shows "\<exists>r'. jumpAndLink cfg T r = Some (r'\<lparr>cursor := cursor r + 8\<rparr>) \<and> linked cfg T (cursor r) r r'"
proof -
  let ?a = "cursor r" and ?m = "block_metadata r"
  obtain c where c: "backToDispatcher r = Some (r\<lparr>code := c, cursor := ?a + 8\<rparr>)"
    "far c ?a t6 0 (compile_next_handler r)" "keeps_code (unat ?a) (unat ?a + 8) (code r) c"
    using backToDispatcher_spec [OF f s] by blast
  consider "\<not> cfg_link cfg" | "cfg_link cfg" "\<not> blockExists r T" | "cfg_link cfg" "blockExists r T" by blast
  then show ?thesis
  proof cases
    case 1
    then show ?thesis
      using c by (intro exI [of _ "r\<lparr>code := c\<rparr>"])
        (auto simp: jumpAndLink_def linked_def intro!: exI [of _ c] exI [of _ "pending_links (?m T)"])
  next
    case 2
    let ?r = "r\<lparr>code := c, block_metadata := ?m(T := ?m T\<lparr>pending_links := pending_links (?m T) @ [?a]\<rparr>)\<rparr>"
    show ?thesis
      using 2 c by (intro exI [of _ ?r])
        (auto simp: jumpAndLink_def linked_def set_meta_def Let_def intro!: exI [of _ c] exI [of _ "pending_links (?m T) @ [?a]"])
  next
    case 3
    let ?t = "address (?m T)"
    have d: "unat (code_cache r) \<le> unat ?t" "unat ?t \<le> unat (code_cache r) + 2 ^ 26"
      using t 3 by (auto simp: targets_ok_def)
    note reach = in_reach [OF f s d]
    define i j where "i = (if IsValidJTypeImm (?t - ?a - 4) then NOP else AUIPC t4 (hi20 (?t - ?a)))"
      and "j = (if IsValidJTypeImm (?t - ?a - 4) then JAL t5 (?t - ?a - 4) else JALR t5 (lo12 (?t - ?a)) t4)"
    have w: "width i = 4" "width j = 4" by (auto simp: i_def j_def)
    define c where "c = put_code (?a + 4) j (put_code ?a i (code r))"
    have e: "jumpAndLink cfg T r = Some (r\<lparr>code := c, cursor := ?a + 8\<rparr>)"
      using 3 far_lands(2) [OF reach] w by (auto simp: jumpAndLink_def emit_pair c_def i_def j_def Let_def)
    have "pair_at c ?a i j" "keeps_code (unat ?a) (unat ?a + 8) (code r) c"
      using put_pair [OF reach(1) w] by (simp_all add: c_def)
    then show ?thesis
      using 3 e by (intro exI [of _ "r\<lparr>code := c\<rparr>"])
        (auto simp: linked_def i_def j_def direct_def near_def far_def split: if_splits
          intro!: exI [of _ c] exI [of _ "pending_links (?m T)"])
  qed
qed

lemma link_at_spec:
  assumes f: "frame P r" and s: "spot r a" and t: "targets_ok r"
  shows "\<exists>r'. link_at cfg a T r = Some r' \<and> linked cfg T a r r'"
proof -
  let ?r = "r\<lparr>cursor := a\<rparr>"
  have "frame P ?r" "spot ?r (cursor ?r)" "targets_ok ?r"
    using assms by (simp_all add: frame_def spot_def targets_ok_def blockExists_def)
  from jumpAndLink_spec [OF this, of cfg T] obtain r' where
    r': "jumpAndLink cfg T ?r = Some (r'\<lparr>cursor := a + 8\<rparr>)" "linked cfg T a ?r r'" by auto
  then have "link_at cfg a T r = Some (r'\<lparr>cursor := cursor r\<rparr>)" by (simp add: link_at_def)
  moreover have "linked cfg T a r (r'\<lparr>cursor := cursor r\<rparr>)"
    using r'(2) by (auto simp: linked_def blockExists_def split: if_splits)
  ultimately show ?thesis by blast
qed

section \<open>The invariant\<close>

definition site_ok :: "cache_config \<Rightarrow> Recompiler \<Rightarrow> (u64 \<times> u64) set \<Rightarrow> u64 \<Rightarrow> u64 \<Rightarrow> bool" where
  "site_ok cfg r H a T \<longleftrightarrow>
     (far (code r) a t6 0 (compile_next_handler r) \<and> (cfg_link cfg \<longrightarrow> a \<in> set (pending_links (block_metadata r T))))
     \<or> (\<exists>s. (T, s) \<in> H \<and> direct (code r) a s)"

fun piece_ok :: "cache_config \<Rightarrow> Recompiler \<Rightarrow> (u64 \<times> u64) set \<Rightarrow> u64 \<Rightarrow> piece \<Rightarrow> bool" where
  "piece_ok cfg r H a (Op k) \<longleftrightarrow> code r a = Some (Insn k)"
| "piece_ok cfg r H a Undef \<longleftrightarrow> code r a = Some C_UNDEF"
| "piece_ok cfg r H a (Link T) \<longleftrightarrow> site_ok cfg r H a T"
| "piece_ok cfg r H a Back \<longleftrightarrow> far (code r) a t6 0 (compile_next_handler r)"

definition starts :: "Recompiler \<Rightarrow> (u64 \<times> u64) set" where
  "starts r = (\<lambda>v. (v_guest v, v_start v)) ` set (history r)"

definition placed :: "version \<Rightarrow> (u64 \<times> piece) list" where
  "placed v = place (v_start v) (pieces (v_insns v))"

text \<open>A translation starts with two ordinary instructions and does not end with them: the patch
  overwrites no link, and the instruction after the patch is still inside the block.\<close>

definition roomy :: "insns \<Rightarrow> bool" where
  "roomy is \<longleftrightarrow> (case pieces is of Op _ # Op _ # _ # _ \<Rightarrow> True | _ \<Rightarrow> False)"

definition valid_rip :: "cache_config \<Rightarrow> u64 \<Rightarrow> bool" where
  "valid_rip cfg g \<longleftrightarrow> g \<noteq> 0 \<and> unat g < 2 ^ 47 \<and> (cfg_mode32 cfg \<longrightarrow> unat g < 2 ^ 32)"

definition version_ok :: "cache_config \<Rightarrow> Recompiler \<Rightarrow> version \<Rightarrow> bool" where
  "version_ok cfg r v \<longleftrightarrow> roomy (v_insns v) \<and> even (unat (v_start v))
     \<and> unat (start_of_code_cache r) \<le> unat (v_start v)
     \<and> unat (v_end v) = unat (v_start v) + psizes (pieces (v_insns v))
     \<and> unat (v_end v) \<le> unat (cursor r)
     \<and> valid_rip cfg (v_guest v)
     \<and> guest_address (block_metadata r (v_guest v)) = v_guest v"

definition tail_ok :: "cache_config \<Rightarrow> Recompiler \<Rightarrow> (u64 \<times> u64) set \<Rightarrow> version \<Rightarrow> bool" where
  "tail_ok cfg r H v \<longleftrightarrow> (\<forall>(a, p) \<in> set (placed v). unat (v_start v) + 8 \<le> unat a \<longrightarrow> piece_ok cfg r H a p)"

definition head_ok :: "cache_config \<Rightarrow> Recompiler \<Rightarrow> (u64 \<times> u64) set \<Rightarrow> version \<Rightarrow> bool" where
  "head_ok cfg r H v \<longleftrightarrow> (\<forall>(a, p) \<in> set (placed v). unat a < unat (v_start v) + 8 \<longrightarrow> piece_ok cfg r H a p)"

definition patched :: "Recompiler \<Rightarrow> version \<Rightarrow> bool" where
  "patched r v \<longleftrightarrow> far (code r) (v_start v) t4 t6 (invalidate_caller_thunk r)"

definition guest_pages :: "u64 \<Rightarrow> insns \<Rightarrow> u64 set" where
  "guest_pages g is = set (pages_between (page_of g) (page_of (g + of_nat (guest_length is) - 1)))"

definition current :: "cache_config \<Rightarrow> block_plan \<Rightarrow> guest_memory \<Rightarrow> (u64 \<Rightarrow> bool) \<Rightarrow> Recompiler \<Rightarrow> version \<Rightarrow> bool" where
  "current cfg plan m w r v \<longleftrightarrow> head_ok cfg r (starts r) v
     \<and> address (block_metadata r (v_guest v)) = v_start v
     \<and> plan m (v_guest v) = v_insns v
     \<and> (\<forall>p \<in> guest_pages (v_guest v) (v_insns v). \<not> w p \<and> v_guest v \<in> set (page_blocks r p))"

definition entry_ok :: "cache_config \<Rightarrow> Recompiler \<Rightarrow> u64 \<Rightarrow> bool" where
  "entry_ok cfg r k \<longleftrightarrow> address_cache r k = empty_entry
     \<or> (cfg_address_cache cfg \<and> cache_index (guest (address_cache r k)) = k \<and> host (address_cache r k) \<noteq> 0
        \<and> host (address_cache r k) = address (block_metadata r (guest (address_cache r k))))"

text \<open>\<open>X\<close> holds a block that is listed in a page although the thunk has just unlinked it.\<close>

definition cache_inv :: "cache_config \<Rightarrow> prologue \<Rightarrow> block_plan \<Rightarrow> guest_memory \<Rightarrow> (u64 \<Rightarrow> bool) \<Rightarrow> u64 set \<Rightarrow> Recompiler \<Rightarrow> bool" where
  "cache_inv cfg P plan m w X r \<longleftrightarrow>
     frame P r \<and> unat (start_of_code_cache r) \<le> unat (cursor r) \<and> unat (cursor r) \<le> unat (code_cache r) + 2 ^ 26 \<and> even (unat (cursor r))
     \<and> (\<forall>v \<in> set (history r). version_ok cfg r v \<and> tail_ok cfg r (starts r) v \<and> (patched r v \<or> current cfg plan m w r v))
     \<and> sorted_wrt (\<lambda>v u. unat (v_end u) \<le> unat (v_start v)) (history r)
     \<and> (\<forall>g. blockExists r g \<longrightarrow> (\<exists>v \<in> set (history r). v_guest v = g \<and> v_start v = address (block_metadata r g) \<and> v_end v = address_end (block_metadata r g)))
     \<and> (\<forall>T. \<forall>a \<in> set (pending_links (block_metadata r T)). \<exists>v \<in> set (history r). (a, Link T) \<in> set (placed v))
     \<and> (\<forall>k. entry_ok cfg r k)
     \<and> sorted_wrt (<) (map fst (host_pc_map r))
     \<and> set (host_pc_map r) = (\<lambda>v. (v_end v - 1, v_guest v)) ` set (history r)
     \<and> sorted_wrt (<) (map fst (page_map r))
     \<and> (\<forall>(p, gs) \<in> set (page_map r). \<forall>g \<in> set gs. blockExists r g \<or> g \<in> X)"

lemma cache_invD:
  assumes "cache_inv cfg P plan m w X r"
  shows "frame P r" "unat (start_of_code_cache r) \<le> unat (cursor r)" "unat (cursor r) \<le> unat (code_cache r) + 2 ^ 26" "even (unat (cursor r))"
    "v \<in> set (history r) \<Longrightarrow> version_ok cfg r v" "v \<in> set (history r) \<Longrightarrow> tail_ok cfg r (starts r) v"
    "v \<in> set (history r) \<Longrightarrow> patched r v \<or> current cfg plan m w r v"
    "sorted_wrt (\<lambda>v u. unat (v_end u) \<le> unat (v_start v)) (history r)"
    "blockExists r g \<Longrightarrow> \<exists>v \<in> set (history r). v_guest v = g \<and> v_start v = address (block_metadata r g) \<and> v_end v = address_end (block_metadata r g)"
    "a \<in> set (pending_links (block_metadata r T)) \<Longrightarrow> \<exists>v \<in> set (history r). (a, Link T) \<in> set (placed v)"
    "entry_ok cfg r k" "sorted_wrt (<) (map fst (host_pc_map r))"
    "set (host_pc_map r) = (\<lambda>v. (v_end v - 1, v_guest v)) ` set (history r)" "sorted_wrt (<) (map fst (page_map r))"
    "(p, gs) \<in> set (page_map r) \<Longrightarrow> h \<in> set gs \<Longrightarrow> blockExists r h \<or> h \<in> X"
  using assms unfolding cache_inv_def by blast+

lemma roomy_pieces: "roomy is \<Longrightarrow> \<exists>k k' p ps. pieces is = Op k # Op k' # p # ps"
  by (auto simp: roomy_def split: list.splits piece.splits)

lemma roomy_size: "roomy is \<Longrightarrow> 10 \<le> psizes (pieces is)"
proof -
  assume "roomy is"
  then obtain k k' p ps where "pieces is = Op k # Op k' # p # ps" using roomy_pieces by blast
  then show ?thesis using psize_bounds(1) [of p] by simp
qed

text \<open>A placed piece of a recorded version.\<close>

lemma placed_facts:
  assumes inv: "cache_inv cfg P plan m w X r" and v: "v \<in> set (history r)"
  shows "unat (v_start v) + psizes (pieces (v_insns v)) < 2 ^ 63" "10 \<le> psizes (pieces (v_insns v))"
    "spot r (v_start v)"
    "(a, p) \<in> set (placed v) \<Longrightarrow> unat (v_start v) \<le> unat a \<and> unat a + psize p \<le> unat (v_end v) \<and> even (unat a) \<and> unat a < 2 ^ 62"
    "(a, p) \<in> set (placed v) \<Longrightarrow> psize p = 8 \<Longrightarrow> spot r a \<and> unat (v_start v) + 8 \<le> unat a"
proof -
  have ok: "version_ok cfg r v" and c: "unat (cursor r) \<le> unat (code_cache r) + 2 ^ 26"
    and b: "unat (code_cache r) < 2 ^ 61"
    using cache_invD(5) [OF inv v] cache_invD(3,1) [OF inv] by (simp_all add: frame_def)
  show lt: "unat (v_start v) + psizes (pieces (v_insns v)) < 2 ^ 63" and size: "10 \<le> psizes (pieces (v_insns v))"
    using ok c b roomy_size by (auto simp: version_ok_def)
  then show "spot r (v_start v)" using ok c by (simp add: version_ok_def spot_def)
  show *: "unat (v_start v) \<le> unat a \<and> unat a + psize p \<le> unat (v_end v) \<and> even (unat a) \<and> unat a < 2 ^ 62"
    if "(a, p) \<in> set (placed v)" for a p
    using place_bounds [OF that [unfolded placed_def] lt] ok c b psize_bounds(1) [of p] by (auto simp: version_ok_def)
  show "spot r a \<and> unat (v_start v) + 8 \<le> unat a" if a: "(a, p) \<in> set (placed v)" "psize p = 8"
  proof -
    obtain k k' q qs where ps: "pieces (v_insns v) = Op k # Op k' # q # qs"
      using ok roomy_pieces unfolding version_ok_def by blast
    have "unat (v_start v + 4 + 4) = unat (v_start v) + 8" using lt size unat_step [of "v_start v" 8] by (simp add: add.assoc)
    moreover have "(a, p) \<in> set (place (v_start v + 4 + 4) (q # qs))"
      using a ps by (auto simp: placed_def)
    ultimately have "unat (v_start v) + 8 \<le> unat a"
      using place_bounds [of a p "v_start v + 4 + 4" "q # qs"] lt ps by auto
    then show ?thesis using * [OF a(1)] ok c a(2) by (auto simp: spot_def version_ok_def)
  qed
qed

lemma head_piece:
  assumes inv: "cache_inv cfg P plan m w X r" and v: "v \<in> set (history r)"
    and b: "(b, p) \<in> set (placed v)" "unat b < unat (v_start v) + 8"
  shows "\<exists>k. p = Op k \<and> (b = v_start v \<or> b = v_start v + 4) \<and> unat b + psize p \<le> unat (v_start v) + 8"
proof -
  note sp = placed_facts [OF inv v]
  obtain k1 k2 q qs where ps: "pieces (v_insns v) = Op k1 # Op k2 # q # qs"
    using cache_invD(5) [OF inv v] roomy_pieces unfolding version_ok_def by blast
  have s8: "unat (v_start v + 4 + 4) = unat (v_start v) + 8" "unat (v_start v + 4) = unat (v_start v) + 4"
    using sp(1,2) unat_step [of "v_start v" 8] unat_step [of "v_start v" 4] by (simp_all add: add.assoc)
  have "(b, p) \<notin> set (place (v_start v + 4 + 4) (q # qs))"
    using place_bounds [of b p "v_start v + 4 + 4" "q # qs"] sp(1) ps s8 b(2) by auto
  then have "(b, p) = (v_start v, Op k1) \<or> (b, p) = (v_start v + 4, Op k2)"
    using b(1) ps by (auto simp: placed_def)
  then show ?thesis using s8 by auto
qed

lemma versions_apart:
  assumes "sorted_wrt (\<lambda>v u. unat (v_end u) \<le> unat (v_start v)) vs" "v \<in> set vs" "u \<in> set vs" "u \<noteq> v"
  shows "unat (v_end u) \<le> unat (v_start v) \<or> unat (v_end v) \<le> unat (v_start u)"
  using assms by (induction vs) auto

lemma pieces_apart:
  assumes inv: "cache_inv cfg P plan m w X r" and v: "v \<in> set (history r)" "(a, p) \<in> set (placed v)"
    and u: "u \<in> set (history r)" "(b, q) \<in> set (placed u)"
  shows "(a = b \<and> p = q) \<or> unat a + psize p \<le> unat b \<or> unat b + psize q \<le> unat a"
proof (cases "u = v")
  case True
  then show ?thesis using place_disjoint placed_facts(1) [OF inv v(1)] v(2) u(2) unfolding placed_def by blast
next
  case False
  then show ?thesis
    using versions_apart [OF cache_invD(8) [OF inv] v(1) u(1)] placed_facts(4) [OF inv v] placed_facts(4) [OF inv u] by auto
qed

section \<open>Rewriting code\<close>

lemma piece_ok_same:
  assumes "code r' = code r" "compile_next_handler r' = compile_next_handler r"
    "\<And>T. pending_links (block_metadata r' T) = pending_links (block_metadata r T)"
  shows "piece_ok cfg r' H a p = piece_ok cfg r H a p"
  by (cases p) (simp_all add: site_ok_def assms)

lemma piece_keeps:
  assumes p: "piece_ok cfg r H a p" and k: "keeps_code lo hi (code r) (code r')"
    and a: "unat a < 2 ^ 62" "unat a + psize p \<le> lo \<or> hi \<le> unat a"
    and same: "compile_next_handler r' = compile_next_handler r"
      "\<And>T. set (pending_links (block_metadata r T)) \<subseteq> set (pending_links (block_metadata r' T))"
  shows "piece_ok cfg r' H a p"
proof (cases p)
  case (Link T)
  then show ?thesis
    using p a same(1) same(2) [of T] jump_keeps [OF k a(1)] by (auto simp: site_ok_def)
next
  case Back
  then show ?thesis using p a same(1) jump_keeps [OF k a(1)] by auto
qed (use p a keeps_codeD [OF k] in auto)

text \<open>Code between \<open>lo\<close> and \<open>hi\<close> and the pending links of one block change.\<close>

lemma cache_inv_rewrite:
  assumes inv: "cache_inv cfg P plan m w X r"
    and r': "r' = r\<lparr>code := c, block_metadata := (block_metadata r)(T := (block_metadata r T)\<lparr>pending_links := ls\<rparr>)\<rparr>"
    and k: "keeps_code lo hi (code r) c"
    and tails: "\<And>v a p. v \<in> set (history r) \<Longrightarrow> (a, p) \<in> set (placed v) \<Longrightarrow> unat (v_start v) + 8 \<le> unat a
      \<Longrightarrow> unat a + psize p \<le> lo \<or> hi \<le> unat a \<or> piece_ok cfg r' (starts r) a p"
    and heads: "\<And>v. v \<in> set (history r) \<Longrightarrow> unat (v_start v) + 8 \<le> lo \<or> hi \<le> unat (v_start v) \<or> patched r' v"
    and ls: "set (pending_links (block_metadata r T)) \<subseteq> set ls"
      "\<And>a. a \<in> set ls \<Longrightarrow> \<exists>v \<in> set (history r). (a, Link T) \<in> set (placed v)"
  shows "cache_inv cfg P plan m w X r'"
proof -
  have same [simp]: "history r' = history r" "code r' = c" "compile_next_handler r' = compile_next_handler r"
    "invalidate_caller_thunk r' = invalidate_caller_thunk r" "starts r' = starts r" "cursor r' = cursor r"
    "start_of_code_cache r' = start_of_code_cache r" "code_cache r' = code_cache r"
    "host_pc_map r' = host_pc_map r" "page_map r' = page_map r" "address_cache r' = address_cache r"
    "page_blocks r' = page_blocks r"
    by (simp_all add: r' starts_def page_blocks_def fun_eq_iff)
  have meta [simp]: "address (block_metadata r' g) = address (block_metadata r g)"
    "address_end (block_metadata r' g) = address_end (block_metadata r g)"
    "guest_address (block_metadata r' g) = guest_address (block_metadata r g)" "blockExists r' g = blockExists r g" for g
    by (simp_all add: r' blockExists_def)
  have pend: "set (pending_links (block_metadata r g)) \<subseteq> set (pending_links (block_metadata r' g))" for g
    using ls(1) by (simp add: r')
  have keep: "piece_ok cfg r' (starts r) a p"
    if "piece_ok cfg r (starts r) a p" "unat a < 2 ^ 62" "unat a + psize p \<le> lo \<or> hi \<le> unat a" for a p
    by (rule piece_keeps [OF that(1) _ that(2,3)]) (use k pend in simp_all)
  have version: "version_ok cfg r' v \<and> tail_ok cfg r' (starts r) v \<and> (patched r' v \<or> current cfg plan m w r' v)"
    if v: "v \<in> set (history r)" for v
  proof (intro conjI)
    note sp = placed_facts [OF inv v]
    have a: "unat (v_start v) < 2 ^ 62" by (rule spot_facts(1) [OF cache_invD(1) [OF inv] sp(3)])
    show "version_ok cfg r' v" using cache_invD(5) [OF inv v] by (simp add: version_ok_def)
    show "tail_ok cfg r' (starts r) v"
      using cache_invD(6) [OF inv v] tails [OF v] keep sp(4) unfolding tail_ok_def by blast
    show "patched r' v \<or> current cfg plan m w r' v"
    proof (cases "unat (v_start v) + 8 \<le> lo \<or> hi \<le> unat (v_start v)")
      case True
      have "patched r v \<Longrightarrow> patched r' v"
        unfolding patched_def using jump_keeps(1) [OF _ a True] k by simp
      moreover have "current cfg plan m w r' v" if cur: "current cfg plan m w r v"
      proof -
        have "piece_ok cfg r' (starts r) b p" if b: "(b, p) \<in> set (placed v)" "unat b < unat (v_start v) + 8" for b p
        proof (rule keep)
          show "piece_ok cfg r (starts r) b p" using cur b by (auto simp: current_def head_ok_def)
          show "unat b < 2 ^ 62" using sp(4) [OF b(1)] by blast
          show "unat b + psize p \<le> lo \<or> hi \<le> unat b" using head_piece [OF inv v b] True sp(4) [OF b(1)] by auto
        qed
        then show ?thesis using cur by (auto simp: current_def head_ok_def)
      qed
      ultimately show ?thesis using cache_invD(7) [OF inv v] by blast
    next
      case False
      then show ?thesis using heads [OF v] by blast
    qed
  qed
  have pending: "\<exists>v \<in> set (history r). (a, Link g) \<in> set (placed v)" if "a \<in> set (pending_links (block_metadata r' g))" for a g
    using that cache_invD(10) [OF inv, of a g] ls(2) [of a] by (cases "g = T") (auto simp: r')
  have "\<forall>k. entry_ok cfg r' k" using cache_invD(11) [OF inv] by (simp add: entry_ok_def)
  moreover have "frame P r'" using cache_invD(1) [OF inv] by (simp add: frame_def)
  ultimately show ?thesis
    using inv version pending unfolding cache_inv_def by simp
qed

section \<open>Invalidation\<close>

lemma version_of:
  assumes inv: "cache_inv cfg P plan m w X r" and g: "blockExists r g"
  obtains v where "v \<in> set (history r)" "v_guest v = g" "v_start v = address (block_metadata r g)"
    "v_end v = address_end (block_metadata r g)"
  using cache_invD(9) [OF inv g] by blast

lemma same_start:
  assumes inv: "cache_inv cfg P plan m w X r" and "v \<in> set (history r)" "u \<in> set (history r)" "v_start u = v_start v"
  shows "u = v"
  using versions_apart [OF cache_invD(8) [OF inv], of v u] assms placed_facts(2) [OF inv] cache_invD(5) [OF inv]
  by (fastforce simp: version_ok_def)

lemma invalidateBlock_inv:
  assumes inv: "cache_inv cfg P plan m w X r" and g: "blockExists r g"
  shows "\<exists>r'. invalidateBlock g r = Some r' \<and> cache_inv cfg P plan m w X r' \<and> (\<exists>c. r' = r\<lparr>code := c\<rparr>)
    \<and> (\<forall>v \<in> set (history r). patched r v \<or> v_start v = address (block_metadata r g) \<longrightarrow> patched r' v)"
proof -
  obtain v where v: "v \<in> set (history r)" "v_start v = address (block_metadata r g)"
    using version_of [OF inv g] by blast
  let ?a = "v_start v" and ?t = "invalidate_caller_thunk r"
  define c where "c = put_code (?a + 4) (JALR t6 (lo12 (?t - ?a)) t4) (put_code ?a (AUIPC t4 (hi20 (?t - ?a))) (code r))"
  let ?r = "r\<lparr>code := c\<rparr>"
  note f = cache_invD(1) [OF inv] and sp = placed_facts(3) [OF inv v(1)]
  have k: "keeps_code (unat ?a) (unat ?a + 8) (code r) c" and p: "patched ?r v"
    using put_pair [OF spot_facts(1) [OF f sp], of "AUIPC t4 (hi20 (?t - ?a))" "JALR t6 (lo12 (?t - ?a)) t4"]
    by (simp_all add: c_def patched_def far_def)
  have apart: "unat (v_start u) + 8 \<le> unat ?a \<or> unat ?a + 8 \<le> unat (v_start u)" if "u \<in> set (history r)" "u \<noteq> v" for u
    using versions_apart [OF cache_invD(8) [OF inv] v(1) that] cache_invD(5) [OF inv that(1)] cache_invD(5) [OF inv v(1)]
      placed_facts(2) [OF inv that(1)] placed_facts(2) [OF inv v(1)] by (auto simp: version_ok_def)
  have "cache_inv cfg P plan m w X ?r"
  proof (rule cache_inv_rewrite [OF inv _ k, where T = g and ls = "pending_links (block_metadata r g)"])
    fix u a q
    assume u: "u \<in> set (history r)" "(a, q) \<in> set (placed u)" "unat (v_start u) + 8 \<le> unat a"
    show "unat a + psize q \<le> unat ?a \<or> unat ?a + 8 \<le> unat a \<or> piece_ok cfg ?r (starts r) a q"
    proof (cases "u = v")
      case False
      then show ?thesis
        using versions_apart [OF cache_invD(8) [OF inv] v(1) u(1)] placed_facts(4) [OF inv u(1,2)]
          placed_facts(2) [OF inv v(1)] cache_invD(5) [OF inv v(1)] by (auto simp: version_ok_def)
    qed (use u(3) in simp)
  next
    show "unat (v_start u) + 8 \<le> unat ?a \<or> unat ?a + 8 \<le> unat (v_start u) \<or> patched ?r u" if "u \<in> set (history r)" for u
      using apart [OF that] p by (cases "u = v") auto
  qed (use cache_invD(10) [OF inv] in auto)
  moreover have "invalidateBlock g r = Some ?r"
    using g v(2) by (simp add: invalidateBlock_def c_def blockExists_def Let_def)
  moreover have "patched ?r u" if u: "u \<in> set (history r)" "patched r u \<or> v_start u = address (block_metadata r g)" for u
  proof (cases "u = v")
    case False
    then have "patched r u" using u same_start [OF inv v(1) u(1)] v(2) by auto
    moreover have "unat (v_start u) < 2 ^ 62" by (rule spot_facts(1) [OF f placed_facts(3) [OF inv u(1)]])
    ultimately show ?thesis
      using jump_keeps(1) [OF k _ apart [OF u(1) False]] by (simp add: patched_def)
  qed (use p in simp)
  ultimately show ?thesis by blast
qed

lemma invalidate_all_inv:
  assumes "cache_inv cfg P plan m w X r" "\<forall>g \<in> set gs. blockExists r g"
  shows "\<exists>r'. invalidate_all gs r = Some r' \<and> cache_inv cfg P plan m w X r' \<and> (\<exists>c. r' = r\<lparr>code := c\<rparr>)
    \<and> (\<forall>v \<in> set (history r). patched r v \<or> v_start v \<in> (\<lambda>g. address (block_metadata r g)) ` set gs \<longrightarrow> patched r' v)"
  using assms
proof (induction gs arbitrary: r)
  case Nil
  then show ?case by (auto intro: exI [of _ "code r"])
next
  case (Cons g gs)
  obtain r1 c1 where r1: "invalidateBlock g r = Some r1" "cache_inv cfg P plan m w X r1" "r1 = r\<lparr>code := c1\<rparr>"
    "\<forall>v \<in> set (history r). patched r v \<or> v_start v = address (block_metadata r g) \<longrightarrow> patched r1 v"
    using invalidateBlock_inv [OF Cons.prems(1), of g] Cons.prems(2) by auto
  have "\<forall>h \<in> set gs. blockExists r1 h" using Cons.prems(2) r1(3) by (simp add: blockExists_def)
  from Cons.IH [OF r1(2) this] obtain r' c where r': "invalidate_all gs r1 = Some r'" "cache_inv cfg P plan m w X r'"
    "r' = r1\<lparr>code := c\<rparr>"
    "\<forall>v \<in> set (history r1). patched r1 v \<or> v_start v \<in> (\<lambda>g. address (block_metadata r1 g)) ` set gs \<longrightarrow> patched r' v"
    by blast
  show ?case
    using r1 r' by (intro exI [of _ r']) auto
qed

lemma map_of_cleared:
  "map_of (map (\<lambda>(p, gs). (p, if f p then [] else gs)) pm) p = map_option (\<lambda>gs. if f p then [] else gs) (map_of pm p)"
  by (induction pm) auto

lemma page_listed: "g \<in> set (page_blocks r p) \<Longrightarrow> \<exists>gs. (p, gs) \<in> set (page_map r) \<and> g \<in> set gs"
  by (cases "map_of (page_map r) p") (auto simp: page_blocks_def dest: map_of_SomeD)

text \<open>After \<open>invalidateRange\<close> no current translation was read from a page of the range, so those
  pages may become writable and their contents may change.\<close>

lemma invalidateRange_inv:
  assumes inv: "cache_inv cfg P plan m w {} r"
  shows "\<exists>r'. invalidateRange lo hi r = Some r' \<and> cache_inv cfg P plan m w {} r'
    \<and> (\<forall>v \<in> set (history r'). current cfg plan m w r' v \<longrightarrow>
        (\<forall>p \<in> guest_pages (v_guest v) (v_insns v). \<not> (lo \<le> p \<and> p \<le> hi - 1)))"
proof -
  let ?in = "\<lambda>p. lo \<le> p \<and> p \<le> hi - 1"
  let ?gs = "concat (map snd (filter (\<lambda>e. ?in (fst e)) (page_map r)))"
  have "\<forall>g \<in> set ?gs. blockExists r g" using cache_invD(15) [OF inv] by auto
  from invalidate_all_inv [OF inv this] obtain r1 c where r1: "invalidate_all ?gs r = Some r1" "cache_inv cfg P plan m w {} r1"
    "r1 = r\<lparr>code := c\<rparr>"
    "\<forall>v \<in> set (history r). patched r v \<or> v_start v \<in> (\<lambda>g. address (block_metadata r g)) ` set ?gs \<longrightarrow> patched r1 v"
    by blast
  define pm where "pm = map (\<lambda>(p, gs). (p, if ?in p then [] else gs)) (page_map r)"
  let ?r = "r1\<lparr>page_map := pm\<rparr>"
  have e: "invalidateRange lo hi r = Some ?r" using r1(1,3) by (simp add: invalidateRange_def pm_def Let_def)
  have blocks: "page_blocks ?r p = (if ?in p then [] else page_blocks r1 p)" for p
    by (simp add: page_blocks_def pm_def map_of_cleared r1(3) split: option.split)
  have [simp]: "piece_ok cfg ?r H a p = piece_ok cfg r1 H a p" for H a p by (rule piece_ok_same) simp_all
  have [simp]: "starts ?r = starts r1" "blockExists ?r = blockExists r1" "patched ?r v = patched r1 v"
    "head_ok cfg ?r H v = head_ok cfg r1 H v" "tail_ok cfg ?r H v = tail_ok cfg r1 H v"
    "version_ok cfg ?r v = version_ok cfg r1 v" "entry_ok cfg ?r = entry_ok cfg r1" "frame P ?r = frame P r1" for v H
    by (simp_all add: starts_def blockExists_def patched_def fun_eq_iff head_ok_def tail_ok_def
        version_ok_def entry_ok_def frame_def)
  have [simp]: "history r1 = history r" "block_metadata r1 = block_metadata r" "page_blocks r1 = page_blocks r"
    by (simp_all add: r1(3) page_blocks_def fun_eq_iff)
  have patch: "patched r1 v" if v: "v \<in> set (history r)" "address (block_metadata r (v_guest v)) = v_start v"
    "?in p" "v_guest v \<in> set (page_blocks r p)" for v p
  proof -
    obtain gs where "(p, gs) \<in> set (page_map r)" "v_guest v \<in> set gs" using page_listed [OF v(4)] by blast
    then have "v_guest v \<in> set ?gs" using v(3) by (auto intro!: bexI [of _ "(p, gs)"])
    then have "v_start v \<in> (\<lambda>g. address (block_metadata r g)) ` set ?gs"
      using v(2) by (intro image_eqI [of _ _ "v_guest v"]) simp_all
    with r1(4) v(1) show ?thesis by blast
  qed
  have "patched ?r v \<or> current cfg plan m w ?r v" if v: "v \<in> set (history r)" for v
  proof (cases "patched r1 v")
    case False
    then have c: "current cfg plan m w r1 v" using cache_invD(7) [OF r1(2), of v] v by simp
    then have "\<not> ?in p" if "p \<in> guest_pages (v_guest v) (v_insns v)" for p
      using patch [OF v, of p] False that by (auto simp: current_def)
    then show ?thesis using c by (simp add: current_def blocks)
  qed simp
  moreover have "sorted_wrt (<) (map fst pm)" "\<forall>(p, gs) \<in> set pm. \<forall>g \<in> set gs. blockExists r1 g"
    using cache_invD(14,15) [OF r1(2)] r1(3) by (auto simp: pm_def comp_def case_prod_unfold split: if_splits)
  ultimately have "cache_inv cfg P plan m w {} ?r"
    using r1(2) unfolding cache_inv_def by (simp, blast)
  moreover have "\<not> ?in p" if "v \<in> set (history ?r)" "current cfg plan m w ?r v" "p \<in> guest_pages (v_guest v) (v_insns v)" for v p
    using that by (auto simp: current_def blocks)
  ultimately show ?thesis using e by blast
qed

section \<open>Guest memory\<close>

text \<open>What the theorems need of the translator: translations of user code are not too short or too
  long, and depend only on the guest bytes they were read from.\<close>

definition plan_ok :: "cache_config \<Rightarrow> block_plan \<Rightarrow> bool" where
  "plan_ok cfg plan \<longleftrightarrow> (\<forall>m g. valid_rip cfg g \<longrightarrow>
     roomy (plan m g) \<and> psizes (pieces (plan m g)) \<le> 90000
     \<and> 0 < guest_length (plan m g) \<and> guest_length (plan m g) \<le> 2 ^ 47
     \<and> (\<forall>m'. (\<forall>i < guest_length (plan m g). m' (g + of_nat i) = m (g + of_nat i)) \<longrightarrow> plan m' g = plan m g))"

lemma plan_okD:
  assumes "plan_ok cfg plan" "valid_rip cfg g"
  shows "roomy (plan m g)" "psizes (pieces (plan m g)) \<le> 90000" "0 < guest_length (plan m g)" "guest_length (plan m g) \<le> 2 ^ 47"
    "(\<And>i. i < guest_length (plan m g) \<Longrightarrow> m' (g + of_nat i) = m (g + of_nat i)) \<Longrightarrow> plan m' g = plan m g"
  using assms unfolding plan_ok_def by blast+

lemma page_of_nat: "unat (page_of a) = unat a div 4096 * 4096"
  using unat_page_floor [of a] by (simp add: page_of_def)

lemma pages_between_iff:
  assumes pq: "unat p mod 4096 = 0" "unat q mod 4096 = 0" "unat q < 2 ^ 62"
  shows "x \<in> set (pages_between p q) \<longleftrightarrow> unat p \<le> unat x \<and> unat x \<le> unat q \<and> unat x mod 4096 = 0"
proof (cases "p \<le> q")
  case True
  then have le: "unat p \<le> unat q" by (simp add: word_le_nat_alt)
  have u: "unat (p + of_nat i * 0x1000) = unat p + i * 4096" if "i \<le> (unat q - unat p) div 4096" for i
  proof -
    have "i * 4096 \<le> unat q - unat p" using that by (simp add: less_eq_div_iff_mult_less_eq)
    then have "unat p + i * 4096 < 2 ^ 63" using le pq(3) by simp
    then show ?thesis using unat_step [of p "i * 4096"] by simp
  qed
  have "set (pages_between p q) = (\<lambda>i. p + of_nat i * 0x1000) ` {..(unat q - unat p) div 4096}"
    using True le by (simp only: pages_between_def if_True set_map set_upt atLeast0LessThan lessThan_Suc_atMost unat_minus_small)
  then have "x \<in> set (pages_between p q) \<longleftrightarrow> (\<exists>i \<le> (unat q - unat p) div 4096. x = p + of_nat i * 0x1000)"
    by blast
  also have "\<dots> \<longleftrightarrow> (\<exists>i \<le> (unat q - unat p) div 4096. unat x = unat p + i * 4096)"
    using u by (auto simp: unat_eq_u64)
  also have "\<dots> \<longleftrightarrow> unat p \<le> unat x \<and> unat x \<le> unat q \<and> unat x mod 4096 = 0"
  proof
    assume "\<exists>i \<le> (unat q - unat p) div 4096. unat x = unat p + i * 4096"
    then show "unat p \<le> unat x \<and> unat x \<le> unat q \<and> unat x mod 4096 = 0"
      using le pq by (auto simp: less_eq_div_iff_mult_less_eq)
  next
    assume x: "unat p \<le> unat x \<and> unat x \<le> unat q \<and> unat x mod 4096 = 0"
    then show "\<exists>i \<le> (unat q - unat p) div 4096. unat x = unat p + i * 4096"
      using pq by (intro exI [of _ "(unat x - unat p) div 4096"]) (auto simp: div_le_mono mod_eq_0_iff_dvd dvd_diff_nat)
  qed
  finally show ?thesis .
next
  case False
  then show ?thesis by (auto simp: pages_between_def word_le_nat_alt)
qed

lemma guest_pages_iff:
  assumes "unat g < 2 ^ 47" "0 < guest_length is" "guest_length is \<le> 2 ^ 47"
  shows "x \<in> guest_pages g is \<longleftrightarrow> unat x mod 4096 = 0 \<and> unat g div 4096 * 4096 \<le> unat x
    \<and> unat x \<le> (unat g + guest_length is - 1) div 4096 * 4096"
proof -
  have e: "unat (g + of_nat (guest_length is)) = unat g + guest_length is" using assms by (intro unat_step) simp
  have u: "unat (g + of_nat (guest_length is) - 1) = unat g + guest_length is - 1"
    using assms(2) e unat_minus_small [of 1 "g + of_nat (guest_length is)"] by simp
  have "(unat g + guest_length is - 1) div 4096 * 4096 \<le> unat g + guest_length is"
    by (rule order_trans [OF div_times_less_eq_dividend]) simp
  then have "(unat g + guest_length is - 1) div 4096 * 4096 < 2 ^ 62" using assms by simp
  then show ?thesis
    unfolding guest_pages_def by (subst pages_between_iff) (auto simp: page_of_nat u)
qed

lemma page_covered:
  assumes "unat g < 2 ^ 47" "guest_length is \<le> 2 ^ 47" "i < guest_length is"
  shows "page_of (g + of_nat i) \<in> guest_pages g is"
proof -
  have "unat (g + of_nat i) = unat g + i" using assms by (intro unat_step) simp
  then show ?thesis
    using assms by (subst guest_pages_iff) (auto simp: page_of_nat div_le_mono)
qed

text \<open>Pages without a current translation may become writable and change.\<close>

lemma cache_inv_change:
  assumes inv: "cache_inv cfg P plan m w {} r" and plan: "plan_ok cfg plan"
    and free: "\<And>v p. v \<in> set (history r) \<Longrightarrow> current cfg plan m w r v \<Longrightarrow> p \<in> guest_pages (v_guest v) (v_insns v) \<Longrightarrow> \<not> w' p"
    and mem: "\<And>v a. v \<in> set (history r) \<Longrightarrow> current cfg plan m w r v \<Longrightarrow> page_of a \<in> guest_pages (v_guest v) (v_insns v) \<Longrightarrow> m' a = m a"
  shows "cache_inv cfg P plan m' w' {} r"
proof -
  have "current cfg plan m' w' r v" if v: "v \<in> set (history r)" and c: "current cfg plan m w r v" for v
  proof -
    have g: "valid_rip cfg (v_guest v)" using cache_invD(5) [OF inv v] by (simp add: version_ok_def)
    have p: "plan m (v_guest v) = v_insns v" using c by (simp add: current_def)
    have "plan m' (v_guest v) = plan m (v_guest v)"
    proof (rule plan_okD(5) [OF plan g])
      fix i assume "i < guest_length (plan m (v_guest v))"
      then show "m' (v_guest v + of_nat i) = m (v_guest v + of_nat i)"
        using g p plan_okD(4) [OF plan g, of m] by (intro mem [OF v c] page_covered) (simp_all add: valid_rip_def)
    qed
    then show ?thesis using c p free [OF v c] by (auto simp: current_def)
  qed
  then show ?thesis using inv unfolding cache_inv_def by blast
qed

section \<open>Linking\<close>

lemma cache_inv_targets:
  assumes inv: "cache_inv cfg P plan m w X r"
  shows "targets_ok r"
  unfolding targets_ok_def
proof (intro allI impI)
  fix T assume "blockExists r T"
  then obtain v where "v \<in> set (history r)" "v_start v = address (block_metadata r T)"
    using version_of [OF inv] by blast
  then have "spot r (address (block_metadata r T))" using placed_facts(3) [OF inv] by metis
  then show "unat (code_cache r) \<le> unat (address (block_metadata r T)) \<and> unat (address (block_metadata r T)) \<le> unat (code_cache r) + 2 ^ 26"
    using frame_nat(3) [OF cache_invD(1) [OF inv]] by (simp add: spot_def)
qed

lemma current_start:
  assumes "cache_inv cfg P plan m w X r" "blockExists r g"
  shows "(g, address (block_metadata r g)) \<in> starts r"
proof -
  obtain v where "v \<in> set (history r)" "v_guest v = g" "v_start v = address (block_metadata r g)"
    using version_of [OF assms] by blast
  then show ?thesis unfolding starts_def by (intro image_eqI [of _ _ v]) simp_all
qed

lemma linked_inv:
  assumes inv: "cache_inv cfg P plan m w X r" and v: "v \<in> set (history r)" "(a, Link T) \<in> set (placed v)"
    and l: "linked cfg T a r r'"
  shows "cache_inv cfg P plan m w X r'"
proof -
  from l obtain c ls where
    r': "r' = r\<lparr>code := c, block_metadata := (block_metadata r)(T := (block_metadata r T)\<lparr>pending_links := ls\<rparr>)\<rparr>"
    and k: "keeps_code (unat a) (unat a + 8) (code r) c"
    and how: "if cfg_link cfg \<and> blockExists r T
        then ls = pending_links (block_metadata r T) \<and> direct c a (address (block_metadata r T))
        else far c a t6 0 (compile_next_handler r) \<and> ls = pending_links (block_metadata r T) @ (if cfg_link cfg then [a] else [])"
    unfolding linked_def by blast
  have site: "piece_ok cfg r' (starts r) a (Link T)"
  proof (cases "cfg_link cfg \<and> blockExists r T")
    case True
    then have "(T, address (block_metadata r T)) \<in> starts r" using current_start [OF inv] by blast
    then show ?thesis using True how by (auto simp: r' site_ok_def)
  next
    case False
    then show ?thesis using how by (auto simp: r' site_ok_def split: if_splits)
  qed
  show ?thesis
  proof (rule cache_inv_rewrite [OF inv r' k])
    fix u b p
    assume u: "u \<in> set (history r)" "(b, p) \<in> set (placed u)"
    show "unat b + psize p \<le> unat a \<or> unat a + 8 \<le> unat b \<or> piece_ok cfg r' (starts r) b p"
      using pieces_apart [OF inv u v] site by auto
  next
    fix u assume u: "u \<in> set (history r)"
    have "unat (v_start v) + 8 \<le> unat a" "unat a + 8 \<le> unat (v_end v)"
      using placed_facts(4,5) [OF inv v(1)] v(2) by fastforce+
    then show "unat (v_start u) + 8 \<le> unat a \<or> unat a + 8 \<le> unat (v_start u) \<or> patched r' u"
      using versions_apart [OF cache_invD(8) [OF inv] v(1) u] cache_invD(5) [OF inv u] placed_facts(2) [OF inv u]
      by (cases "u = v") (auto simp: version_ok_def)
  next
    show "set (pending_links (block_metadata r T)) \<subseteq> set ls" using how by (auto split: if_splits)
    show "\<exists>v \<in> set (history r). (b, Link T) \<in> set (placed v)" if "b \<in> set ls" for b
      using that how v cache_invD(10) [OF inv, of b T] by (auto split: if_splits)
  qed
qed

lemma linked_head:
  assumes inv: "cache_inv cfg P plan m w X r" and v: "v \<in> set (history r)" "(a, Link T) \<in> set (placed v)"
    and l: "linked cfg T a r r'" and u: "u \<in> set (history r)" "code r (v_start u) = Some (Insn k)"
  shows "code r' (v_start u) = Some (Insn k)"
proof -
  have k: "keeps_code (unat a) (unat a + 8) (code r) (code r')" using l by (auto simp: linked_def)
  have "unat (v_start v) + 8 \<le> unat a" "unat a + 8 \<le> unat (v_end v)"
    using placed_facts(4,5) [OF inv v(1)] v(2) by fastforce+
  then have "unat (v_start u) + 4 \<le> unat a \<or> unat a + 8 \<le> unat (v_start u)"
    using versions_apart [OF cache_invD(8) [OF inv] v(1) u(1)] cache_invD(5) [OF inv u(1)] placed_facts(2) [OF inv u(1)]
    by (cases "u = v") (auto simp: version_ok_def)
  moreover have "unat (v_start u) < 2 ^ 63"
    using spot_facts(1) [OF cache_invD(1) [OF inv] placed_facts(3) [OF inv u(1)]] by simp
  ultimately show ?thesis using keeps_codeD [OF k u(2)] by simp
qed

lemma link_at_inv:
  assumes inv: "cache_inv cfg P plan m w X r" and v: "v \<in> set (history r)" "(a, Link T) \<in> set (placed v)"
  shows "\<exists>r'. link_at cfg a T r = Some r' \<and> linked cfg T a r r' \<and> cache_inv cfg P plan m w X r'"
proof -
  have "spot r a" using placed_facts(5) [OF inv v] by simp
  from link_at_spec [OF cache_invD(1) [OF inv] this cache_inv_targets [OF inv]] obtain r' where
    "link_at cfg a T r = Some r'" "linked cfg T a r r'" by blast
  then show ?thesis using linked_inv [OF inv v] by blast
qed

lemma link_all_inv:
  assumes "cache_inv cfg P plan m w X r" "cfg_link cfg" "blockExists r T"
    "\<forall>a \<in> set ls. \<exists>v \<in> set (history r). (a, Link T) \<in> set (placed v)"
  shows "\<exists>c. link_all cfg T ls r = Some (r\<lparr>code := c\<rparr>) \<and> cache_inv cfg P plan m w X (r\<lparr>code := c\<rparr>)
    \<and> (\<forall>a. (\<exists>v \<in> set (history r). (a, Link T) \<in> set (placed v)) \<longrightarrow>
        a \<in> set ls \<or> direct (code r) a (address (block_metadata r T)) \<longrightarrow> direct c a (address (block_metadata r T)))
    \<and> (\<forall>u k. u \<in> set (history r) \<longrightarrow> code r (v_start u) = Some (Insn k) \<longrightarrow> c (v_start u) = Some (Insn k))"
  using assms
proof (induction ls arbitrary: r)
  case Nil
  then show ?case by (intro exI [of _ "code r"]) simp
next
  case (Cons a ls)
  let ?t = "address (block_metadata r T)"
  obtain v where v: "v \<in> set (history r)" "(a, Link T) \<in> set (placed v)" using Cons.prems(4) by auto
  obtain r1 where r1: "link_at cfg a T r = Some r1" "linked cfg T a r r1" "cache_inv cfg P plan m w X r1"
    using link_at_inv [OF Cons.prems(1) v] by blast
  then obtain c1 where c1: "r1 = r\<lparr>code := c1\<rparr>" "direct c1 a ?t" "keeps_code (unat a) (unat a + 8) (code r) c1"
    using Cons.prems(2,3) by (auto simp: linked_def)
  have "blockExists r1 T" "\<forall>b \<in> set ls. \<exists>v \<in> set (history r1). (b, Link T) \<in> set (placed v)"
    using Cons.prems(3,4) by (simp_all add: c1(1) blockExists_def)
  from Cons.IH [OF r1(3) Cons.prems(2) this] obtain c where
    c: "link_all cfg T ls r1 = Some (r1\<lparr>code := c\<rparr>)" "cache_inv cfg P plan m w X (r1\<lparr>code := c\<rparr>)"
    "\<forall>b. (\<exists>v \<in> set (history r1). (b, Link T) \<in> set (placed v)) \<longrightarrow>
        b \<in> set ls \<or> direct (code r1) b (address (block_metadata r1 T)) \<longrightarrow> direct c b (address (block_metadata r1 T))"
    "\<forall>u k. u \<in> set (history r1) \<longrightarrow> code r1 (v_start u) = Some (Insn k) \<longrightarrow> c (v_start u) = Some (Insn k)"
    by blast
  have "direct c1 b ?t" if b: "u \<in> set (history r)" "(b, Link T) \<in> set (placed u)" "b = a \<or> direct (code r) b ?t" for u b
    using pieces_apart [OF Cons.prems(1) b(1,2) v] b(3) c1(2) placed_facts(4) [OF Cons.prems(1) b(1,2)]
      jump_keeps(2) [OF c1(3), of b ?t] by auto
  then have "\<forall>b. (\<exists>v \<in> set (history r). (b, Link T) \<in> set (placed v)) \<longrightarrow>
        b \<in> set (a # ls) \<or> direct (code r) b ?t \<longrightarrow> direct c b ?t"
    using c(3) by (simp add: c1(1)) blast
  moreover have "\<forall>u k. u \<in> set (history r) \<longrightarrow> code r (v_start u) = Some (Insn k) \<longrightarrow> c (v_start u) = Some (Insn k)"
    using c(4) linked_head [OF Cons.prems(1) v r1(2)] by (simp add: c1(1))
  ultimately show ?case using r1(1) c(1,2) by (intro exI [of _ c]) (simp add: c1(1))
qed

lemma expirePendingLinks_inv:
  assumes inv: "cache_inv cfg P plan m w X r"
  shows "\<exists>r'. expirePendingLinks cfg T r = Some r' \<and> cache_inv cfg P plan m w X r'
    \<and> history r' = history r \<and> (\<forall>g. address (block_metadata r' g) = address (block_metadata r g))
    \<and> (\<forall>u k. u \<in> set (history r) \<longrightarrow> code r (v_start u) = Some (Insn k) \<longrightarrow> code r' (v_start u) = Some (Insn k))"
proof (cases "cfg_link cfg \<and> blockExists r T")
  case False
  then show ?thesis using inv by (auto simp: expirePendingLinks_def)
next
  case True
  let ?ls = "pending_links (block_metadata r T)" and ?t = "address (block_metadata r T)"
  have "\<forall>a \<in> set ?ls. \<exists>v \<in> set (history r). (a, Link T) \<in> set (placed v)" using cache_invD(10) [OF inv] by blast
  from link_all_inv [OF inv _ _ this] True obtain c where
    c: "link_all cfg T ?ls r = Some (r\<lparr>code := c\<rparr>)" "cache_inv cfg P plan m w X (r\<lparr>code := c\<rparr>)"
    "\<forall>a. (\<exists>v \<in> set (history r). (a, Link T) \<in> set (placed v)) \<longrightarrow>
        a \<in> set ?ls \<or> direct (code r) a ?t \<longrightarrow> direct c a ?t"
    "\<forall>u k. u \<in> set (history r) \<longrightarrow> code r (v_start u) = Some (Insn k) \<longrightarrow> c (v_start u) = Some (Insn k)" by blast
  define r1 where "r1 = r\<lparr>code := c\<rparr>"
  define r2 where "r2 = r1\<lparr>block_metadata := (block_metadata r)(T := (block_metadata r T)\<lparr>pending_links := []\<rparr>)\<rparr>"
  have inv1: "cache_inv cfg P plan m w X r1" using c(2) by (simp add: r1_def)
  have e: "expirePendingLinks cfg T r = Some r2" using True c(1) by (simp add: expirePendingLinks_def set_meta_def r1_def r2_def)
  have t: "(T, ?t) \<in> starts r" using current_start [OF inv, of T] True by blast
  have same [simp]: "starts r1 = starts r" "starts r2 = starts r" "history r1 = history r" "history r2 = history r"
    "cursor r2 = cursor r1" "code_cache r2 = code_cache r1" "start_of_code_cache r2 = start_of_code_cache r1"
    "host_pc_map r2 = host_pc_map r1" "page_map r2 = page_map r1" "frame P r2 = frame P r1"
    "patched r2 v = patched r1 v" "version_ok cfg r2 v = version_ok cfg r1 v" "entry_ok cfg r2 = entry_ok cfg r1"
    "blockExists r2 = blockExists r1" "page_blocks r2 = page_blocks r1"
    "address (block_metadata r2 g) = address (block_metadata r1 g)" "address_end (block_metadata r2 g) = address_end (block_metadata r1 g)" for v g
    by (auto simp: r1_def r2_def starts_def frame_def patched_def version_ok_def entry_ok_def blockExists_def page_blocks_def fun_eq_iff)
  have site: "piece_ok cfg r2 (starts r) a p"
    if v: "v \<in> set (history r)" "(a, p) \<in> set (placed v)" and ok: "piece_ok cfg r1 (starts r) a p" for v a p
  proof (cases "p = Link T")
    case True
    have d: "direct c a ?t" if "a \<in> set ?ls" using c(3) v that unfolding True by blast
    show ?thesis
      using ok d t \<open>cfg_link cfg \<and> blockExists r T\<close> unfolding True by (auto simp: site_ok_def r1_def r2_def)
  next
    case False
    then show ?thesis using ok by (cases p) (auto simp: site_ok_def r1_def r2_def)
  qed
  have tails: "tail_ok cfg r2 (starts r) v" if v: "v \<in> set (history r)" for v
    using cache_invD(6) [OF inv1, of v] v site [OF v] unfolding tail_ok_def same by blast
  have "current cfg plan m w r2 v" if v: "v \<in> set (history r)" and c: "current cfg plan m w r1 v" for v
    using c site [OF v] unfolding current_def head_ok_def same by blast
  then have state: "patched r1 v \<or> current cfg plan m w r2 v" if "v \<in> set (history r)" for v
    using cache_invD(7) [OF inv1, of v] that by auto
  have "\<exists>v \<in> set (history r). (a, Link g) \<in> set (placed v)" if "a \<in> set (pending_links (block_metadata r2 g))" for a g
    using that cache_invD(10) [OF inv, of a g] by (auto simp: r1_def r2_def split: if_splits)
  then have "cache_inv cfg P plan m w X r2"
    using inv1 tails state unfolding cache_inv_def same by blast
  moreover have "address (block_metadata r1 g) = address (block_metadata r g)" "code r2 = c" for g by (simp_all add: r1_def r2_def)
  ultimately show ?thesis using e c(4) by (intro exI [of _ r2]) simp
qed

end
