(* ===== verification/BlockCacheOps.thy ===== *)
theory BlockCacheOps
  imports BlockCacheInv
begin

text \<open>
  The invalidation thunk, block compilation and the dispatcher keep the invariant, and control
  always reaches a translation of the current guest memory.
\<close>

section \<open>The invalidation thunk\<close>

lemma lower_bound_at:
  assumes "sorted_wrt (<) (map fst m)" "(k, v) \<in> set m" "x \<le> k" "\<And>k' v'. (k', v') \<in> set m \<Longrightarrow> k' < x \<or> k \<le> k'"
  shows "lower_bound m x = Some (k, v)"
  using assms
proof (induction m)
  case (Cons e m)
  obtain k' v' where e: "e = (k', v')" by (cases e)
  show ?case
  proof (cases "k' < x")
    case True
    then have "(k, v) \<in> set m" using Cons.prems(2,3) e by auto
    then have "lower_bound m x = Some (k, v)" using Cons.IH Cons.prems by auto
    then show ?thesis using True e by (simp add: lower_bound_def)
  next
    case False
    then have "k \<le> k'" using Cons.prems(4) [of k' v'] e by auto
    then have "e = (k, v)" using Cons.prems(1,2) e by (fastforce dest: order.strict_trans2)
    then show ?thesis using False e by (simp add: lower_bound_def)
  qed
qed simp

lemma host_lookup:
  assumes inv: "cache_inv cfg P plan m w X r" and v: "v \<in> set (history r)"
    and pc: "unat (v_start v) \<le> unat pc" "unat pc < unat (v_end v)"
  shows "lower_bound (host_pc_map r) pc = Some (v_end v - 1, v_guest v)"
proof (rule lower_bound_at [OF cache_invD(12) [OF inv]])
  have size: "10 \<le> psizes (pieces (v_insns u))" "unat (v_end u) = unat (v_start u) + psizes (pieces (v_insns u))"
    if "u \<in> set (history r)" for u
    using placed_facts(2) [OF inv that] cache_invD(5) [OF inv that] by (simp_all add: version_ok_def)
  have pred: "unat (v_end u - 1) = unat (v_end u) - 1" if "u \<in> set (history r)" for u
    using unat_minus_small [of 1 "v_end u"] size [OF that] by simp
  show "(v_end v - 1, v_guest v) \<in> set (host_pc_map r)" using cache_invD(13) [OF inv] v by auto
  show "pc \<le> v_end v - 1" using pred [OF v] pc by (simp add: word_le_nat_alt)
  fix k g assume "(k, g) \<in> set (host_pc_map r)"
  then obtain u where u: "u \<in> set (history r)" "k = v_end u - 1" using cache_invD(13) [OF inv] by auto
  show "k < pc \<or> v_end v - 1 \<le> k"
    using versions_apart [OF cache_invD(8) [OF inv] v u(1)] size [OF v] size [OF u(1)] pred [OF v] pred [OF u(1)] pc
    by (cases "u = v") (auto simp: u(2) word_le_nat_alt word_less_nat_alt)
qed

lemma thunk_lookup:
  assumes inv: "cache_inv cfg P plan m w X r" and v: "v \<in> set (history r)"
  shows "lower_bound (host_pc_map r) (v_start v + 8) = Some (v_end v - 1, v_guest v)"
  using host_lookup [OF inv v] placed_facts(2) [OF inv v] cache_invD(5) [OF inv v]
    spot_facts(3) [OF cache_invD(1) [OF inv] placed_facts(3) [OF inv v]] by (simp add: version_ok_def)

lemma cache_inv_mono: "cache_inv cfg P plan m w X r \<Longrightarrow> X \<subseteq> Y \<Longrightarrow> cache_inv cfg P plan m w Y r"
  unfolding cache_inv_def by fast

lemma cache_inv_exists: "cache_inv cfg P plan m w {g} r \<Longrightarrow> blockExists r g \<Longrightarrow> cache_inv cfg P plan m w {} r"
  unfolding cache_inv_def by fast

text \<open>What depends only on code, metadata and history.\<close>

lemma same_code:
  assumes "code r' = code r" "block_metadata r' = block_metadata r" "history r' = history r"
    "compile_next_handler r' = compile_next_handler r" "invalidate_caller_thunk r' = invalidate_caller_thunk r"
    "start_of_code_cache r' = start_of_code_cache r" "code_cache r' = code_cache r" "cursor r' = cursor r"
  shows "starts r' = starts r" "frame P r' = frame P r" "patched r' v = patched r v" "version_ok cfg r' v = version_ok cfg r v"
    "tail_ok cfg r' H v = tail_ok cfg r H v" "head_ok cfg r' H v = head_ok cfg r H v" "blockExists r' = blockExists r"
proof -
  have p: "piece_ok cfg r' H a p = piece_ok cfg r H a p" for H a p
    by (rule piece_ok_same) (simp_all add: assms)
  show "starts r' = starts r" "frame P r' = frame P r" "patched r' v = patched r v" "version_ok cfg r' v = version_ok cfg r v"
    "blockExists r' = blockExists r"
    by (simp_all add: starts_def frame_def patched_def version_ok_def blockExists_def fun_eq_iff assms)
  show "tail_ok cfg r' H v = tail_ok cfg r H v" "head_ok cfg r' H v = head_ok cfg r H v"
    by (simp_all add: tail_ok_def head_ok_def p)
qed

text \<open>An entry of the address cache may change to nothing or to the code of a block.\<close>

lemma set_entry_inv:
  assumes inv: "cache_inv cfg P plan m w X r"
    and en: "en = empty_entry \<or> (cfg_address_cache cfg \<and> guest en = g \<and> host en \<noteq> 0 \<and> host en = address (block_metadata r g))"
  shows "cache_inv cfg P plan m w X (set_entry g en r)"
proof -
  define r1 where "r1 = set_entry g en r"
  have same: "code r1 = code r" "block_metadata r1 = block_metadata r" "history r1 = history r"
    "compile_next_handler r1 = compile_next_handler r" "invalidate_caller_thunk r1 = invalidate_caller_thunk r"
    "start_of_code_cache r1 = start_of_code_cache r" "code_cache r1 = code_cache r" "cursor r1 = cursor r"
    "host_pc_map r1 = host_pc_map r" "page_map r1 = page_map r"
    by (simp_all add: r1_def set_entry_def)
  note all = same same_code [OF same(1-8)]
  have c: "current cfg plan m w r1 v = current cfg plan m w r v" for v
    by (simp add: current_def page_blocks_def all)
  have "entry_ok cfg r1 k" for k
    using en cache_invD(11) [OF inv, of k] by (auto simp: entry_ok_def r1_def set_entry_def)
  then show ?thesis
    using inv unfolding r1_def [symmetric] cache_inv_def all c by blast
qed

text \<open>Unlinking a block of which every translation is patched.\<close>

lemma forget_inv:
  assumes inv: "cache_inv cfg P plan m w {} r" and g: "\<And>u. u \<in> set (history r) \<Longrightarrow> v_guest u = g \<Longrightarrow> patched r u"
    and c: "\<And>k. guest (address_cache r k) = g \<Longrightarrow> address_cache r k = empty_entry"
  shows "cache_inv cfg P plan m w {g} (set_meta g (\<lambda>b. b\<lparr>address := 0\<rparr>) r)"
proof -
  define r1 where "r1 = set_meta g (\<lambda>b. b\<lparr>address := 0\<rparr>) r"
  have po: "piece_ok cfg r1 H a p = piece_ok cfg r H a p" for H a p
    by (rule piece_ok_same) (simp_all add: r1_def set_meta_def)
  have same: "history r1 = history r" "starts r1 = starts r" "cursor r1 = cursor r" "code_cache r1 = code_cache r"
    "start_of_code_cache r1 = start_of_code_cache r" "host_pc_map r1 = host_pc_map r" "page_map r1 = page_map r"
    "frame P r1 = frame P r" "patched r1 v = patched r v" "version_ok cfg r1 v = version_ok cfg r v"
    "tail_ok cfg r1 H v = tail_ok cfg r H v" "pending_links (block_metadata r1 h) = pending_links (block_metadata r h)"
    "address_end (block_metadata r1 h) = address_end (block_metadata r h)" for v H h
    by (simp_all add: r1_def set_meta_def starts_def frame_def patched_def version_ok_def)
       (simp add: tail_ok_def po [unfolded r1_def set_meta_def])
  have cur: "patched r v \<or> current cfg plan m w r1 v" if v: "v \<in> set (history r)" for v
  proof (cases "v_guest v = g")
    case False
    then have "current cfg plan m w r v \<Longrightarrow> current cfg plan m w r1 v"
      by (simp add: current_def head_ok_def po same page_blocks_def) (simp add: r1_def set_meta_def)
    then show ?thesis using cache_invD(7) [OF inv v] by blast
  qed (use g [OF v] in simp)
  have ex: "blockExists r1 h \<longleftrightarrow> blockExists r h \<and> h \<noteq> g" for h
    by (simp add: blockExists_def r1_def set_meta_def)
  have ad: "address (block_metadata r1 h) = address (block_metadata r h)" if "h \<noteq> g" for h
    using that by (simp add: r1_def set_meta_def)
  have en: "entry_ok cfg r1 k" for k
    using cache_invD(11) [OF inv, of k] c [of k] by (auto simp: entry_ok_def r1_def set_meta_def)
  have "\<exists>v \<in> set (history r). v_guest v = h \<and> v_start v = address (block_metadata r1 h) \<and> v_end v = address_end (block_metadata r h)"
    if "blockExists r1 h" for h
    using that ex ad cache_invD(9) [OF inv, of h] by auto
  moreover have "\<forall>(p, gs) \<in> set (page_map r). \<forall>h \<in> set gs. blockExists r1 h \<or> h \<in> {g}"
    using cache_invD(15) [OF inv] ex by auto
  ultimately show ?thesis
    using inv cur en unfolding r1_def [symmetric] cache_inv_def same by blast
qed

lemma null_not_start:
  assumes "cache_inv cfg P plan m w X r" "v \<in> set (history r)"
  shows "v_start v \<noteq> 0"
  using spot_facts(6) [OF cache_invD(1) [OF assms(1)] placed_facts(3) [OF assms]] by auto

lemma entry_only:
  assumes inv: "cache_inv cfg P plan m w X r" and k: "guest (address_cache r k) = g" "address_cache r k \<noteq> empty_entry"
  shows "k = cache_index g" "cfg_address_cache cfg" "blockExists r g"
  using cache_invD(11) [OF inv, of k] k by (auto simp: entry_ok_def blockExists_def)

lemma thunk_patched:
  assumes inv: "cache_inv cfg P plan m w X r" and v: "v \<in> set (history r)" "patched r v"
    and r: "address (block_metadata r (v_guest v)) \<le> v_start v + 8" "v_start v + 8 \<le> address_end (block_metadata r (v_guest v))"
    and u: "u \<in> set (history r)" "v_guest u = v_guest v"
  shows "patched r u"
proof (rule ccontr)
  assume "\<not> patched r u"
  then have c: "address (block_metadata r (v_guest v)) = v_start u"
    using cache_invD(7) [OF inv u(1)] u(2) by (auto simp: current_def)
  then have "blockExists r (v_guest v)" using null_not_start [OF inv u(1)] by (simp add: blockExists_def)
  then obtain x where x: "x \<in> set (history r)" "v_start x = v_start u" "v_end x = address_end (block_metadata r (v_guest v))"
    using version_of [OF inv] c by metis
  have "x = u" by (rule same_start [OF inv u(1) x(1,2)])
  have "unat (v_start u) \<le> unat (v_start v) + 8" "unat (v_start v) + 8 \<le> unat (v_end u)"
    using r c x(3) \<open>x = u\<close> spot_facts(3) [OF cache_invD(1) [OF inv] placed_facts(3) [OF inv v(1)]]
    by (simp_all add: word_le_nat_alt)
  then have "u = v"
    using versions_apart [OF cache_invD(8) [OF inv] v(1) u(1)] placed_facts(2) [OF inv v(1)] cache_invD(5) [OF inv v(1)]
    by (auto simp: version_ok_def)
  then show False using v(2) \<open>\<not> patched r u\<close> by simp
qed

lemma set_entry_meta: "set_entry k en (set_meta g f r) = set_meta g f (set_entry k en r)"
  by (simp add: set_entry_def set_meta_def)

lemma set_fields:
  "cursor (set_meta g f r) = cursor r" "start_of_code_cache (set_meta g f r) = start_of_code_cache r"
  "cursor (set_entry k en r) = cursor r" "start_of_code_cache (set_entry k en r) = start_of_code_cache r"
  "block_metadata (set_entry k en r) = block_metadata r"
  by (simp_all add: set_entry_def set_meta_def)

lemma invalidateAt_inv:
  assumes inv: "cache_inv cfg P plan m w {} r" and v: "v \<in> set (history r)" "patched r v"
    and l: "l = 0 \<or> (\<exists>u a. u \<in> set (history r) \<and> (a, Link (v_guest v)) \<in> set (placed u) \<and> l = a + 8)"
  shows "\<exists>r'. invalidateAt cfg (v_start v + 8) l r = Some r' \<and> cache_inv cfg P plan m w {v_guest v} r' \<and> history r' = history r
    \<and> (address (block_metadata r (v_guest v)) = v_start v \<longrightarrow> \<not> blockExists r' (v_guest v))"
proof -
  let ?g = "v_guest v" and ?x = "v_start v + 8"
  let ?b = "block_metadata r ?g"
  have ga: "guest_address ?b = ?g" using cache_invD(5) [OF inv v(1)] by (simp add: version_ok_def)
  define r0 where "r0 = (if cfg_address_cache cfg then set_entry ?g empty_entry r else r)"
  have inv0: "cache_inv cfg P plan m w {} r0"
    using inv set_entry_inv [OF inv, of empty_entry] by (auto simp: r0_def)
  have same: "block_metadata r0 = block_metadata r" "history r0 = history r" "patched r0 u = patched r u" for u
    by (simp_all add: r0_def set_entry_def patched_def)
  define r1 where "r1 = (if address ?b \<le> ?x \<and> ?x \<le> address_end ?b then set_meta ?g (\<lambda>b. b\<lparr>address := 0\<rparr>) r0 else r0)"
  have inv1: "cache_inv cfg P plan m w {?g} r1"
  proof (cases "address ?b \<le> ?x \<and> ?x \<le> address_end ?b")
    case True
    have "cache_inv cfg P plan m w {?g} (set_meta ?g (\<lambda>b. b\<lparr>address := 0\<rparr>) r0)"
    proof (rule forget_inv [OF inv0])
      show "patched r0 u" if "u \<in> set (history r0)" "v_guest u = ?g" for u
        using thunk_patched [OF inv0, of v u] v True that same by auto
      show "address_cache r0 k = empty_entry" if "guest (address_cache r0 k) = ?g" for k
      proof (rule ccontr)
        assume some: "address_cache r0 k \<noteq> empty_entry"
        then have "k = cache_index ?g" "cfg_address_cache cfg" using entry_only(1,2) [OF inv0 that] by blast+
        then show False using some by (simp add: r0_def set_entry_def)
      qed
    qed
    then show ?thesis using True by (simp add: r1_def)
  qed (use inv0 cache_inv_mono in \<open>auto simp: r1_def\<close>)
  have h1: "history r1 = history r" "cursor r1 = cursor r" "start_of_code_cache r1 = start_of_code_cache r"
    by (simp_all add: r1_def r0_def set_meta_def set_entry_def)
  have step: "invalidateAt cfg ?x l r = (if l \<noteq> 0 then do {
       ASSERT (start_of_code_cache r \<le> l - 8 \<and> l - 8 < cursor r);
       link_at cfg (l - 8) ?g r1
     } else Some r1)"
    using thunk_lookup [OF inv v(1)] ga h1
    by (auto simp: invalidateAt_def r1_def r0_def Let_def set_entry_meta set_fields)
  have gone: "\<not> blockExists r1 ?g" if a: "address ?b = v_start v"
  proof -
    have "blockExists r ?g" using a null_not_start [OF inv v(1)] by (simp add: blockExists_def)
    then obtain u where u: "u \<in> set (history r)" "v_start u = v_start v" "v_end u = address_end ?b"
      using version_of [OF inv] a by metis
    then have "u = v" using same_start [OF inv v(1)] by blast
    then have "address ?b \<le> ?x \<and> ?x \<le> address_end ?b"
      using a u(3) spot_facts(3) [OF cache_invD(1) [OF inv] placed_facts(3) [OF inv v(1)]] placed_facts(2) [OF inv v(1)]
        cache_invD(5) [OF inv v(1)] by (auto simp: version_ok_def word_le_nat_alt)
    then show ?thesis by (simp add: r1_def set_meta_def blockExists_def)
  qed
  show ?thesis
  proof (cases "l = 0")
    case True
    then show ?thesis using step inv1 h1(1) gone by simp
  next
    case False
    then obtain u a where u: "u \<in> set (history r)" "(a, Link ?g) \<in> set (placed u)" "l = a + 8" using l by blast
    obtain r' where r': "link_at cfg a ?g r1 = Some r'" "linked cfg ?g a r1 r'" "cache_inv cfg P plan m w {?g} r'"
      using link_at_inv [OF inv1, of u a ?g] u h1 by auto
    have "unat (start_of_code_cache r) \<le> unat a" "unat a < unat (cursor r)"
      using placed_facts(4,5) [OF inv u(1,2)] cache_invD(5) [OF inv u(1)] by (auto simp: spot_def version_ok_def)
    then have "invalidateAt cfg ?x l r = Some r'"
      using step False u(3) r'(1) by (simp add: word_le_nat_alt word_less_nat_alt)
    moreover have "history r' = history r" using r'(2) h1(1) by (auto simp: linked_def)
    moreover have "blockExists r' ?g = blockExists r1 ?g" using r'(2) by (auto simp: linked_def blockExists_def)
    ultimately show ?thesis using r'(3) gone by blast
  qed
qed

end
