(* ===== verification/BlockCacheCompile.thy ===== *)
theory BlockCacheCompile
  imports BlockCacheOps
begin

text \<open>
  Compiling a block: what the emission of its pieces leaves in the code cache, and that the new
  translation, once registered, extends the invariant.
\<close>

section \<open>Emitting the pieces\<close>

definition addresses :: "Recompiler \<Rightarrow> (u64 \<times> u64) set" where
  "addresses r = {(g, address (block_metadata r g)) | g. blockExists r g}"

definition same_blocks :: "Recompiler \<Rightarrow> Recompiler \<Rightarrow> bool" where
  "same_blocks r r' \<longleftrightarrow> (\<forall>g. address (block_metadata r' g) = address (block_metadata r g)
     \<and> address_end (block_metadata r' g) = address_end (block_metadata r g)
     \<and> guest_address (block_metadata r' g) = guest_address (block_metadata r g)
     \<and> guest_address_end (block_metadata r' g) = guest_address_end (block_metadata r g))"

definition same_frame :: "Recompiler \<Rightarrow> Recompiler \<Rightarrow> bool" where
  "same_frame r r' \<longleftrightarrow> code_cache r' = code_cache r \<and> start_of_code_cache r' = start_of_code_cache r
     \<and> compile_next_handler r' = compile_next_handler r \<and> invalidate_caller_thunk r' = invalidate_caller_thunk r
     \<and> host_pc_map r' = host_pc_map r \<and> page_map r' = page_map r \<and> address_cache r' = address_cache r \<and> history r' = history r"

definition emitted :: "cache_config \<Rightarrow> piece list \<Rightarrow> Recompiler \<Rightarrow> Recompiler \<Rightarrow> bool" where
  "emitted cfg ps r r' \<longleftrightarrow>
     cursor r' = cursor r + of_nat (psizes ps) \<and> same_frame r r'
     \<and> same_blocks r r'
     \<and> keeps_code (unat (cursor r)) (unat (cursor r) + psizes ps) (code r) (code r')
     \<and> (\<forall>g. set (pending_links (block_metadata r g)) \<subseteq> set (pending_links (block_metadata r' g)))
     \<and> (\<forall>g. \<forall>a \<in> set (pending_links (block_metadata r' g)). a \<in> set (pending_links (block_metadata r g)) \<or> (a, Link g) \<in> set (place (cursor r) ps))
     \<and> (\<forall>(a, p) \<in> set (place (cursor r) ps). piece_ok cfg r' (addresses r) a p)"

lemma emittedD:
  assumes "emitted cfg ps r r'"
  shows "same_frame r r'" "same_blocks r r'"
    "keeps_code (unat (cursor r)) (unat (cursor r) + psizes ps) (code r) (code r')"
    "set (pending_links (block_metadata r g)) \<subseteq> set (pending_links (block_metadata r' g))"
    "a \<in> set (pending_links (block_metadata r' g)) \<Longrightarrow> a \<in> set (pending_links (block_metadata r g)) \<or> (a, Link g) \<in> set (place (cursor r) ps)"
    "(a, p) \<in> set (place (cursor r) ps) \<Longrightarrow> piece_ok cfg r' (addresses r) a p"
  using assms unfolding emitted_def by blast+

lemma emitted_fields:
  assumes "emitted cfg ps r r'"
  shows "cursor r' = cursor r + of_nat (psizes ps)" "code_cache r' = code_cache r" "start_of_code_cache r' = start_of_code_cache r"
    "compile_next_handler r' = compile_next_handler r" "invalidate_caller_thunk r' = invalidate_caller_thunk r"
    "host_pc_map r' = host_pc_map r" "page_map r' = page_map r" "address_cache r' = address_cache r" "history r' = history r"
  using assms by (simp_all add: emitted_def same_frame_def)

lemma same_blocks_exists: "same_blocks r r' \<Longrightarrow> blockExists r' g = blockExists r g"
  "same_blocks r r' \<Longrightarrow> addresses r' = addresses r"
  by (auto simp: same_blocks_def blockExists_def addresses_def)

definition room :: "prologue \<Rightarrow> nat \<Rightarrow> Recompiler \<Rightarrow> bool" where
  "room P n r \<longleftrightarrow> frame P r \<and> targets_ok r \<and> unat (start_of_code_cache r) \<le> unat (cursor r)
     \<and> unat (cursor r) + n \<le> unat (code_cache r) + 2 ^ 26"

lemma room_emitted:
  assumes e: "emitted cfg ps r r'" and r: "room P (psizes ps + n) r"
  shows "room P n r'" "unat (cursor r') = unat (cursor r) + psizes ps"
proof -
  have "unat (code_cache r) < 2 ^ 61" using r by (simp add: room_def frame_def)
  then show u: "unat (cursor r') = unat (cursor r) + psizes ps"
    unfolding emitted_fields(1) [OF e] using r by (intro unat_step) (simp add: room_def)
  have "frame P r' = frame P r" "targets_ok r' = targets_ok r"
    using emitted_fields [OF e] same_blocks_exists(1) [OF emittedD(2) [OF e]] emittedD(2) [OF e]
    by (simp_all add: frame_def targets_ok_def same_blocks_def)
  then show "room P n r'"
    using r u emitted_fields(2,3) [OF e] by (simp add: room_def)
qed

lemma emitted_append:
  assumes e: "emitted cfg ps r r1" "emitted cfg qs r1 r2" and r: "room P (psizes ps + psizes qs) r"
  shows "emitted cfg (ps @ qs) r r2"
proof -
  note f = emitted_fields [OF e(1)] and u = room_emitted(2) [OF e(1) r]
  have lt: "unat (cursor r) + psizes ps < 2 ^ 62"
    using r by (simp add: room_def frame_def)
  have "cursor r2 = cursor r + of_nat (psizes (ps @ qs))" "same_frame r r2"
    using f emitted_fields [OF e(2)] by (simp_all add: same_frame_def add.assoc)
  moreover have "same_blocks r r2" using emittedD(2) [OF e(1)] emittedD(2) [OF e(2)] by (simp add: same_blocks_def)
  moreover have "keeps_code (unat (cursor r)) (unat (cursor r) + psizes (ps @ qs)) (code r) (code r2)"
    by (rule keeps_code_trans [OF keeps_code_widen [OF emittedD(3) [OF e(1)]] keeps_code_widen [OF emittedD(3) [OF e(2)]]])
      (simp_all add: u)
  moreover have "\<forall>g. set (pending_links (block_metadata r g)) \<subseteq> set (pending_links (block_metadata r2 g))"
    by (intro allI subset_trans [OF emittedD(4) [OF e(1)] emittedD(4) [OF e(2)]])
  moreover have "\<forall>g. \<forall>a \<in> set (pending_links (block_metadata r2 g)).
      a \<in> set (pending_links (block_metadata r g)) \<or> (a, Link g) \<in> set (place (cursor r) (ps @ qs))"
  proof (intro allI ballI)
    fix g a assume "a \<in> set (pending_links (block_metadata r2 g))"
    from emittedD(5) [OF e(2) this] show "a \<in> set (pending_links (block_metadata r g)) \<or> (a, Link g) \<in> set (place (cursor r) (ps @ qs))"
      using emittedD(5) [OF e(1), of a g] by (auto simp: place_append f(1))
  qed
  moreover have "piece_ok cfg r2 (addresses r) a p" if a: "(a, p) \<in> set (place (cursor r) (ps @ qs))" for a p
  proof (cases "(a, p) \<in> set (place (cursor r) ps)")
    case True
    show ?thesis
    proof (rule piece_keeps [OF emittedD(6) [OF e(1) True] emittedD(3) [OF e(2)]])
      show "unat a < 2 ^ 62" "unat a + psize p \<le> unat (cursor r1) \<or> unat (cursor r1) + psizes qs \<le> unat a"
        using place_bounds [OF True] lt u psize_bounds(1) [of p] by auto
    qed (use emittedD(4) [OF e(2)] emitted_fields(4) [OF e(2)] in auto)
  next
    case False
    then have "(a, p) \<in> set (place (cursor r1) qs)" using a by (simp add: place_append f(1))
    from emittedD(6) [OF e(2) this] show ?thesis
      using same_blocks_exists(2) [OF emittedD(2) [OF e(1)]] by simp
  qed
  ultimately show ?thesis unfolding emitted_def by blast
qed

lemma emitted_meta:
  assumes "\<And>b. address (f b) = address b \<and> address_end (f b) = address_end b \<and> guest_address (f b) = guest_address b
    \<and> guest_address_end (f b) = guest_address_end b \<and> pending_links (f b) = pending_links b"
  shows "emitted cfg [] r (set_meta g f r)"
  using assms by (simp add: emitted_def set_meta_def same_blocks_def same_frame_def keeps_code_refl)

lemma emit_emitted:
  assumes "unat (cursor r) < 2 ^ 62" "p \<in> {Op k, Undef}" "i = (case p of Op k \<Rightarrow> Insn k | _ \<Rightarrow> C_UNDEF)"
  shows "emitted cfg [p] r (emit i r)"
proof -
  have "keeps_code (unat (cursor r)) (unat (cursor r) + psize p) (code r) (put_code (cursor r) i (code r))"
    by (rule keeps_code_widen [OF put_code_keeps]) (use assms in auto)
  then show ?thesis using assms by (auto simp: emitted_def emit_def same_blocks_def same_frame_def)
qed

lemma emit_piece_spec:
  assumes r: "room P (psize p) r"
  shows "\<exists>r'. emit_piece cfg p r = Some r' \<and> emitted cfg [p] r r'"
proof -
  have f: "frame P r" "targets_ok r" and c: "unat (cursor r) < 2 ^ 62" using r by (simp_all add: room_def frame_def)
  have s: "spot r (cursor r)" if "psize p = 8" using r that by (simp add: spot_def room_def)
  show ?thesis
  proof (cases p)
    case (Op k)
    then show ?thesis using emit_emitted [OF c, of p k "Insn k"] by auto
  next
    case Undef
    then show ?thesis using emit_emitted [OF c, of p 0 C_UNDEF] by auto
  next
    case (Link T)
    then obtain r1 where r1: "jumpAndLink cfg T r = Some (r1\<lparr>cursor := cursor r + 8\<rparr>)" "linked cfg T (cursor r) r r1"
      using jumpAndLink_spec [OF f(1) s f(2)] by auto
    then obtain cd ls where
      l: "r1 = r\<lparr>code := cd, block_metadata := (block_metadata r)(T := (block_metadata r T)\<lparr>pending_links := ls\<rparr>)\<rparr>"
      "keeps_code (unat (cursor r)) (unat (cursor r) + 8) (code r) cd"
      "if cfg_link cfg \<and> blockExists r T then ls = pending_links (block_metadata r T) \<and> direct cd (cursor r) (address (block_metadata r T))
       else far cd (cursor r) t6 0 (compile_next_handler r) \<and> ls = pending_links (block_metadata r T) @ (if cfg_link cfg then [cursor r] else [])"
      unfolding linked_def by blast
    have "(T, address (block_metadata r T)) \<in> addresses r" if "blockExists r T" using that by (auto simp: addresses_def)
    then have "emitted cfg [p] r (r1\<lparr>cursor := cursor r + 8\<rparr>)"
      using l by (auto simp: emitted_def Link same_blocks_def same_frame_def site_ok_def split: if_splits)
    then show ?thesis using r1(1) Link by auto
  next
    case Back
    then obtain cd where "backToDispatcher r = Some (r\<lparr>code := cd, cursor := cursor r + 8\<rparr>)"
      "far cd (cursor r) t6 0 (compile_next_handler r)" "keeps_code (unat (cursor r)) (unat (cursor r) + 8) (code r) cd"
      using backToDispatcher_spec [OF f(1) s] by auto
    then show ?thesis using Back by (auto simp: emitted_def same_blocks_def same_frame_def)
  qed
qed

lemma emit_pieces_spec:
  "room P (psizes ps) r \<Longrightarrow> \<exists>r'. emit_pieces cfg ps r = Some r' \<and> emitted cfg ps r r'"
proof (induction ps arbitrary: r)
  case Nil
  then show ?case by (simp add: emitted_def same_blocks_def same_frame_def keeps_code_refl)
next
  case (Cons p ps)
  have "room P (psize p) r" using Cons.prems by (simp add: room_def)
  then obtain r1 where r1: "emit_piece cfg p r = Some r1" "emitted cfg [p] r r1" using emit_piece_spec by blast
  have "room P (psizes ps) r1" using room_emitted(1) [OF r1(2), of P "psizes ps"] Cons.prems by simp
  then obtain r2 where r2: "emit_pieces cfg ps r1 = Some r2" "emitted cfg ps r1 r2" using Cons.IH by blast
  have "emitted cfg ([p] @ ps) r r2" by (rule emitted_append [OF r1(2) r2(2)]) (use Cons.prems in simp)
  then show ?case using r1(1) r2(1) by simp
qed

lemma emit_insns_spec:
  "room P (psizes (pieces is)) r \<Longrightarrow>
    \<exists>r'. emit_insns cfg g is rip r = Some (rip + of_nat (guest_length is), r') \<and> emitted cfg (pieces is) r r'"
proof (induction "is" arbitrary: r rip)
  case Nil
  then show ?case
    by (simp add: emitted_def same_blocks_def same_frame_def keeps_code_refl pieces_def guest_length_def)
next
  case (Cons i "is")
  obtain len ps where i: "i = (len, ps)" by (cases i)
  let ?r0 = "set_meta g (\<lambda>b. b\<lparr>instruction_spans := instruction_spans b @ [(rip, cursor r)]\<rparr>) r"
  have e0: "emitted cfg [] r ?r0" by (rule emitted_meta) simp
  have p: "pieces (i # is) = ps @ pieces is" by (simp add: pieces_def i)
  have room0: "room P (psizes ps + psizes (pieces is)) ?r0"
    using room_emitted(1) [OF e0] Cons.prems p by simp
  then have "room P (psizes ps) ?r0" by (simp add: room_def)
  then obtain r1 where r1: "emit_pieces cfg ps ?r0 = Some r1" "emitted cfg ps ?r0 r1" using emit_pieces_spec by blast
  have "room P (psizes (pieces is)) r1" using room_emitted(1) [OF r1(2) room0] .
  then obtain r2 where r2: "emit_insns cfg g is (rip + len) r1 = Some (rip + len + of_nat (guest_length is), r2)"
    "emitted cfg (pieces is) r1 r2" using Cons.IH by blast
  have "emitted cfg ([] @ ps @ pieces is) r r2"
  proof (rule emitted_append [OF e0])
    show "emitted cfg (ps @ pieces is) ?r0 r2" by (rule emitted_append [OF r1(2) r2(2) room0])
    show "room P (psizes [] + psizes (ps @ pieces is)) r" using Cons.prems p by simp
  qed
  then show ?case
    using r1(1) r2(1) p by (simp add: i guest_length_def Let_def add.assoc)
qed

section \<open>Registering the block\<close>

lemma omap_insert_spec:
  assumes "sorted_wrt (<) (map fst m)"
  shows "set (omap_insert k v m) = insert (k, v) {e \<in> set m. fst e \<noteq> k}" "sorted_wrt (<) (map fst (omap_insert k v m))"
    "map_of (omap_insert k v m) = (map_of m)(k \<mapsto> v)"
  using assms
proof (induction m)
  case Nil
  { case 1 show ?case by simp next case 2 show ?case by simp next case 3 show ?case by simp }
next
  case (Cons e m)
  obtain k' v' where e: "e = (k', v')" by (cases e)
  have m: "sorted_wrt (<) (map fst m)" if "sorted_wrt (<) (map fst (e # m))" using that by simp
  { case 1
    have "\<forall>x \<in> set m. k' < fst x" using 1 e by auto
    then show ?case using Cons.IH(1) [OF m [OF 1]] e by (cases k k' rule: linorder_cases) (auto dest: order.strict_trans)
  next
    case 2
    have "\<forall>x \<in> fst ` set (omap_insert k v m). k' < x" if "k' < k"
      using Cons.IH(1) [OF m [OF 2]] 2 e that by auto
    then show ?case using Cons.IH(2) [OF m [OF 2]] 2 e by (auto dest: order.strict_trans)
  next
    case 3
    then show ?case using Cons.IH(3) [OF m [OF 3]] e by (auto simp: fun_eq_iff) }
qed

lemma register_page_spec:
  assumes "sorted_wrt (<) (map fst (page_map r))"
  shows "sorted_wrt (<) (map fst (page_map (register_page g p r)))"
    "page_blocks (register_page g p r) q = (if q = p then page_blocks r p @ [g] else page_blocks r q)"
  using omap_insert_spec(2,3) [OF assms] by (simp_all add: register_page_def page_blocks_def)

lemma register_fold:
  assumes "sorted_wrt (<) (map fst (page_map r))"
  shows "sorted_wrt (<) (map fst (page_map (fold (register_page g) ps r)))
    \<and> (\<forall>q. set (page_blocks (fold (register_page g) ps r) q) = set (page_blocks r q) \<union> (if q \<in> set ps then {g} else {}))
    \<and> (\<exists>pm. fold (register_page g) ps r = r\<lparr>page_map := pm\<rparr>)"
  using assms
proof (induction ps arbitrary: r)
  case Nil
  then show ?case by (simp, intro exI [of _ "page_map r"]) simp
next
  case (Cons p ps)
  let ?r = "register_page g p r"
  note IH = Cons.IH [OF register_page_spec(1) [OF Cons.prems, of g p]]
  obtain pm where pm: "?r = r\<lparr>page_map := pm\<rparr>" by (simp add: register_page_def)
  obtain pm' where "fold (register_page g) ps ?r = ?r\<lparr>page_map := pm'\<rparr>" using IH by blast
  then have "fold (register_page g) (p # ps) r = r\<lparr>page_map := pm'\<rparr>" by (simp add: pm)
  moreover have "set (page_blocks (fold (register_page g) (p # ps) r) q) = set (page_blocks r q) \<union> (if q \<in> set (p # ps) then {g} else {})" for q
    using IH by (simp add: register_page_spec(2) [OF Cons.prems])
  ultimately show ?case using IH by auto
qed

lemma listed_iff:
  assumes "sorted_wrt (<) (map fst (page_map r))"
  shows "(\<forall>(p, gs) \<in> set (page_map r). \<forall>g \<in> set gs. Q g) \<longleftrightarrow> (\<forall>p. \<forall>g \<in> set (page_blocks r p). Q g)"
proof -
  have "distinct (map fst (page_map r))" using assms by (simp add: strict_sorted_iff)
  then have "page_blocks r p = gs" if "(p, gs) \<in> set (page_map r)" for p gs
    using that by (simp add: page_blocks_def)
  then show ?thesis using page_listed [of _ r] by blast
qed

text \<open>The arithmetic of the pages of a block.\<close>

lemma guest_pages_read_only:
  assumes "cfg_protect_pages cfg" "unat g < 2 ^ 47" "0 < guest_length is" "guest_length is \<le> 2 ^ 47" "p \<in> guest_pages g is"
  shows "\<not> markPagesAsReadOnly cfg g (g + of_nat (guest_length is)) w p"
proof -
  let ?e = "unat g + guest_length is"
  have e: "unat (g + of_nat (guest_length is)) = ?e" using assms by (intro unat_step) simp
  have u: "unat (g + of_nat (guest_length is) + 0xFFF) = ?e + 4095"
    using e assms unat_step [of "g + of_nat (guest_length is)" 4095] by simp
  have p: "unat g div 4096 * 4096 \<le> unat p" "unat p \<le> (?e - 1) div 4096 * 4096"
    using assms guest_pages_iff [of g "is" p] by auto
  have "(?e - 1) div 4096 < (?e + 4095) div 4096" using assms(3) by linarith
  then have "unat p < (?e + 4095) div 4096 * 4096" using p(2) by linarith
  then show ?thesis
    using assms(1) p(1) by (simp add: markPagesAsReadOnly_def word_le_nat_alt word_less_nat_alt page_of_nat u)
qed

lemma last_page_small:
  assumes "unat g < 2 ^ 47" "0 < guest_length is" "guest_length is \<le> 2 ^ 47"
  shows "page_of (g + of_nat (guest_length is) - 1) \<noteq> NOT 0xFFF"
proof -
  have "unat (g + of_nat (guest_length is)) = unat g + guest_length is" using assms by (intro unat_step) simp
  then have "unat (g + of_nat (guest_length is) - 1) < 2 ^ 48"
    using assms unat_minus_small [of 1 "g + of_nat (guest_length is)"] by simp
  then have "unat (page_of (g + of_nat (guest_length is) - 1)) < 2 ^ 48"
    unfolding page_of_nat by (rule order.strict_trans1 [OF div_times_less_eq_dividend])
  moreover have "unat (NOT 0xFFF :: u64) = 2 ^ 64 - 4096" by simp
  ultimately show ?thesis by force
qed

lemma piece_mono: "piece_ok cfg r H a p \<Longrightarrow> H \<subseteq> H' \<Longrightarrow> piece_ok cfg r H' a p"
  by (cases p) (auto simp: site_ok_def)

lemma addresses_starts: "cache_inv cfg P plan m w X r \<Longrightarrow> addresses r \<subseteq> starts r"
  using current_start by (auto simp: addresses_def)

text \<open>\<open>extends\<close>: the state \<open>r'\<close> has one translation more than \<open>r\<close>, at the cursor of \<open>r\<close>.\<close>

definition extends :: "cache_config \<Rightarrow> u64 \<Rightarrow> insns \<Rightarrow> Recompiler \<Rightarrow> Recompiler \<Rightarrow> bool" where
  "extends cfg g is r r' \<longleftrightarrow> (let s = cursor r; e = s + of_nat (psizes (pieces is)) in
     cursor r' = e \<and> code_cache r' = code_cache r \<and> start_of_code_cache r' = start_of_code_cache r
     \<and> compile_next_handler r' = compile_next_handler r \<and> invalidate_caller_thunk r' = invalidate_caller_thunk r
     \<and> keeps_code (unat s) (unat s + psizes (pieces is)) (code r) (code r')
     \<and> (\<forall>(a, p) \<in> set (place s (pieces is)). piece_ok cfg r' (insert (g, s) (addresses r)) a p)
     \<and> (\<forall>h. h \<noteq> g \<longrightarrow> address (block_metadata r' h) = address (block_metadata r h)
          \<and> address_end (block_metadata r' h) = address_end (block_metadata r h)
          \<and> guest_address (block_metadata r' h) = guest_address (block_metadata r h))
     \<and> address (block_metadata r' g) = s \<and> address_end (block_metadata r' g) = e \<and> guest_address (block_metadata r' g) = g
     \<and> (\<forall>h. set (pending_links (block_metadata r h)) \<subseteq> set (pending_links (block_metadata r' h)))
     \<and> (\<forall>h. \<forall>a \<in> set (pending_links (block_metadata r' h)). a \<in> set (pending_links (block_metadata r h)) \<or> (a, Link h) \<in> set (place s (pieces is)))
     \<and> host_pc_map r' = omap_insert (e - 1) g (host_pc_map r)
     \<and> sorted_wrt (<) (map fst (page_map r'))
     \<and> (\<forall>q. set (page_blocks r' q) = set (page_blocks r q) \<union> (if q \<in> guest_pages g is then {g} else {}))
     \<and> address_cache r' = (if cfg_address_cache cfg then (address_cache r)(cache_index g := \<lparr>host = s, guest = g\<rparr>) else address_cache r)
     \<and> history r' = \<lparr>v_start = s, v_end = e, v_guest = g, v_insns = is\<rparr> # history r)"

text \<open>The situation after a new translation has been emitted and registered.\<close>

definition extension :: "cache_config \<Rightarrow> prologue \<Rightarrow> block_plan \<Rightarrow> guest_memory \<Rightarrow> (u64 \<Rightarrow> bool) \<Rightarrow> u64 set \<Rightarrow> u64 \<Rightarrow> Recompiler \<Rightarrow> Recompiler \<Rightarrow> bool" where
  "extension cfg P plan m w X g r r' \<longleftrightarrow> cache_inv cfg P plan m w X r \<and> X \<subseteq> {g} \<and> \<not> blockExists r g \<and> valid_rip cfg g
     \<and> plan_ok cfg plan \<and> cfg_protect_pages cfg \<and> unat (cursor r) + 90000 \<le> unat (code_cache r) + 2 ^ 26
     \<and> extends cfg g (plan m g) r r'"

abbreviation new_version :: "block_plan \<Rightarrow> guest_memory \<Rightarrow> u64 \<Rightarrow> Recompiler \<Rightarrow> version" where
  "new_version plan m g r \<equiv> \<lparr>v_start = cursor r, v_end = cursor r + of_nat (psizes (pieces (plan m g))), v_guest = g, v_insns = plan m g\<rparr>"

abbreviation new_writable :: "cache_config \<Rightarrow> block_plan \<Rightarrow> guest_memory \<Rightarrow> u64 \<Rightarrow> (u64 \<Rightarrow> bool) \<Rightarrow> u64 \<Rightarrow> bool" where
  "new_writable cfg plan m g w \<equiv> markPagesAsReadOnly cfg g (g + of_nat (guest_length (plan m g))) w"

lemma extendsD:
  assumes "extends cfg g is r r'"
  defines "e \<equiv> cursor r + of_nat (psizes (pieces is))"
  shows "cursor r' = e" "code_cache r' = code_cache r" "start_of_code_cache r' = start_of_code_cache r"
    "compile_next_handler r' = compile_next_handler r" "invalidate_caller_thunk r' = invalidate_caller_thunk r"
    "keeps_code (unat (cursor r)) (unat (cursor r) + psizes (pieces is)) (code r) (code r')"
    "\<forall>(a, p) \<in> set (place (cursor r) (pieces is)). piece_ok cfg r' (insert (g, cursor r) (addresses r)) a p"
    "\<And>h. h \<noteq> g \<Longrightarrow> address (block_metadata r' h) = address (block_metadata r h)"
    "\<And>h. h \<noteq> g \<Longrightarrow> address_end (block_metadata r' h) = address_end (block_metadata r h)"
    "\<And>h. h \<noteq> g \<Longrightarrow> guest_address (block_metadata r' h) = guest_address (block_metadata r h)"
    "address (block_metadata r' g) = cursor r" "address_end (block_metadata r' g) = e" "guest_address (block_metadata r' g) = g"
    "\<And>h. set (pending_links (block_metadata r h)) \<subseteq> set (pending_links (block_metadata r' h))"
    "\<And>h a. a \<in> set (pending_links (block_metadata r' h)) \<Longrightarrow> a \<in> set (pending_links (block_metadata r h)) \<or> (a, Link h) \<in> set (place (cursor r) (pieces is))"
    "host_pc_map r' = omap_insert (e - 1) g (host_pc_map r)" "sorted_wrt (<) (map fst (page_map r'))"
    "\<And>q. set (page_blocks r' q) = set (page_blocks r q) \<union> (if q \<in> guest_pages g is then {g} else {})"
    "address_cache r' = (if cfg_address_cache cfg then (address_cache r)(cache_index g := \<lparr>host = cursor r, guest = g\<rparr>) else address_cache r)"
    "history r' = \<lparr>v_start = cursor r, v_end = e, v_guest = g, v_insns = is\<rparr> # history r"
  using assms(1) unfolding extends_def Let_def e_def [symmetric] by blast+

lemma extensionD:
  assumes "extension cfg P plan m w X g r r'"
  shows "cache_inv cfg P plan m w X r" "X \<subseteq> {g}" "\<not> blockExists r g" "valid_rip cfg g" "plan_ok cfg plan" "cfg_protect_pages cfg"
    "unat (cursor r) + 90000 \<le> unat (code_cache r) + 2 ^ 26" "extends cfg g (plan m g) r r'"
  using assms unfolding extension_def by blast+

lemma extension_geometry:
  assumes x: "extension cfg P plan m w X g r r'"
  shows "unat (cursor r') = unat (cursor r) + psizes (pieces (plan m g))" "10 \<le> psizes (pieces (plan m g))" "cursor r \<noteq> 0"
    "unat (cursor r' - 1) = unat (cursor r') - 1" "unat (cursor r') \<le> unat (code_cache r) + 2 ^ 26"
    "starts r' = insert (g, cursor r) (starts r)" "frame P r'"
proof -
  note inv = extensionD(1) [OF x] and ext = extensionD(8) [OF x]
  note pl = plan_okD(1,2) [OF extensionD(5,4) [OF x], of m]
  have base: "unat (code_cache r) < 2 ^ 61" "unat (start_of_code_cache r) \<le> unat (cursor r)" "0 < unat (code_cache r)"
    using cache_invD(1,2) [OF inv] by (simp_all add: frame_def)
  show e: "unat (cursor r') = unat (cursor r) + psizes (pieces (plan m g))"
    unfolding extendsD(1) [OF ext] using base extensionD(7) [OF x] pl(2) by (intro unat_step) simp
  show "10 \<le> psizes (pieces (plan m g))" by (rule roomy_size [OF pl(1)])
  then show "unat (cursor r' - 1) = unat (cursor r') - 1" using e unat_minus_small [of 1 "cursor r'"] by simp
  show "cursor r \<noteq> 0" using base frame_nat(3) [OF cache_invD(1) [OF inv]] by auto
  show "unat (cursor r') \<le> unat (code_cache r) + 2 ^ 26" using e extensionD(7) [OF x] pl(2) by simp
  show "starts r' = insert (g, cursor r) (starts r)" by (simp add: starts_def extendsD(20) [OF ext])
  show "frame P r'" using cache_invD(1) [OF inv] by (simp add: frame_def extendsD(2-5) [OF ext])
qed

lemma extension_new:
  assumes x: "extension cfg P plan m w X g r r'" and v: "v = new_version plan m g r"
  shows "version_ok cfg r' v" "tail_ok cfg r' (starts r') v" "current cfg plan m (new_writable cfg plan m g w) r' v"
proof -
  note inv = extensionD(1) [OF x] and ext = extensionD(8) [OF x] and g = extensionD(4) [OF x] and geo = extension_geometry [OF x]
  note pl = plan_okD(1-4) [OF extensionD(5) [OF x] g, of m]
  have ok: "piece_ok cfg r' (starts r') a p" if "(a, p) \<in> set (placed v)" for a p
    using extendsD(7) [OF ext] that addresses_starts [OF inv] unfolding placed_def v geo(6)
    by (auto intro: piece_mono [of _ _ "insert (g, cursor r) (addresses r)"])
  show "version_ok cfg r' v"
    using pl(1) g geo(1) cache_invD(2,4) [OF inv] extendsD(1,3,13) [OF ext] by (simp add: version_ok_def v)
  show "tail_ok cfg r' (starts r') v" using ok unfolding tail_ok_def by blast
  have "\<not> new_writable cfg plan m g w p \<and> g \<in> set (page_blocks r' p)" if "p \<in> guest_pages g (plan m g)" for p
    using that guest_pages_read_only [OF extensionD(6) [OF x] _ pl(3,4) that, of w] g by (simp add: extendsD(18) [OF ext] valid_rip_def)
  then show "current cfg plan m (new_writable cfg plan m g w) r' v"
    using ok by (auto simp: current_def head_ok_def v extendsD(11) [OF ext])
qed

lemma extension_old:
  assumes x: "extension cfg P plan m w X g r r'" and u: "u \<in> set (history r)"
  shows "version_ok cfg r' u" "tail_ok cfg r' (starts r') u" "patched r' u \<or> current cfg plan m (new_writable cfg plan m g w) r' u"
proof -
  note inv = extensionD(1) [OF x] and ext = extensionD(8) [OF x] and geo = extension_geometry [OF x]
  note sp = placed_facts [OF inv u]
  have le: "unat (v_end u) \<le> unat (cursor r)" using cache_invD(5) [OF inv u] by (simp add: version_ok_def)
  have a62: "unat (v_start u) < 2 ^ 62" by (rule spot_facts(1) [OF cache_invD(1) [OF inv] sp(3)])
  have keep: "piece_ok cfg r' (starts r') a p" if "(a, p) \<in> set (placed u)" "piece_ok cfg r (starts r) a p" for a p
  proof (rule piece_mono)
    show "piece_ok cfg r' (starts r) a p"
      by (rule piece_keeps [OF that(2) extendsD(6) [OF ext] _ _ extendsD(4) [OF ext] extendsD(14) [OF ext]])
        (use sp(4) [OF that(1)] le in auto)
  qed (use geo(6) in blast)
  show "version_ok cfg r' u"
    using cache_invD(5) [OF inv u] geo(1) extendsD(10) [OF ext, of "v_guest u"] extendsD(13) [OF ext]
    by (cases "v_guest u = g") (simp_all add: version_ok_def extendsD(3) [OF ext])
  show "tail_ok cfg r' (starts r') u" using cache_invD(6) [OF inv u] keep unfolding tail_ok_def by blast
  have "patched r' u" if "patched r u"
    using that sp(2) le cache_invD(5) [OF inv u] unfolding patched_def extendsD(5) [OF ext]
    by (intro jump_keeps(1) [OF extendsD(6) [OF ext] a62]) (auto simp: version_ok_def)
  moreover have "current cfg plan m (new_writable cfg plan m g w) r' u" if c: "current cfg plan m w r u"
  proof -
    have "blockExists r (v_guest u)" using c null_not_start [OF inv u] by (simp add: current_def blockExists_def)
    then have n: "v_guest u \<noteq> g" using extensionD(3) [OF x] by auto
    have "head_ok cfg r' (starts r') u" using c keep unfolding current_def head_ok_def by blast
    moreover have "new_writable cfg plan m g w p \<Longrightarrow> w p" for p by (simp add: markPagesAsReadOnly_def split: if_splits)
    ultimately show ?thesis using c extendsD(8) [OF ext n] by (auto simp: current_def extendsD(18) [OF ext])
  qed
  ultimately show "patched r' u \<or> current cfg plan m (new_writable cfg plan m g w) r' u" using cache_invD(7) [OF inv u] by blast
qed

lemma extension_entries:
  assumes x: "extension cfg P plan m w X g r r'"
  shows "entry_ok cfg r' k"
proof (cases "address_cache r' k = address_cache r k")
  note inv = extensionD(1) [OF x] and ext = extensionD(8) [OF x]
  case True
  show ?thesis
  proof (cases "address_cache r k = empty_entry")
    case False
    then have "guest (address_cache r k) \<noteq> g" using entry_only(3) [OF inv refl False] extensionD(3) [OF x] by auto
    then show ?thesis using cache_invD(11) [OF inv, of k] True extendsD(8) [OF ext] by (simp add: entry_ok_def)
  qed (use True in \<open>simp add: entry_ok_def\<close>)
next
  note ext = extensionD(8) [OF x]
  case False
  then have "cfg_address_cache cfg" "k = cache_index g" "address_cache r' k = \<lparr>host = cursor r, guest = g\<rparr>"
    by (auto simp: extendsD(19) [OF ext] split: if_splits)
  then show ?thesis using extension_geometry(3) [OF x] extendsD(11) [OF ext] by (simp add: entry_ok_def)
qed

lemma extension_host_map:
  assumes x: "extension cfg P plan m w X g r r'"
  shows "sorted_wrt (<) (map fst (host_pc_map r'))" "set (host_pc_map r') = (\<lambda>v. (v_end v - 1, v_guest v)) ` set (history r')"
proof -
  note inv = extensionD(1) [OF x] and ext = extensionD(8) [OF x] and geo = extension_geometry [OF x]
  have fresh: "fst q \<noteq> cursor r' - 1" if q: "q \<in> set (host_pc_map r)" for q
  proof -
    obtain u where u: "u \<in> set (history r)" "fst q = v_end u - 1" using q cache_invD(13) [OF inv] by auto
    have "unat (v_end u) \<le> unat (cursor r)" "0 < unat (v_end u)"
      using cache_invD(5) [OF inv u(1)] placed_facts(2) [OF inv u(1)] by (simp_all add: version_ok_def)
    then have "unat (v_end u - 1) < unat (cursor r' - 1)"
      using unat_minus_small [of 1 "v_end u"] geo(1,2,4) by simp
    then show ?thesis using u(2) by auto
  qed
  then show "sorted_wrt (<) (map fst (host_pc_map r'))" "set (host_pc_map r') = (\<lambda>v. (v_end v - 1, v_guest v)) ` set (history r')"
    using omap_insert_spec(1,2) [OF cache_invD(12) [OF inv]] cache_invD(13) [OF inv] extendsD(1) [OF ext]
    by (auto simp: extendsD(16,20) [OF ext])
qed

lemma extension_listed:
  assumes x: "extension cfg P plan m w X g r r'"
  shows "\<forall>(p, gs) \<in> set (page_map r'). \<forall>h \<in> set gs. blockExists r' h \<or> h \<in> {}"
proof -
  note inv = extensionD(1) [OF x] and ext = extensionD(8) [OF x]
  have "blockExists r' h" if "h \<in> set (page_blocks r' q)" for h q
  proof (cases "h = g")
    case False
    then have "h \<in> set (page_blocks r q)" using that by (auto simp: extendsD(18) [OF ext] split: if_splits)
    then have "blockExists r h \<or> h \<in> X" using page_listed [of h r q] cache_invD(15) [OF inv] by blast
    then show ?thesis using False extensionD(2) [OF x] extendsD(8) [OF ext] by (auto simp: blockExists_def)
  qed (use extension_geometry(3) [OF x] extendsD(11) [OF ext] in \<open>simp add: blockExists_def\<close>)
  then show ?thesis using listed_iff [OF extendsD(17) [OF ext], of "blockExists r'"] by simp
qed

lemma extend_inv:
  assumes x: "extension cfg P plan m w X g r r'"
  shows "cache_inv cfg P plan m (new_writable cfg plan m g w) {} r'"
proof -
  note inv = extensionD(1) [OF x] and ext = extensionD(8) [OF x] and geo = extension_geometry [OF x]
  have versions: "\<forall>u \<in> set (history r'). version_ok cfg r' u \<and> tail_ok cfg r' (starts r') u
      \<and> (patched r' u \<or> current cfg plan m (new_writable cfg plan m g w) r' u)"
    using extension_new [OF x refl] extension_old [OF x] by (simp add: extendsD(20) [OF ext])
  have "unat (v_end u) \<le> unat (cursor r)" if "u \<in> set (history r)" for u
    using cache_invD(5) [OF inv that] by (simp add: version_ok_def)
  then have sorted: "sorted_wrt (\<lambda>v u. unat (v_end u) \<le> unat (v_start v)) (history r')"
    using cache_invD(8) [OF inv] by (simp add: extendsD(20) [OF ext])
  have exists: "\<exists>u \<in> set (history r'). v_guest u = h \<and> v_start u = address (block_metadata r' h) \<and> v_end u = address_end (block_metadata r' h)"
    if "blockExists r' h" for h
  proof (cases "h = g")
    case False
    then have "blockExists r h" using that extendsD(8) [OF ext] by (simp add: blockExists_def)
    then show ?thesis using cache_invD(9) [OF inv, of h] False extendsD(8,9) [OF ext] by (auto simp: extendsD(20) [OF ext])
  qed (simp add: extendsD(11,12,20) [OF ext])
  have pending: "\<exists>u \<in> set (history r'). (a, Link h) \<in> set (placed u)" if "a \<in> set (pending_links (block_metadata r' h))" for a h
    using extendsD(15) [OF ext that] cache_invD(10) [OF inv, of a h] by (auto simp: extendsD(20) [OF ext] placed_def)
  have "unat (start_of_code_cache r') \<le> unat (cursor r')" "unat (cursor r') \<le> unat (code_cache r') + 2 ^ 26" "even (unat (cursor r'))"
    using geo(1,5) cache_invD(2,4) [OF inv] even_psizes by (simp_all add: extendsD(2,3) [OF ext])
  then show ?thesis
    using geo(7) versions sorted exists pending extension_entries [OF x] extension_host_map [OF x] extendsD(17) [OF ext]
      extension_listed [OF x] unfolding cache_inv_def by blast
qed

section \<open>\<^verbatim>\<open>compile\<close>\<close>

lemma clear_inv:
  assumes "frame P r"
  shows "cache_inv cfg P plan m w {} (clearCodeCache P r)" "\<not> blockExists (clearCodeCache P r) g"
    "unat (cursor (clearCodeCache P r)) + 100000 \<le> unat (code_cache (clearCodeCache P r)) + 2 ^ 26"
proof -
  let ?r = "clearCodeCache P r"
  have f: "frame P ?r" using assms by (simp add: frame_def clearCodeCache_def emitNecessaryStuff_def)
  have c: "cursor ?r = start_of_code_cache ?r" "history ?r = []" "block_metadata ?r = (\<lambda>_. no_block)"
    "address_cache ?r = (\<lambda>_. empty_entry)" "host_pc_map ?r = []" "page_map ?r = []"
    by (simp_all add: clearCodeCache_def emitNecessaryStuff_def)
  have p: "unat (prologue_size P) < 2 ^ 20" using f by (simp add: frame_def prologue_ok_def)
  show b: "\<not> blockExists ?r g" for g by (simp add: blockExists_def c no_block_def)
  show "unat (cursor ?r) + 100000 \<le> unat (code_cache ?r) + 2 ^ 26" using frame_nat(3) [OF f] p by (simp add: c)
  show "cache_inv cfg P plan m w {} ?r"
    using f frame_nat(3) [OF f] frame_even(3) [OF f] p b by (simp add: cache_inv_def c entry_ok_def no_block_def)
qed

text \<open>The state in which the new block is emitted.\<close>

definition make_room :: "prologue \<Rightarrow> Recompiler \<Rightarrow> Recompiler" where
  "make_room P r = (if code_cache_size - (cursor r - code_cache r) < 100000 then clearCodeCache P r else r)"

lemma make_room_inv:
  assumes inv: "cache_inv cfg P plan m w X r" and g: "\<not> blockExists r g"
  shows "cache_inv cfg P plan m w X (make_room P r)" "\<not> blockExists (make_room P r) g"
    "unat (cursor (make_room P r)) + 90000 \<le> unat (code_cache (make_room P r)) + 2 ^ 26"
proof -
  note f = cache_invD(1) [OF inv]
  note c = clear_inv [OF f]
  have le: "unat (code_cache r) \<le> unat (cursor r)" "unat (cursor r) \<le> unat (code_cache r) + 2 ^ 26"
    using cache_invD(2,3) [OF inv] frame_nat(3) [OF f] by simp_all
  have s: "unat code_cache_size = 2 ^ 26" by (simp add: code_cache_size_def)
  have "unat (code_cache_size - (cursor r - code_cache r)) = 2 ^ 26 - (unat (cursor r) - unat (code_cache r))"
    using le s by (subst unat_minus_small) (simp_all add: unat_minus_small)
  then have big: "unat (cursor r) + 100000 \<le> unat (code_cache r) + 2 ^ 26" if "\<not> code_cache_size - (cursor r - code_cache r) < 100000"
    using that le by (simp add: word_less_nat_alt)
  show "cache_inv cfg P plan m w X (make_room P r)" using inv cache_inv_mono [OF c(1)] by (simp add: make_room_def)
  show "\<not> blockExists (make_room P r) g" using g c(2) by (simp add: make_room_def)
  show "unat (cursor (make_room P r)) + 90000 \<le> unat (code_cache (make_room P r)) + 2 ^ 26"
    using c(3) big by (auto simp: make_room_def)
qed

text \<open>Emission and registration give an extension.\<close>

definition registered :: "cache_config \<Rightarrow> u64 \<Rightarrow> insns \<Rightarrow> Recompiler \<Rightarrow> (u64 \<times> Recompiler) option" where
  "registered cfg g is r = do {
     let start = cursor r;
     let r = set_meta g (\<lambda>b. b\<lparr>address := start\<rparr>) r;
     (end_rip, r) \<leftarrow> compile_block cfg is g r;
     ASSERT (8 \<le> cursor r - start);
     let b = block_metadata r g;
     let r = r\<lparr>host_pc_map := omap_insert (address_end b - 1) g (host_pc_map r)\<rparr>;
     r \<leftarrow> register_pages g (page_of (guest_address b)) (page_of (guest_address_end b - 1)) r;
     let r = (if cfg_address_cache cfg then set_entry (guest_address b) \<lparr>host = address b, guest = guest_address b\<rparr> r else r);
     Some (end_rip, r\<lparr>history := \<lparr>v_start = start, v_end = address_end b, v_guest = g, v_insns = is\<rparr> # history r\<rparr>)
   }"

lemma emitted_start:
  fixes r g
  defines "r2 \<equiv> set_meta g (\<lambda>b. b\<lparr>guest_address := g\<rparr>) (set_meta g (\<lambda>b. b\<lparr>address := cursor r\<rparr>) r)"
  shows "cursor r2 = cursor r" "code r2 = code r" "code_cache r2 = code_cache r" "start_of_code_cache r2 = start_of_code_cache r"
    "compile_next_handler r2 = compile_next_handler r" "invalidate_caller_thunk r2 = invalidate_caller_thunk r"
    "host_pc_map r2 = host_pc_map r" "page_map r2 = page_map r" "address_cache r2 = address_cache r" "history r2 = history r"
    "addresses r2 \<subseteq> insert (g, cursor r) (addresses r)"
    "pending_links (block_metadata r2 h) = pending_links (block_metadata r h)"
    "h \<noteq> g \<Longrightarrow> block_metadata r2 h = block_metadata r h" "address (block_metadata r2 g) = cursor r" "guest_address (block_metadata r2 g) = g"
  by (auto simp: r2_def set_meta_def addresses_def blockExists_def)

lemma registered_extends:
  assumes inv: "cache_inv cfg P plan m w X r" and ins: "roomy is" "psizes (pieces is) \<le> 90000" "0 < guest_length is" "guest_length is \<le> 2 ^ 47"
    and g: "valid_rip cfg g" and room: "unat (cursor r) + 90000 \<le> unat (code_cache r) + 2 ^ 26"
  shows "\<exists>r'. registered cfg g is r = Some (g + of_nat (guest_length is), r') \<and> extends cfg g is r r'"
proof -
  let ?s = "cursor r" and ?e = "cursor r + of_nat (psizes (pieces is))"
  define r2 where "r2 = set_meta g (\<lambda>b. b\<lparr>guest_address := g\<rparr>) (set_meta g (\<lambda>b. b\<lparr>address := cursor r\<rparr>) r)"
  note s = emitted_start [where r = r and g = g, folded r2_def]
  note f = cache_invD(1) [OF inv]
  have base: "unat (code_cache r) < 2 ^ 61" using f by (simp add: frame_def)
  have "targets_ok r2"
    unfolding targets_ok_def
  proof (intro allI impI)
    fix T assume T: "blockExists r2 T"
    show "unat (code_cache r2) \<le> unat (address (block_metadata r2 T)) \<and> unat (address (block_metadata r2 T)) \<le> unat (code_cache r2) + 2 ^ 26"
    proof (cases "T = g")
      case True
      then show ?thesis using room cache_invD(2) [OF inv] frame_nat(3) [OF f] by (simp add: s)
    next
      case False
      then show ?thesis using T cache_inv_targets [OF inv] by (simp add: targets_ok_def blockExists_def s)
    qed
  qed
  moreover have "frame P r2" using f by (simp add: frame_def s)
  ultimately have room2: "room P (psizes (pieces is)) r2"
    using room ins(2) cache_invD(2) [OF inv] by (simp add: room_def s)
  then obtain r3 where r3: "emit_insns cfg g is g r2 = Some (g + of_nat (guest_length is), r3)" "emitted cfg (pieces is) r2 r3"
    using emit_insns_spec by blast
  note fl = emitted_fields [OF r3(2)] and e = emittedD [OF r3(2)]
  have cur: "cursor r3 = ?e" by (simp add: fl s)
  have ue: "unat ?e = unat ?s + psizes (pieces is)" using base room ins(2) by (intro unat_step) simp
  define r4 where "r4 = set_meta g (\<lambda>b. b\<lparr>guest_address_end := g + of_nat (guest_length is), address_end := ?e\<rparr>) r3"
  have cb: "compile_block cfg is g (set_meta g (\<lambda>b. b\<lparr>address := cursor r\<rparr>) r) = Some (g + of_nat (guest_length is), r4)"
    using r3(1) by (simp add: compile_block_def r2_def [symmetric] r4_def cur)
  have m4: "address (block_metadata r4 g) = ?s" "guest_address (block_metadata r4 g) = g" "address_end (block_metadata r4 g) = ?e"
    "guest_address_end (block_metadata r4 g) = g + of_nat (guest_length is)" "cursor r4 = ?e" "host_pc_map r4 = host_pc_map r"
    using e(2) s by (simp_all add: r4_def set_meta_def same_blocks_def cur fl)
  have "8 \<le> ?e - ?s" using roomy_size [OF ins(1)] ue unat_minus_small [of ?s ?e] by (simp add: word_le_nat_alt)
  define r5 where "r5 = fold (register_page g) (pages_between (page_of g) (page_of (g + of_nat (guest_length is) - 1)))
    (r4\<lparr>host_pc_map := omap_insert (?e - 1) g (host_pc_map r)\<rparr>)"
  define r6 where "r6 = (if cfg_address_cache cfg then set_entry g \<lparr>host = ?s, guest = g\<rparr> r5 else r5)"
  define r7 where "r7 = r6\<lparr>history := \<lparr>v_start = ?s, v_end = ?e, v_guest = g, v_insns = is\<rparr> # history r6\<rparr>"
  have reg: "registered cfg g is r = Some (g + of_nat (guest_length is), r7)"
    using cb m4 \<open>8 \<le> ?e - ?s\<close> last_page_small [OF _ ins(3,4)] g
    by (simp add: registered_def register_pages_def Let_def r5_def r6_def r7_def valid_rip_def)
  have sorted: "sorted_wrt (<) (map fst (page_map (r4\<lparr>host_pc_map := omap_insert (?e - 1) g (host_pc_map r)\<rparr>)))"
    using cache_invD(14) [OF inv] by (simp add: r4_def set_meta_def fl s)
  note reg5 = register_fold [OF sorted, of g "pages_between (page_of g) (page_of (g + of_nat (guest_length is) - 1))", folded r5_def]
  obtain pm where pm: "r5 = r4\<lparr>host_pc_map := omap_insert (?e - 1) g (host_pc_map r), page_map := pm\<rparr>" using reg5 by blast
  have "page_map r5 = pm" by (simp add: pm)
  moreover have "page_blocks (r4\<lparr>host_pc_map := omap_insert (?e - 1) g (host_pc_map r)\<rparr>) q = page_blocks r q" for q
    by (simp add: page_blocks_def r4_def set_meta_def fl s)
  ultimately have pages: "sorted_wrt (<) (map fst pm)"
    "\<And>q. set (page_blocks r5 q) = set (page_blocks r q) \<union> (if q \<in> guest_pages g is then {g} else {})"
    using reg5 by (simp_all add: guest_pages_def)
  have r7: "cursor r7 = ?e" "code r7 = code r3" "code_cache r7 = code_cache r" "start_of_code_cache r7 = start_of_code_cache r"
    "compile_next_handler r7 = compile_next_handler r" "invalidate_caller_thunk r7 = invalidate_caller_thunk r"
    "block_metadata r7 = block_metadata r4" "host_pc_map r7 = omap_insert (?e - 1) g (host_pc_map r)" "page_map r7 = pm"
    "address_cache r7 = (if cfg_address_cache cfg then (address_cache r)(cache_index g := \<lparr>host = ?s, guest = g\<rparr>) else address_cache r)"
    "history r7 = \<lparr>v_start = ?s, v_end = ?e, v_guest = g, v_insns = is\<rparr> # history r" "page_blocks r7 = page_blocks r5"
    by (simp_all add: r7_def r6_def set_entry_def pm r4_def set_meta_def fl s page_blocks_def fun_eq_iff)
  have "piece_ok cfg r7 (insert (g, ?s) (addresses r)) a p" if "(a, p) \<in> set (place ?s (pieces is))" for a p
  proof (rule piece_mono [OF _ s(11)])
    have "piece_ok cfg r7 (addresses r2) a p = piece_ok cfg r3 (addresses r2) a p"
      by (rule piece_ok_same) (simp_all add: r7 r4_def set_meta_def fl s)
    then show "piece_ok cfg r7 (addresses r2) a p" using e(6) [of a p] that by (simp add: s)
  qed
  then have "extends cfg g is r r7"
    unfolding extends_def Let_def
    using e(2-5) pages m4 s by (auto simp: r7 r4_def set_meta_def same_blocks_def)
  then show ?thesis using reg by blast
qed

lemma wrap_rip_valid: "valid_rip cfg g \<Longrightarrow> wrap_rip cfg g = g"
  by (auto simp: wrap_rip_def valid_rip_def word_le_nat_alt)

lemma compile_eq:
  assumes "valid_rip cfg g"
  shows "compile cfg P plan m g r w = do {
     (end_rip, r') \<leftarrow> registered cfg g (plan m g) (make_room P r);
     r' \<leftarrow> expirePendingLinks cfg g r';
     Some (cursor (make_room P r), r', markPagesAsReadOnly cfg g end_rip w)
   }"
  by (simp add: compile_def registered_def make_room_def Let_def wrap_rip_valid [OF assms] case_prod_unfold)

lemma not_patched: "code r (v_start v) = Some (Insn k) \<Longrightarrow> \<not> patched r v"
  by (simp add: patched_def far_def pair_at_def)

lemma current_code:
  assumes inv: "cache_inv cfg P plan m w X r" and v: "v \<in> set (history r)" "current cfg plan m w r v"
  shows "\<exists>k. code r (v_start v) = Some (Insn k)"
proof -
  obtain k k' q qs where ps: "pieces (v_insns v) = Op k # Op k' # q # qs"
    using cache_invD(5) [OF inv v(1)] roomy_pieces unfolding version_ok_def by blast
  then have "(v_start v, Op k) \<in> set (placed v)" by (simp add: placed_def)
  then show ?thesis using v(2) by (force simp: current_def head_ok_def)
qed

lemma compile_inv:
  assumes inv: "cache_inv cfg P plan m w X r" and X: "X \<subseteq> {g}" "\<not> blockExists r g" and g: "valid_rip cfg g"
    and plan: "plan_ok cfg plan" and pp: "cfg_protect_pages cfg"
  shows "\<exists>s r' w'. compile cfg P plan m g r w = Some (s, r', w') \<and> cache_inv cfg P plan m w' {} r' \<and> (\<forall>p. w' p \<longrightarrow> w p)
    \<and> (\<exists>v \<in> set (history r'). v_guest v = g \<and> v_start v = s \<and> current cfg plan m w' r' v)"
proof -
  let ?r = "make_room P r" and ?w = "new_writable cfg plan m g w"
  note room = make_room_inv [OF inv X(2)]
  obtain r1 where r1: "registered cfg g (plan m g) ?r = Some (g + of_nat (guest_length (plan m g)), r1)" "extends cfg g (plan m g) ?r r1"
    using registered_extends [OF room(1) plan_okD(1-4) [OF plan g] g room(3)] by blast
  have x: "extension cfg P plan m w X g ?r r1"
    using room X g plan pp r1(2) by (simp add: extension_def)
  let ?v = "new_version plan m g ?r"
  have v: "?v \<in> set (history r1)" by (simp add: extendsD(20) [OF r1(2)])
  obtain k where k: "code r1 (v_start ?v) = Some (Insn k)"
    using current_code [OF extend_inv [OF x] v extension_new(3) [OF x refl]] by blast
  obtain r' where r': "expirePendingLinks cfg g r1 = Some r'" "cache_inv cfg P plan m ?w {} r'" "history r' = history r1"
    "code r' (v_start ?v) = Some (Insn k)"
    using expirePendingLinks_inv [OF extend_inv [OF x], of g] v k by blast
  have "current cfg plan m ?w r' ?v" using cache_invD(7) [OF r'(2), of ?v] not_patched [OF r'(4)] v r'(3) by auto
  moreover have "compile cfg P plan m g r w = Some (cursor ?r, r', ?w)"
    using r1(1) r'(1) by (simp add: compile_eq [OF g])
  moreover have "?w p \<Longrightarrow> w p" for p by (simp add: markPagesAsReadOnly_def split: if_splits)
  moreover have "?v \<in> set (history r')" using v r'(3) by simp
  ultimately show ?thesis
    using r'(2) by (intro exI [of _ "cursor ?r"] exI [of _ r'] exI [of _ ?w]) (auto intro!: bexI [of _ ?v])
qed

section \<open>The dispatcher\<close>

lemma dispatch_inv:
  assumes inv: "cache_inv cfg P plan m w {g} r" and g: "valid_rip cfg g" and plan: "plan_ok cfg plan" and pp: "cfg_protect_pages cfg"
  shows "\<exists>h r' w'. dispatch cfg P plan m g r w = Some (h, r', w') \<and> cache_inv cfg P plan m w' {} r' \<and> (\<forall>p. w' p \<longrightarrow> w p)
    \<and> (\<exists>v \<in> set (history r'). v_guest v = g \<and> v_start v = h \<and> address (block_metadata r' g) = h
        \<and> (blockExists r g \<or> current cfg plan m w' r' v))"
proof (cases "blockExists r g")
  case True
  let ?h = "address (block_metadata r g)" and ?en = "address_cache r (cache_index g)"
  note inv0 = cache_inv_exists [OF inv True]
  have h: "?h \<noteq> 0" using True by (simp add: blockExists_def)
  obtain v where v: "v \<in> set (history r)" "v_guest v = g" "v_start v = ?h" using version_of [OF inv True] by blast
  have en: "host ?en = ?h" if "guest ?en = g"
    using cache_invD(11) [OF inv, of "cache_index g"] that g by (auto simp: entry_ok_def empty_entry_def valid_rip_def)
  let ?r = "set_entry g \<lparr>host = ?h, guest = g\<rparr> r"
  have "cfg_address_cache cfg \<Longrightarrow> cache_inv cfg P plan m w {} ?r"
    using h by (intro set_entry_inv [OF inv0]) simp
  moreover have "history ?r = history r" "block_metadata ?r = block_metadata r" by (simp_all add: set_entry_def)
  ultimately have "\<exists>r'. dispatch cfg P plan m g r w = Some (?h, r', w) \<and> cache_inv cfg P plan m w {} r'
      \<and> history r' = history r \<and> block_metadata r' = block_metadata r"
    using True h en inv0 by (auto simp: dispatch_def CompileNext_def getCompiledBlock_def Let_def)
  then show ?thesis using v True by (auto intro!: bexI [of _ v])
next
  case False
  obtain s r' w' v where c: "compile cfg P plan m g r w = Some (s, r', w')" "cache_inv cfg P plan m w' {} r'" "\<forall>p. w' p \<longrightarrow> w p"
    "v \<in> set (history r')" "v_guest v = g" "v_start v = s" "current cfg plan m w' r' v"
    using compile_inv [OF inv _ False g plan pp] by blast
  have "guest (address_cache r (cache_index g)) \<noteq> g"
  proof
    assume a: "guest (address_cache r (cache_index g)) = g"
    have "guest empty_entry \<noteq> g" using g by (simp add: empty_entry_def valid_rip_def)
    then have "address_cache r (cache_index g) \<noteq> empty_entry" using a by metis
    from entry_only(3) [OF inv a this] False show False by simp
  qed
  then have "dispatch cfg P plan m g r w = Some (s, r', w')"
    using c(1) False null_not_start [OF c(2,4)] c(6) by (simp add: dispatch_def CompileNext_def getCompiledBlock_def Let_def)
  then show ?thesis using c by (auto simp: current_def)
qed

end
