(* ===== verification/BlockCacheResume.thy ===== *)
theory BlockCacheResume
  imports BlockCacheCompile
begin

text \<open>
  Control that arrives at a guest address, through the dispatcher or through the link of any
  translation, reaches a translation of the guest memory as it is then.
\<close>

section \<open>Control reaches a current translation\<close>

definition translation_at :: "cache_config \<Rightarrow> Recompiler \<Rightarrow> u64 \<Rightarrow> insns \<Rightarrow> bool" where
  "translation_at cfg r a is \<longleftrightarrow> (\<forall>(b, p) \<in> set (place a (pieces is)). piece_ok cfg r (starts r) b p)"

lemma current_translation:
  assumes inv: "cache_inv cfg P plan m w X r" and v: "v \<in> set (history r)" "current cfg plan m w r v"
  shows "translation_at cfg r (v_start v) (plan m (v_guest v))"
  using cache_invD(6) [OF inv v(1)] v(2) not_le
  unfolding translation_at_def tail_ok_def current_def head_ok_def placed_def by fastforce

lemma follow_body:
  assumes inv: "cache_inv cfg P plan m w X r" and v: "v \<in> set (history r)" "current cfg plan m w r v"
  shows "follow (Suc n) r (v_start v) x = Body (v_start v)"
proof -
  obtain k where "code r (v_start v) = Some (Insn k)" using current_code [OF inv v] by blast
  then show ?thesis
    using spot_facts(4) [OF cache_invD(1) [OF inv] placed_facts(3) [OF inv v(1)]] by (subst follow.simps) auto
qed

lemma follow_patched:
  assumes inv: "cache_inv cfg P plan m w X r" and v: "v \<in> set (history r)" "patched r v"
  shows "follow (Suc (Suc n)) r (v_start v) x = Thunk (v_start v + 8) (x t5)"
proof -
  note f = cache_invD(1) [OF inv] and s = placed_facts(3) [OF inv v(1)]
  note spot = spot_facts [OF f s]
  obtain y where "follow (Suc (Suc n)) r (v_start v) x = follow n r (invalidate_caller_thunk r) (set_hreg t6 (v_start v + 8) (x(t4 := y)))"
    using follow_far [OF v(2) [unfolded patched_def] _ frame_even(2) [OF f] in_reach [OF f s entries_in_cache(3,4) [OF f]] spot(4,5), of n x]
    by auto
  then show ?thesis using frame_even(4) [OF f] by (subst (asm) (2) follow.simps) (simp add: set_hreg_def)
qed

declare resume.simps [simp del]

definition arrives :: "cache_config \<Rightarrow> prologue \<Rightarrow> block_plan \<Rightarrow> guest_memory \<Rightarrow> u64 \<Rightarrow> (u64 \<Rightarrow> bool) \<Rightarrow> (u64 \<times> Recompiler \<times> (u64 \<Rightarrow> bool)) option \<Rightarrow> bool" where
  "arrives cfg P plan m rip w res \<longleftrightarrow> (\<exists>a r' w'. res = Some (a, r', w') \<and> cache_inv cfg P plan m w' {} r'
     \<and> (\<forall>p. w' p \<longrightarrow> w p) \<and> translation_at cfg r' a (plan m rip))"

lemma arrives_mono: "arrives cfg P plan m rip w' res \<Longrightarrow> (\<forall>p. w' p \<longrightarrow> w p) \<Longrightarrow> arrives cfg P plan m rip w res"
  unfolding arrives_def by blast

lemma resume_current:
  assumes inv: "cache_inv cfg P plan m w {} r" and v: "v \<in> set (history r)" "current cfg plan m w r v"
  shows "arrives cfg P plan m (v_guest v) w (resume n cfg P plan m (v_guest v) (v_start v) x r w)"
  using follow_body [OF inv v, of 4 x] current_translation [OF inv v] inv
  by (subst resume.simps) (simp add: arrives_def numeral_eq_Suc)

text \<open>A patched translation that the dispatcher still names is replaced at once.\<close>

lemma resume_stale:
  assumes inv: "cache_inv cfg P plan m w {} r" and v: "v \<in> set (history r)" "patched r v" "address (block_metadata r (v_guest v)) = v_start v"
    and plan: "plan_ok cfg plan" and pp: "cfg_protect_pages cfg" and x: "x t5 = 0"
  shows "arrives cfg P plan m (v_guest v) w (resume (Suc n) cfg P plan m (v_guest v) (v_start v) x r w)"
proof -
  let ?g = "v_guest v"
  have g: "valid_rip cfg ?g" using cache_invD(5) [OF inv v(1)] by (simp add: version_ok_def)
  obtain r1 where r1: "invalidateAt cfg (v_start v + 8) 0 r = Some r1" "cache_inv cfg P plan m w {?g} r1" "\<not> blockExists r1 ?g"
    using invalidateAt_inv [OF inv v(1,2), of 0] v(3) by auto
  obtain h r2 w2 u where d: "dispatch cfg P plan m ?g r1 w = Some (h, r2, w2)" "cache_inv cfg P plan m w2 {} r2" "\<forall>p. w2 p \<longrightarrow> w p"
    "u \<in> set (history r2)" "v_guest u = ?g" "v_start u = h" "current cfg plan m w2 r2 u"
    using dispatch_inv [OF r1(2) g plan pp] r1(3) by blast
  have "arrives cfg P plan m ?g w2 (resume n cfg P plan m ?g h (x(t5 := 0)) r2 w2)"
    using resume_current [OF d(2,4,7), of n "x(t5 := 0)"] d(5,6) by simp
  then have "arrives cfg P plan m ?g w (resume n cfg P plan m ?g h (x(t5 := 0)) r2 w2)" using arrives_mono d(3) by blast
  then show ?thesis
    using follow_patched [OF inv v(1,2), of 3 x] r1(1) d(1) x by (subst resume.simps) (simp add: numeral_eq_Suc)
qed

lemma resume_dispatched:
  assumes inv: "cache_inv cfg P plan m w {g} r" and g: "valid_rip cfg g" and plan: "plan_ok cfg plan" and pp: "cfg_protect_pages cfg"
    and x: "x t5 = 0"
  shows "\<exists>h r' w'. dispatch cfg P plan m g r w = Some (h, r', w')
    \<and> arrives cfg P plan m g w (resume (Suc n) cfg P plan m g h x r' w')"
proof -
  obtain h r' w' v where d: "dispatch cfg P plan m g r w = Some (h, r', w')" "cache_inv cfg P plan m w' {} r'" "\<forall>p. w' p \<longrightarrow> w p"
    "v \<in> set (history r')" "v_guest v = g" "v_start v = h" "address (block_metadata r' g) = h"
    using dispatch_inv [OF inv g plan pp] by blast
  have "arrives cfg P plan m g w' (resume (Suc n) cfg P plan m g h x r' w')"
  proof (cases "current cfg plan m w' r' v")
    case True
    then show ?thesis using resume_current [OF d(2,4), of "Suc n" x] d(5,6) by simp
  next
    case False
    then have "patched r' v" using cache_invD(7) [OF d(2,4)] by blast
    then show ?thesis using resume_stale [where x = x and n = n, OF d(2,4) _ _ plan pp x] d(5-7) by simp
  qed
  then show ?thesis using d(1,3) arrives_mono by blast
qed

lemma resume_dispatcher:
  assumes inv: "cache_inv cfg P plan m w {} r" and g: "valid_rip cfg g" and plan: "plan_ok cfg plan" and pp: "cfg_protect_pages cfg"
    and f: "follow 5 r pc x = Dispatcher"
  shows "arrives cfg P plan m g w (resume 2 cfg P plan m g pc x r w)"
proof -
  obtain h r' w' where "dispatch cfg P plan m g r w = Some (h, r', w')" "arrives cfg P plan m g w (resume 1 cfg P plan m g h (x(t5 := 0)) r' w')"
    using resume_dispatched [where n = 0 and x = "x(t5 := 0)", OF cache_inv_mono [OF inv, of "{g}"] g plan pp] by auto
  then show ?thesis using f by (subst resume.simps) (simp add: numeral_2_eq_2)
qed

lemma resume_linked:
  assumes inv: "cache_inv cfg P plan m w {} r" and plan: "plan_ok cfg plan" and pp: "cfg_protect_pages cfg"
    and v: "v \<in> set (history r)" "patched r v" and u: "u \<in> set (history r)" "(a, Link (v_guest v)) \<in> set (placed u)"
    and f: "follow 5 r pc x = Thunk (v_start v + 8) (a + 8)"
  shows "arrives cfg P plan m (v_guest v) w (resume 2 cfg P plan m (v_guest v) pc x r w)"
proof -
  let ?g = "v_guest v"
  have g: "valid_rip cfg ?g" using cache_invD(5) [OF inv v(1)] by (simp add: version_ok_def)
  obtain r1 where r1: "invalidateAt cfg (v_start v + 8) (a + 8) r = Some r1" "cache_inv cfg P plan m w {?g} r1"
    using invalidateAt_inv [OF inv v, of "a + 8"] u by blast
  obtain h r' w' where "dispatch cfg P plan m ?g r1 w = Some (h, r', w')" "arrives cfg P plan m ?g w (resume 1 cfg P plan m ?g h (x(t5 := 0)) r' w')"
    using resume_dispatched [where n = 0 and x = "x(t5 := 0)", OF r1(2) g plan pp] by auto
  then show ?thesis using f r1(1) by (subst resume.simps) (simp add: numeral_2_eq_2)
qed

text \<open>Control enters through the dispatcher or through the link of any translation, current or not.\<close>

definition entry_point :: "Recompiler \<Rightarrow> u64 \<Rightarrow> u64 \<Rightarrow> bool" where
  "entry_point r pc rip \<longleftrightarrow> pc = compile_next_handler r \<or> (\<exists>u \<in> set (history r). (pc, Link rip) \<in> set (placed u))"

lemma resume_arrives:
  assumes inv: "cache_inv cfg P plan m w {} r" and g: "valid_rip cfg g" and plan: "plan_ok cfg plan" and pp: "cfg_protect_pages cfg"
    and e: "entry_point r pc g"
  shows "arrives cfg P plan m g w (resume 2 cfg P plan m g pc x r w)"
proof (cases "pc = compile_next_handler r")
  case True
  then have "follow 5 r pc x = Dispatcher" by (subst follow.simps) simp
  then show ?thesis by (rule resume_dispatcher [OF inv g plan pp])
next
  case False
  note f = cache_invD(1) [OF inv]
  obtain u where u: "u \<in> set (history r)" "(pc, Link g) \<in> set (placed u)" using e False by (auto simp: entry_point_def)
  have sp: "spot r pc" "unat (v_start u) + 8 \<le> unat pc" using placed_facts(5) [OF inv u] by auto
  note spot = spot_facts [OF f sp(1)]
  have "site_ok cfg r (starts r) pc g" using cache_invD(6) [OF inv u(1)] u(2) sp(2) by (force simp: tail_ok_def)
  then consider "far (code r) pc t6 0 (compile_next_handler r)"
    | v where "v \<in> set (history r)" "v_guest v = g" "direct (code r) pc (v_start v)"
    unfolding site_ok_def starts_def by auto
  then show ?thesis
  proof cases
    case 1
    have "follow 3 r (compile_next_handler r) y = Dispatcher" for y by (subst follow.simps) simp
    then have "follow 5 r pc x = Dispatcher"
      using follow_far [OF 1 _ frame_even(1) [OF f] in_reach [OF f sp(1) entries_in_cache(1,2) [OF f]] spot(4,5), of 3 x]
      by (auto simp: numeral_eq_Suc)
    then show ?thesis by (rule resume_dispatcher [OF inv g plan pp])
  next
    case 2
    have "spot r (v_start v)" "even (unat (v_start v))"
      using placed_facts(3) [OF inv 2(1)] cache_invD(5) [OF inv 2(1)] by (simp_all add: version_ok_def)
    then have "unat (code_cache r) \<le> unat (v_start v)" "unat (v_start v) \<le> unat (code_cache r) + 2 ^ 26"
      using frame_nat(3) [OF f] by (simp_all add: spot_def)
    from follow_direct [OF 2(3) \<open>even (unat (v_start v))\<close> in_reach [OF f sp(1) this] spot(4,5), of 3 x]
    obtain x' where x': "follow 5 r pc x = follow 3 r (v_start v) x'" "x' t5 = pc + 8"
      by (auto simp: numeral_eq_Suc)
    show ?thesis
    proof (cases "patched r v")
      case True
      then have "follow 5 r pc x = Thunk (v_start v + 8) (pc + 8)"
        using follow_patched [OF inv 2(1), of 1 x'] x' by (simp add: numeral_eq_Suc)
      then show ?thesis using resume_linked [OF inv plan pp 2(1) True u(1), of pc] u(2) 2(2) by simp
    next
      case False
      then have c: "current cfg plan m w r v" using cache_invD(7) [OF inv 2(1)] by blast
      have "follow 5 r pc x = Body (v_start v)" using follow_body [OF inv 2(1) c, of 2 x'] x' by (simp add: numeral_eq_Suc)
      then show ?thesis
        using current_translation [OF inv 2(1) c] inv 2(2) by (subst resume.simps) (simp add: arrives_def)
    qed
  qed
qed

end
