(* ===== verification/GuestProcess.thy ===== *)
theory GuestProcess
  imports BlockCacheResume
begin

text \<open>
  Guest processes over the code cache: threads with their own recompilers share guest memory and
  page protection. Whatever the guest writes, maps or protects, control that arrives at a guest
  address reaches a translation of the memory as it is then.
\<close>

section \<open>Guest processes\<close>

record process =
  threads :: "Recompiler list"
  memory :: guest_memory
  writable :: "u64 \<Rightarrow> bool"

text \<open>\<^verbatim>\<open>handle_smc\<close>: a store to a protected page faults, and the handler invalidates the translations
  of the page, makes it writable and lets the store run again.\<close>

definition handle_smc :: "bool \<Rightarrow> u64 \<Rightarrow> process \<Rightarrow> (bool \<times> process) option" where
  "handle_smc pc_in_jit_code si_addr s = (
     if \<not> pc_in_jit_code then Some (False, s)
     else do {
       let write_address = page_of si_addr;
       rs \<leftarrow> invalidateRangeGlobal write_address (write_address + 0x1000) (threads s);
       Some (True, s\<lparr>threads := rs, writable := (writable s)(write_address := True)\<rparr>)
     })"

text \<open>A store of translated code. A fault that is not handled is the guest's.\<close>

definition guest_store :: "u64 \<Rightarrow> u8 \<Rightarrow> process \<Rightarrow> process option" where
  "guest_store a v s = do {
     (handled, s) \<leftarrow> (if writable s (page_of a) then Some (True, s) else handle_smc True a s);
     ASSERT handled;
     Some (s\<lparr>memory := (memory s)(a := v)\<rparr>)
   }"

definition touched :: "u64 \<Rightarrow> u64 \<Rightarrow> u64 \<Rightarrow> bool" where
  "touched start len p \<longleftrightarrow> page_of start \<le> p \<and> p \<le> page_of (start + len + 0xFFF) - 1"

text \<open>The \<^verbatim>\<open>mprotect\<close> system call after the kernel has changed the protection.\<close>

definition guest_mprotect :: "u64 \<Rightarrow> u64 \<Rightarrow> bool \<Rightarrow> process \<Rightarrow> process option" where
  "guest_mprotect start len prot_write s = do {
     let s = s\<lparr>writable := (\<lambda>p. if touched start len p then prot_write else writable s p)\<rparr>;
     if prot_write then do {
       rs \<leftarrow> invalidateRangeGlobal start (start + len) (threads s);
       Some (s\<lparr>threads := rs\<rparr>)
     } else Some s
   }"

text \<open>The \<^verbatim>\<open>mmap\<close> system call after the kernel has put contents \<open>m\<close> with some protection at \<open>result\<close>.\<close>

definition guest_mmap :: "u64 \<Rightarrow> u64 \<Rightarrow> guest_memory \<Rightarrow> bool \<Rightarrow> process \<Rightarrow> process option" where
  "guest_mmap result len m prot_write s = do {
     let s = s\<lparr>memory := (\<lambda>a. if touched result len (page_of a) then m a else memory s a),
               writable := (\<lambda>p. if touched result len p then prot_write else writable s p)\<rparr>;
     rs \<leftarrow> invalidateRangeGlobal result (result + len) (threads s);
     Some (s\<lparr>threads := rs\<rparr>)
   }"

text \<open>A thread's recompiler when it is created, with its code cache at \<open>base\<close>.\<close>

definition new_recompiler :: "prologue \<Rightarrow> u64 \<Rightarrow> Recompiler" where
  "new_recompiler P base = emitNecessaryStuff P \<lparr>code = (\<lambda>_. None), cursor = base, code_cache = base,
     start_of_code_cache = 0, compile_next_handler = 0, invalidate_caller_thunk = 0,
     block_metadata = (\<lambda>_. no_block), host_pc_map = [], page_map = [], address_cache = (\<lambda>_. empty_entry), history = []\<rparr>"

definition base_ok :: "u64 \<Rightarrow> bool" where
  "base_ok base \<longleftrightarrow> even (unat base) \<and> 0 < unat base \<and> unat base < 2 ^ 61"

inductive guest_run :: "cache_config \<Rightarrow> prologue \<Rightarrow> block_plan \<Rightarrow> process \<Rightarrow> bool"
  for cfg P plan where
  start: "guest_run cfg P plan \<lparr>threads = [], memory = m, writable = w\<rparr>"
| thread: "guest_run cfg P plan s \<Longrightarrow> base_ok base \<Longrightarrow> guest_run cfg P plan (s\<lparr>threads := threads s @ [new_recompiler P base]\<rparr>)"
| enter: "guest_run cfg P plan s \<Longrightarrow> i < length (threads s) \<Longrightarrow> valid_rip cfg rip \<Longrightarrow> entry_point (threads s ! i) pc rip
    \<Longrightarrow> resume 2 cfg P plan (memory s) rip pc x (threads s ! i) (writable s) = Some (a, r, w)
    \<Longrightarrow> guest_run cfg P plan (s\<lparr>threads := (threads s)[i := r], writable := w\<rparr>)"
| store: "guest_run cfg P plan s \<Longrightarrow> unat a < 2 ^ 47 \<Longrightarrow> guest_store a v s = Some s' \<Longrightarrow> guest_run cfg P plan s'"
| mprotect: "guest_run cfg P plan s \<Longrightarrow> guest_mprotect start len pw s = Some s' \<Longrightarrow> guest_run cfg P plan s'"
| mmap: "guest_run cfg P plan s \<Longrightarrow> guest_mmap start len m pw s = Some s' \<Longrightarrow> guest_run cfg P plan s'"

lemma page_of_page [simp]: "page_of (page_of a) = page_of a"
  by (simp add: page_of_def and.assoc)

lemma page_in_range:
  assumes "unat a < 2 ^ 47"
  shows "page_of a \<le> page_of (page_of a + 0x1000 + 0xFFF) - 1"
proof -
  have p: "unat (page_of a) < 2 ^ 47"
    unfolding page_of_nat by (rule order.strict_trans1 [OF div_times_less_eq_dividend assms])
  then have "unat (page_of a + 0x1000 + 0xFFF) = unat (page_of a) + 8191"
    using unat_step [of "page_of a" 8191] by (simp add: add.assoc)
  then have "unat (page_of (page_of a + 0x1000 + 0xFFF)) = unat (page_of a) + 4096"
    by (simp add: page_of_nat)
  then have "unat (page_of (page_of a + 0x1000 + 0xFFF) - 1) = unat (page_of a) + 4095"
    by (subst unat_minus_small) simp_all
  then show ?thesis by (simp add: word_le_nat_alt)
qed

section \<open>Invariants of threads\<close>

text \<open>What holds of a recompiler together with guest memory and page protection holds of every
  thread of a process when the operations keep it: protecting more pages, a store to a writable
  page, invalidation of a range before its contents or protection change, and running the thread.\<close>

definition outside :: "u64 \<Rightarrow> u64 \<Rightarrow> u64 \<Rightarrow> bool" where
  "outside lo hi p \<longleftrightarrow> \<not> (lo \<le> p \<and> p \<le> hi - 1)"

lemma compile_protects: "compile cfg P plan m g r w = Some (h, r', w') \<Longrightarrow> w' p \<Longrightarrow> w p"
  by (auto simp: compile_def Let_def bind_eq_Some_conv markPagesAsReadOnly_def split: prod.splits if_splits)

lemma dispatch_protects: "dispatch cfg P plan m g r w = Some (h, r', w') \<Longrightarrow> w' p \<Longrightarrow> w p"
  by (auto simp: dispatch_def CompileNext_def getCompiledBlock_def Let_def bind_eq_Some_conv dest: compile_protects split: if_splits)

lemma resume_protects: "resume n cfg P plan m g pc x r w = Some (a, r', w') \<Longrightarrow> w' p \<Longrightarrow> w p"
proof (induction n arbitrary: pc x r w)
  case 0
  then show ?case by (subst (asm) resume.simps) (auto split: landing.splits)
next
  case (Suc n)
  have step: "w p" if "dispatch cfg P plan m g q w = Some (h, q1, w1)" "resume n cfg P plan m g h y q1 w1 = Some (a, r', w')" for q h q1 w1 y
    using dispatch_protects [OF that(1)] Suc.IH [OF that(2)] Suc.prems(2) by blast
  show ?case
    using Suc.prems by (subst (asm) resume.simps) (auto simp: bind_eq_Some_conv split: landing.splits intro: step)
qed

definition each_thread :: "(guest_memory \<Rightarrow> (u64 \<Rightarrow> bool) \<Rightarrow> Recompiler \<Rightarrow> bool) \<Rightarrow> process \<Rightarrow> bool" where
  "each_thread I s \<longleftrightarrow> (\<forall>r \<in> set (threads s). I (memory s) (writable s) r)"

locale thread_invariant =
  fixes cfg :: cache_config and P :: prologue and plan :: block_plan
    and inv :: "guest_memory \<Rightarrow> (u64 \<Rightarrow> bool) \<Rightarrow> Recompiler \<Rightarrow> bool"
  assumes fresh: "base_ok base \<Longrightarrow> inv m w (new_recompiler P base)"
    and protecting: "inv m w r \<Longrightarrow> (\<And>p. w' p \<Longrightarrow> w p) \<Longrightarrow> inv m w' r"
    and storing: "inv m w r \<Longrightarrow> w (page_of a) \<Longrightarrow> inv (m(a := v)) w r"
    and invalidating: "inv m w r \<Longrightarrow> invalidateRange lo hi r = Some r' \<Longrightarrow> (\<And>p. outside lo hi p \<Longrightarrow> w' p \<Longrightarrow> w p)
      \<Longrightarrow> (\<And>a. outside lo hi (page_of a) \<Longrightarrow> m' a = m a) \<Longrightarrow> inv m' w' r'"
    and entering: "inv m w r \<Longrightarrow> valid_rip cfg rip \<Longrightarrow> entry_point r pc rip
      \<Longrightarrow> resume 2 cfg P plan m rip pc x r w = Some (a, r', w') \<Longrightarrow> inv m w' r'"
begin

lemma invalidate_all_threads:
  assumes "invalidate_threads lo hi rs = Some rs'" "\<forall>r \<in> set rs. inv m w r"
    and w: "\<And>p. outside lo hi p \<Longrightarrow> w' p \<Longrightarrow> w p" and m: "\<And>a. outside lo hi (page_of a) \<Longrightarrow> m' a = m a"
  shows "\<forall>r \<in> set rs'. inv m' w' r"
  using assms(1,2)
proof (induction rs arbitrary: rs')
  case (Cons r rs)
  then obtain r' rs1 where "invalidateRange lo hi r = Some r'" "invalidate_threads lo hi rs = Some rs1" "rs' = r' # rs1"
    by (auto simp: bind_eq_Some_conv)
  then show ?case using Cons invalidating [of m w r, OF _ _ w m] by auto
qed simp

lemma store_holds:
  assumes "guest_store a v s = Some s'" "unat a < 2 ^ 47" "each_thread inv s"
  shows "each_thread inv s'"
proof (cases "writable s (page_of a)")
  case True
  then show ?thesis using assms storing by (auto simp: guest_store_def each_thread_def)
next
  case False
  let ?p = "page_of a"
  obtain rs where rs: "invalidate_threads ?p (page_of (?p + 0x1000 + 0xFFF)) (threads s) = Some rs"
    "s' = s\<lparr>threads := rs, writable := (writable s)(?p := True), memory := (memory s)(a := v)\<rparr>"
    using assms(1) False by (auto simp: guest_store_def handle_smc_def invalidateRangeGlobal_def Let_def bind_eq_Some_conv)
  have "\<forall>r \<in> set rs. inv ((memory s)(a := v)) ((writable s)(?p := True)) r"
    by (rule invalidate_all_threads [OF rs(1), of "memory s" "writable s"])
      (use assms(3) page_in_range [OF assms(2)] in \<open>auto simp: each_thread_def outside_def split: if_splits\<close>)
  then show ?thesis by (simp add: rs(2) each_thread_def)
qed

lemma mmap_holds:
  assumes "guest_mmap start len m pw s = Some s'" "each_thread inv s"
  shows "each_thread inv s'"
proof -
  let ?m = "\<lambda>a. if touched start len (page_of a) then m a else memory s a"
  let ?w = "\<lambda>p. if touched start len p then pw else writable s p"
  obtain rs where rs: "invalidate_threads (page_of start) (page_of (start + len + 0xFFF)) (threads s) = Some rs"
    "s' = s\<lparr>threads := rs, memory := ?m, writable := ?w\<rparr>"
    using assms(1) by (auto simp: guest_mmap_def invalidateRangeGlobal_def Let_def bind_eq_Some_conv split del: if_split)
  have "\<forall>r \<in> set rs. inv ?m ?w r"
    by (rule invalidate_all_threads [OF rs(1), of "memory s" "writable s"])
      (use assms(2) in \<open>auto simp: each_thread_def outside_def touched_def split: if_splits\<close>)
  then show ?thesis by (simp add: rs(2) each_thread_def split del: if_split)
qed

lemma mprotect_holds:
  assumes "guest_mprotect start len pw s = Some s'" "each_thread inv s"
  shows "each_thread inv s'"
proof (cases pw)
  case True
  then have "guest_mmap start len (memory s) True s = Some s'"
    using assms(1) by (simp add: guest_mprotect_def guest_mmap_def Let_def)
  then show ?thesis by (rule mmap_holds [OF _ assms(2)])
next
  case False
  have "inv (memory s) (\<lambda>p. if touched start len p then False else writable s p) r" if "r \<in> set (threads s)" for r
    by (rule protecting [of _ "writable s"]) (use assms(2) that in \<open>auto simp: each_thread_def split: if_splits\<close>)
  then show ?thesis using assms(1) False by (auto simp: guest_mprotect_def Let_def each_thread_def split del: if_split)
qed

theorem run_holds:
  assumes "guest_run cfg P plan s"
  shows "each_thread inv s"
  using assms
proof induction
  case (enter s i rip pc x a r w)
  have "inv (memory s) w r"
    using entering [of "memory s" "writable s" "threads s ! i"] enter.IH enter.hyps by (simp add: each_thread_def)
  moreover have "inv (memory s) w q" if "q \<in> set (threads s)" for q
    using protecting [of "memory s" "writable s" q w] resume_protects [OF enter.hyps(5)] enter.IH that by (auto simp: each_thread_def)
  ultimately show ?case using set_update_subset_insert by (fastforce simp: each_thread_def)
next
  case (store s a v s')
  then show ?case using store_holds by blast
next
  case (mprotect s start len pw s')
  then show ?case using mprotect_holds by blast
next
  case (mmap s start len m pw s')
  then show ?case using mmap_holds by blast
qed (auto simp: each_thread_def fresh)

end

section \<open>The invariant of the code cache\<close>

lemma new_recompiler_inv:
  assumes "prologue_ok P" "base_ok base"
  shows "cache_inv cfg P plan m w {} (new_recompiler P base)"
proof -
  have f: "frame P (new_recompiler P base)"
    using assms by (simp add: frame_def new_recompiler_def emitNecessaryStuff_def base_ok_def)
  show ?thesis
    using clear_inv(1) [OF f, of cfg plan m w] by (simp add: clearCodeCache_def new_recompiler_def emitNecessaryStuff_def)
qed

text \<open>Invalidation of a range, then any change of the pages in it.\<close>

lemma invalidate_change:
  assumes inv: "cache_inv cfg P plan m w {} r" and plan: "plan_ok cfg plan"
    and w: "\<And>p. \<not> (lo \<le> p \<and> p \<le> hi - 1) \<Longrightarrow> w' p \<Longrightarrow> w p"
    and m: "\<And>a. \<not> (lo \<le> page_of a \<and> page_of a \<le> hi - 1) \<Longrightarrow> m' a = m a"
  shows "\<exists>r'. invalidateRange lo hi r = Some r' \<and> cache_inv cfg P plan m' w' {} r'"
proof -
  obtain r' where r': "invalidateRange lo hi r = Some r'" "cache_inv cfg P plan m w {} r'"
    "\<forall>v \<in> set (history r'). current cfg plan m w r' v \<longrightarrow> (\<forall>p \<in> guest_pages (v_guest v) (v_insns v). \<not> (lo \<le> p \<and> p \<le> hi - 1))"
    using invalidateRange_inv [OF inv] by blast
  have "cache_inv cfg P plan m' w' {} r'"
  proof (rule cache_inv_change [OF r'(2) plan])
    fix v p assume v: "v \<in> set (history r')" "current cfg plan m w r' v" "p \<in> guest_pages (v_guest v) (v_insns v)"
    then have "\<not> w p" by (auto simp: current_def)
    then show "\<not> w' p" using w [of p] r'(3) v by blast
  next
    fix v a assume v: "v \<in> set (history r')" "current cfg plan m w r' v" "page_of a \<in> guest_pages (v_guest v) (v_insns v)"
    then show "m' a = m a" using m [of a] r'(3) by blast
  qed
  then show ?thesis using r'(1) by blast
qed

lemma protect_inv:
  assumes "cache_inv cfg P plan m w {} r" "plan_ok cfg plan" "\<And>p. w' p \<Longrightarrow> w p"
  shows "cache_inv cfg P plan m w' {} r"
  by (rule cache_inv_change [OF assms(1,2)]) (use assms(3) in \<open>auto simp: current_def\<close>)

lemma store_inv:
  assumes "cache_inv cfg P plan m w {} r" "plan_ok cfg plan" "w (page_of a)"
  shows "cache_inv cfg P plan (m(a := v)) w {} r"
  by (rule cache_inv_change [OF assms(1,2)]) (use assms(3) in \<open>auto simp: current_def\<close>)

interpretation cached: thread_invariant cfg P plan
  "\<lambda>m w r. plan_ok cfg plan \<and> cfg_protect_pages cfg \<and> prologue_ok P \<longrightarrow> cache_inv cfg P plan m w {} r" for cfg P plan
proof (unfold_locales, goal_cases)
  case (1 base m w)
  then show ?case using new_recompiler_inv by blast
next
  case (2 m w r w')
  then show ?case using protect_inv by blast
next
  case (3 m w r a v)
  then show ?case using store_inv by blast
next
  case (4 m w r lo hi r' w' m')
  then show ?case using invalidate_change [of cfg P plan m w r lo hi w' m'] by (auto simp: outside_def)
next
  case (5 m w r rip pc x a r' w')
  then show ?case using resume_arrives [of cfg P plan m w r rip pc x] by (auto simp: arrives_def)
qed

lemma reachable_inv:
  assumes "guest_run cfg P plan s" "plan_ok cfg plan" "prologue_ok P" "cfg_protect_pages cfg" "r \<in> set (threads s)"
  shows "cache_inv cfg P plan (memory s) (writable s) {} r"
  using cached.run_holds [OF assms(1)] assms(2-5) unfolding each_thread_def by blast

lemma invalidate_threads_total:
  assumes "\<And>r. r \<in> set rs \<Longrightarrow> cache_inv cfg P plan m w {} r"
  shows "\<exists>rs'. invalidate_threads lo hi rs = Some rs'"
  using assms
proof (induction rs)
  case (Cons r rs)
  then show ?case using invalidateRange_inv [of cfg P plan m w r lo hi] by fastforce
qed simp

section \<open>Theorems\<close>


text \<open>A process with one thread that overwrites the byte at \<open>0x401000\<close> and then runs there.\<close>

definition sample_plan :: block_plan where
  "sample_plan m g = [(1, [Op (unat (m g)), Op 0]), (1, [Op (unat (m (g + 1))), Link (g + 2)])]"

definition sample_prologue :: prologue where
  "sample_prologue = \<lparr>to_compile_next = 64, to_thunk = 256, prologue_size = 1024\<rparr>"

definition sample_config :: cache_config where
  "sample_config = \<lparr>cfg_link = True, cfg_address_cache = True, cfg_protect_pages = True, cfg_mode32 = False\<rparr>"

definition sample_process :: process where
  "sample_process = \<lparr>threads = [new_recompiler sample_prologue 0x10000], memory = (\<lambda>_. 0)(0x401000 := 7), writable = (\<lambda>_. True)\<rparr>"

lemma sample_plan_ok: "plan_ok sample_config sample_plan"
  by (auto simp: plan_ok_def sample_plan_def roomy_def pieces_def psizes_def guest_length_def dest: spec [of _ 0] spec [of _ 1])

lemma sample_run: "guest_run sample_config sample_prologue sample_plan sample_process"
proof -
  note thread [OF start [of sample_config sample_prologue sample_plan "\<lambda>_. 0" "\<lambda>_. True"], of "0x10000"]
  from store [OF this, of "0x401000" 7 sample_process] show ?thesis
    by (simp add: base_ok_def guest_store_def sample_process_def)
qed




end
