(* ===== verification/BlockSpans.thy ===== *)
theory BlockSpans
  imports GuestProcess
begin

text \<open>
  Signals that arrive in translated code: \<^verbatim>\<open>get_block_metadata\<close> finds the block of a host address
  and \<^verbatim>\<open>get_actual_rip\<close> the guest instruction, from the spans that \<^verbatim>\<open>compileSequence\<close> records. A block
  keeps the spans of all its translations since the cache was cleared.
\<close>

section \<open>The lookups of the signal handler\<close>

definition get_block_metadata :: "Recompiler \<Rightarrow> u64 \<Rightarrow> u64 option" where
  "get_block_metadata r host_pc = do {
     (_, g) \<leftarrow> lower_bound (host_pc_map r) host_pc;
     ASSERT (address (block_metadata r g) \<le> host_pc \<and> host_pc \<le> address_end (block_metadata r g));
     Some g
   }"

fun actual_rip_loop :: "u64 \<Rightarrow> u64 \<Rightarrow> (u64 \<times> u64) list \<Rightarrow> u64 option" where
  "actual_rip_loop ret_value host_pc [] = do { ASSERT (ret_value \<noteq> 0); Some ret_value }"
| "actual_rip_loop ret_value host_pc (span # spans) = (
     if snd span \<le> host_pc then actual_rip_loop (fst span) host_pc spans
     else do { ASSERT (ret_value \<noteq> 0); Some ret_value })"

definition get_actual_rip :: "BlockMetadata \<Rightarrow> u64 \<Rightarrow> u64 option" where
  "get_actual_rip metadata host_pc = actual_rip_loop 0 host_pc (instruction_spans metadata)"

lemma actual_rip_at:
  assumes "\<forall>s \<in> set xs. snd s \<le> pc" "h \<le> pc" "\<forall>s \<in> set ys. pc < snd s" "g \<noteq> 0"
  shows "actual_rip_loop ret pc (xs @ (g, h) # ys) = Some g"
  using assms by (induction xs arbitrary: ret) (cases ys; auto)+

section \<open>Recorded spans\<close>

fun spans_of :: "u64 \<Rightarrow> u64 \<Rightarrow> insns \<Rightarrow> (u64 \<times> u64) list" where
  "spans_of g h [] = []"
| "spans_of g h ((len, ps) # is) = (g, h) # spans_of (g + len) (h + of_nat (psizes ps)) is"

definition version_spans :: "version \<Rightarrow> (u64 \<times> u64) list" where
  "version_spans v = spans_of (v_guest v) (v_start v) (v_insns v)"

definition spans_inv :: "block_plan \<Rightarrow> Recompiler \<Rightarrow> bool" where
  "spans_inv plan r \<longleftrightarrow> (\<forall>v \<in> set (history r). \<exists>m. v_insns v = plan m (v_guest v)) \<and> (\<forall>g. instruction_spans (block_metadata r g)
     = concat (map version_spans (rev (filter (\<lambda>v. v_guest v = g) (history r)))))"

definition keeps_spans :: "Recompiler \<Rightarrow> Recompiler \<Rightarrow> bool" where
  "keeps_spans r r' \<longleftrightarrow> history r' = history r
     \<and> (\<forall>g. instruction_spans (block_metadata r' g) = instruction_spans (block_metadata r g))"

lemma spans_refl [simp]: "keeps_spans r r"
  by (simp add: keeps_spans_def)

lemma spans_trans [trans]: "keeps_spans r r' \<Longrightarrow> keeps_spans r' r'' \<Longrightarrow> keeps_spans r r''"
  by (simp add: keeps_spans_def)

lemma spans_kept: "keeps_spans r r' \<Longrightarrow> spans_inv plan r \<Longrightarrow> spans_inv plan r'"
  by (simp add: keeps_spans_def spans_inv_def)

lemma emit_spans [simp]: "keeps_spans r (emit i r)" "keeps_spans r (set_entry g en r)" "keeps_spans r (r\<lparr>cursor := a\<rparr>)"
  "keeps_spans r (register_page g p r)" "keeps_spans r (r\<lparr>host_pc_map := hs\<rparr>)" "keeps_spans r (r\<lparr>page_map := ps\<rparr>)" "keeps_spans r (r\<lparr>code := c\<rparr>)"
  by (simp_all add: keeps_spans_def emit_def set_entry_def register_page_def)

lemma meta_spans:
  "(\<And>b. instruction_spans (f b) = instruction_spans b) \<Longrightarrow> keeps_spans r (set_meta g f r)"
  by (simp add: keeps_spans_def set_meta_def)

lemma back_spans: "backToDispatcher r = Some r' \<Longrightarrow> keeps_spans r r' \<and> cursor r' = cursor r + 8"
  by (auto simp: backToDispatcher_def Let_def emit_def keeps_spans_def)

lemma jump_spans: "jumpAndLink cfg rip r = Some r' \<Longrightarrow> keeps_spans r r' \<and> cursor r' = cursor r + 8"
  by (auto simp: jumpAndLink_def Let_def bind_eq_Some_conv keeps_spans_def set_meta_def emit_def
      dest!: back_spans split: if_splits)

lemma link_spans: "link_at cfg site rip r = Some r' \<Longrightarrow> keeps_spans r r'"
  by (auto simp: link_at_def bind_eq_Some_conv keeps_spans_def dest!: jump_spans)

lemma link_all_spans: "link_all cfg rip ls r = Some r' \<Longrightarrow> keeps_spans r r'"
  by (induction ls arbitrary: r) (auto simp: bind_eq_Some_conv dest!: link_spans intro: spans_trans)

lemma expire_spans: "expirePendingLinks cfg rip r = Some r' \<Longrightarrow> keeps_spans r r'"
  by (auto simp: expirePendingLinks_def bind_eq_Some_conv dest!: link_all_spans intro: spans_trans [OF _ meta_spans] split: if_splits)

lemma invalidateBlock_spans: "invalidateBlock g r = Some r' \<Longrightarrow> keeps_spans r r'"
  by (auto simp: invalidateBlock_def Let_def)

lemma invalidate_all_spans: "invalidate_all gs r = Some r' \<Longrightarrow> keeps_spans r r'"
  by (induction gs arbitrary: r) (auto simp: bind_eq_Some_conv dest!: invalidateBlock_spans intro: spans_trans)

lemma invalidateRange_spans: "invalidateRange lo hi r = Some r' \<Longrightarrow> keeps_spans r r'"
  by (auto simp: invalidateRange_def Let_def bind_eq_Some_conv dest!: invalidate_all_spans intro: spans_trans)

lemma invalidateAt_spans: "invalidateAt cfg a l r = Some r' \<Longrightarrow> keeps_spans r r'"
  by (auto simp: invalidateAt_def Let_def bind_eq_Some_conv keeps_spans_def set_entry_def set_meta_def dest!: link_spans
      split: if_splits prod.splits)

lemma piece_spans: "emit_piece cfg p r = Some r' \<Longrightarrow> keeps_spans r r' \<and> cursor r' = cursor r + of_nat (psize p)"
  by (cases p) (auto simp: emit_def keeps_spans_def dest: back_spans jump_spans)

lemma pieces_spans: "emit_pieces cfg ps r = Some r' \<Longrightarrow> keeps_spans r r' \<and> cursor r' = cursor r + of_nat (psizes ps)"
  by (induction ps arbitrary: r) (auto simp: bind_eq_Some_conv add.assoc dest!: piece_spans intro: spans_trans)

definition adds_spans :: "u64 \<Rightarrow> (u64 \<times> u64) list \<Rightarrow> Recompiler \<Rightarrow> Recompiler \<Rightarrow> bool" where
  "adds_spans g ss r r' \<longleftrightarrow> history r' = history r
     \<and> (\<forall>h. instruction_spans (block_metadata r' h) = instruction_spans (block_metadata r h) @ (if h = g then ss else []))"

lemma insns_spans: "emit_insns cfg g is rip r = Some (e, r') \<Longrightarrow> adds_spans g (spans_of rip (cursor r) is) r r'"
proof (induction cfg g "is" rip r rule: emit_insns.induct)
  case (2 cfg g len ps "is" rip r)
  let ?r = "set_meta g (\<lambda>b. b\<lparr>instruction_spans := instruction_spans b @ [(rip, cursor r)]\<rparr>) r"
  obtain q where q: "emit_pieces cfg ps ?r = Some q" "emit_insns cfg g is (rip + len) q = Some (e, r')"
    using "2.prems" by (auto simp: Let_def bind_eq_Some_conv)
  have k: "keeps_spans ?r q" "cursor q = cursor r + of_nat (psizes ps)"
    using pieces_spans [OF q(1)] by (simp_all add: set_meta_def)
  have "adds_spans g (spans_of (rip + len) (cursor q) is) q r'" using "2.IH" [OF refl q] .
  then show ?case using k by (simp add: adds_spans_def keeps_spans_def set_meta_def)
qed (simp add: adds_spans_def)

lemma pages_fields: "history (fold (register_page g) ps r) = history r" "block_metadata (fold (register_page g) ps r) = block_metadata r"
  by (induction ps arbitrary: r) (simp_all add: register_page_def)

lemma registered_spans:
  assumes reg: "registered cfg g (plan m g) r = Some (e, r')" and inv: "spans_inv plan r"
  shows "spans_inv plan r'"
proof -
  let ?is = "plan m g"
  let ?r = "set_meta g (\<lambda>b. b\<lparr>guest_address := g\<rparr>) (set_meta g (\<lambda>b. b\<lparr>address := cursor r\<rparr>) r)"
  obtain q where q: "emit_insns cfg g ?is g ?r = Some (e, q)"
    using reg by (auto simp: registered_def compile_block_def Let_def bind_eq_Some_conv split: prod.splits)
  let ?v = "\<lparr>v_start = cursor r, v_end = cursor q, v_guest = g, v_insns = ?is\<rparr>"
  have r': "history r' = ?v # history q" "instruction_spans (block_metadata r' h) = instruction_spans (block_metadata q h)" for h
    using reg q by (auto simp: registered_def compile_block_def register_pages_def Let_def bind_eq_Some_conv set_meta_def set_entry_def pages_fields)
  have "adds_spans g (version_spans ?v) ?r q"
    using insns_spans [OF q] by (simp add: version_spans_def set_meta_def)
  then show ?thesis
    using inv by (auto simp: adds_spans_def spans_inv_def set_meta_def r')
qed

lemma compile_spans:
  assumes c: "compile cfg P plan m g r w = Some (h, r', w')" and g: "valid_rip cfg g" and inv: "spans_inv plan r"
  shows "spans_inv plan r'"
proof -
  have i0: "spans_inv plan (make_room P r)"
    using inv by (simp add: make_room_def spans_inv_def clearCodeCache_def emitNecessaryStuff_def no_block_def)
  obtain e r1 where "registered cfg g (plan m g) (make_room P r) = Some (e, r1)" "expirePendingLinks cfg g r1 = Some r'"
    using c unfolding compile_eq [OF g] by (auto simp: bind_eq_Some_conv)
  then show ?thesis using registered_spans i0 expire_spans spans_kept by blast
qed

lemma dispatch_spans:
  assumes "dispatch cfg P plan m g r w = Some (h, r', w')" and g: "valid_rip cfg g" and inv: "spans_inv plan r"
  shows "spans_inv plan r'"
  using assms(1) spans_kept [OF emit_spans(2) inv] inv
  by (auto simp: dispatch_def CompileNext_def getCompiledBlock_def Let_def bind_eq_Some_conv intro: compile_spans [OF _ g] split: if_splits)

lemma resume_spans:
  assumes "resume n cfg P plan m g pc x r w = Some (a, r', w')" and g: "valid_rip cfg g" and inv: "spans_inv plan r"
  shows "spans_inv plan r'"
  using assms(1) inv
proof (induction n arbitrary: pc x r w)
  case 0
  then show ?case by (subst (asm) resume.simps) (auto split: landing.splits)
next
  case (Suc n)
  have step: "spans_inv plan r'" if "dispatch cfg P plan m g q w = Some (h, q1, w1)" "resume n cfg P plan m g h y q1 w1 = Some (a, r', w')" "spans_inv plan q" for q h q1 w1 y
    using Suc.IH [OF that(2)] dispatch_spans [OF that(1) g that(3)] by blast
  show ?case
    using Suc.prems by (subst (asm) resume.simps)
      (auto simp: bind_eq_Some_conv split: landing.splits dest: invalidateAt_spans intro: step spans_kept)
qed

lemma new_spans: "spans_inv plan (new_recompiler P base)"
  by (simp add: spans_inv_def new_recompiler_def emitNecessaryStuff_def no_block_def)

interpretation spanned: thread_invariant cfg P plan "\<lambda>m w. spans_inv plan" for cfg P plan
  by unfold_locales (auto simp: new_spans intro: spans_kept [OF invalidateRange_spans] resume_spans)

section \<open>Where a span is found\<close>

lemma spans_append:
  "spans_of g h (xs @ ys) = spans_of g h xs @ spans_of (g + of_nat (guest_length xs)) (h + of_nat (psizes (pieces xs))) ys"
  by (induction g h xs rule: spans_of.induct) (simp_all add: guest_length_def pieces_def add.assoc)

lemma spans_bounds:
  "s \<in> set (spans_of g h is) \<Longrightarrow> unat h + psizes (pieces is) < 2 ^ 63 \<Longrightarrow>
     unat h \<le> unat (snd s) \<and> unat (snd s) \<le> unat h + psizes (pieces is)"
proof (induction g h "is" rule: spans_of.induct)
  case (2 g h len ps "is")
  have ps: "psizes (pieces ((len, ps) # is)) = psizes ps + psizes (pieces is)" by (simp add: pieces_def)
  have "unat (h + of_nat (psizes ps)) = unat h + psizes ps" by (rule unat_step) (use "2.prems" ps in simp)
  then show ?case using "2.IH" "2.prems" ps by auto
qed simp

lemma version_span_bounds:
  assumes "cache_inv cfg P plan m w X r" "v \<in> set (history r)" "s \<in> set (version_spans v)"
  shows "unat (v_start v) \<le> unat (snd s)" "unat (snd s) \<le> unat (v_end v)"
  using spans_bounds [OF assms(3) [unfolded version_spans_def] placed_facts(1) [OF assms(1,2)]] cache_invD(5) [OF assms(1,2)]
  by (simp_all add: version_ok_def)

text \<open>The spans of the other translations of a block lie below or above.\<close>

lemma spans_around:
  assumes inv: "cache_inv cfg P plan m w X r" and sp: "spans_inv plan r" and v: "v \<in> set (history r)"
  shows "\<exists>lower upper. instruction_spans (block_metadata r (v_guest v)) = lower @ version_spans v @ upper
    \<and> (\<forall>s \<in> set lower. unat (snd s) \<le> unat (v_start v)) \<and> (\<forall>s \<in> set upper. unat (v_end v) \<le> unat (snd s))"
proof -
  let ?vs = "\<lambda>vs. concat (map version_spans (rev (filter (\<lambda>u. v_guest u = v_guest v) vs)))"
  obtain new old where hist: "history r = new @ v # old" using v split_list by metis
  have apart: "u \<in> set old \<Longrightarrow> unat (v_end u) \<le> unat (v_start v)" "u \<in> set new \<Longrightarrow> unat (v_end v) \<le> unat (v_start u)" for u
    using cache_invD(8) [OF inv] by (auto simp: hist sorted_wrt_append)
  have lower: "unat (snd s) \<le> unat (v_start v)" if "s \<in> set (?vs old)" for s
  proof -
    obtain u where u: "u \<in> set old" "s \<in> set (version_spans u)" using \<open>s \<in> set (?vs old)\<close> by auto
    then show ?thesis using version_span_bounds(2) [OF inv _ u(2)] apart(1) [OF u(1)] by (simp add: hist)
  qed
  have upper: "unat (v_end v) \<le> unat (snd s)" if "s \<in> set (?vs new)" for s
  proof -
    obtain u where u: "u \<in> set new" "s \<in> set (version_spans u)" using \<open>s \<in> set (?vs new)\<close> by auto
    then show ?thesis using version_span_bounds(1) [OF inv _ u(2)] apart(2) [OF u(1)] by (simp add: hist)
  qed
  have "instruction_spans (block_metadata r (v_guest v)) = ?vs old @ version_spans v @ ?vs new"
    using sp by (simp add: spans_inv_def hist)
  then show ?thesis using lower upper by blast
qed

lemma insn_address:
  assumes plan: "plan_ok cfg plan" and g: "valid_rip cfg g" and eq: "plan m g = before @ (len, ps) # after"
  shows "g + of_nat (guest_length before) \<noteq> 0"
proof -
  have "guest_length before \<le> 2 ^ 47" using plan_okD(4) [OF plan g, of m] by (simp add: eq guest_length_def)
  then have "unat (g + of_nat (guest_length before)) = unat g + guest_length before"
    using g by (intro unat_step) (simp add: valid_rip_def)
  then show ?thesis using g by (auto simp: valid_rip_def unat_eq_0)
qed

lemma rip_of_version:
  assumes inv: "cache_inv cfg P plan m w X r" and sp: "spans_inv plan r" and plan: "plan_ok cfg plan"
    and v: "v \<in> set (history r)" "v_insns v = before @ (len, ps) # after"
    and pc: "unat (v_start v) + psizes (pieces before) \<le> unat pc" "unat pc < unat (v_start v) + psizes (pieces before) + psizes ps"
  shows "get_actual_rip (block_metadata r (v_guest v)) pc = Some (v_guest v + of_nat (guest_length before))"
proof -
  let ?g = "v_guest v" and ?h = "v_start v + of_nat (psizes (pieces before))"
  have ok: "version_ok cfg r v" by (rule cache_invD(5) [OF inv v(1)])
  then have e: "unat (v_end v) = unat (v_start v) + psizes (pieces (v_insns v))" and g: "valid_rip cfg ?g" by (simp_all add: version_ok_def)
  have sum: "psizes (pieces (v_insns v)) = psizes (pieces before) + psizes ps + psizes (pieces after)" by (simp add: v(2) pieces_def)
  have lt: "unat (v_start v) + psizes (pieces (v_insns v)) < 2 ^ 63" by (rule placed_facts(1) [OF inv v(1)])
  have h: "unat ?h = unat (v_start v) + psizes (pieces before)" "unat (?h + of_nat (psizes ps)) = unat ?h + psizes ps"
    using unat_step [of "v_start v" "psizes (pieces before)"] unat_step [of ?h "psizes ps"] lt sum by simp_all
  obtain m' where m': "plan m' ?g = v_insns v" using sp v(1) unfolding spans_inv_def by metis
  obtain lower upper where spans: "instruction_spans (block_metadata r ?g) = lower @ version_spans v @ upper"
    "\<And>s. s \<in> set lower \<Longrightarrow> unat (snd s) \<le> unat (v_start v)" "\<And>s. s \<in> set upper \<Longrightarrow> unat (v_end v) \<le> unat (snd s)"
    using spans_around [OF inv sp v(1)] by blast
  let ?before = "spans_of ?g (v_start v) before" and ?after = "spans_of (?g + of_nat (guest_length before) + len) (?h + of_nat (psizes ps)) after"
  have split: "instruction_spans (block_metadata r ?g) = (lower @ ?before) @ (?g + of_nat (guest_length before), ?h) # (?after @ upper)"
    by (simp add: spans(1) version_spans_def v(2) spans_append)
  have "snd s \<le> pc" if "s \<in> set (lower @ ?before)" for s
    using that spans(2) [of s] spans_bounds [of s ?g "v_start v" before] lt sum pc by (auto simp: word_le_nat_alt)
  moreover have "pc < snd s" if "s \<in> set (?after @ upper)" for s
    using that spans(3) [of s] spans_bounds [of s "?g + of_nat (guest_length before) + len" "?h + of_nat (psizes ps)" after] lt sum pc h e by (auto simp: word_less_nat_alt)
  ultimately show ?thesis
    unfolding get_actual_rip_def split
    by (intro actual_rip_at insn_address [OF plan g m' [unfolded v(2)]]) (use pc h in \<open>simp_all add: word_le_nat_alt\<close>)
qed

lemma block_of_version:
  assumes inv: "cache_inv cfg P plan m w X r" and v: "v \<in> set (history r)" "address (block_metadata r (v_guest v)) = v_start v"
    and pc: "unat (v_start v) \<le> unat pc" "unat pc < unat (v_end v)"
  shows "get_block_metadata r pc = Some (v_guest v)"
proof -
  have "blockExists r (v_guest v)" using v null_not_start [OF inv v(1)] by (simp add: blockExists_def)
  then obtain u where u: "u \<in> set (history r)" "v_start u = v_start v" "v_end u = address_end (block_metadata r (v_guest v))"
    using cache_invD(9) [OF inv, of "v_guest v"] v(2) by auto
  have "u = v" using versions_apart [OF cache_invD(8) [OF inv] v(1) u(1)] placed_facts(2) [OF inv v(1)] placed_facts(2) [OF inv u(1)]
      cache_invD(5) [OF inv v(1)] cache_invD(5) [OF inv u(1)] u(2) by (auto simp: version_ok_def)
  then show ?thesis
    using host_lookup [OF inv v(1) pc] v(2) u(3) pc by (simp add: get_block_metadata_def word_le_nat_alt)
qed

section \<open>Theorems\<close>

text \<open>C5: the signal handler translates a host address back to the guest instruction. In every state
  a guest process can reach, a host address inside the code emitted for one instruction of the
  installed translation of a block is attributed to that block and to the guest address of that
  instruction, also when earlier translations of the block have left their spans behind.\<close>

theorem signal_finds_guest_instruction:
  assumes "guest_run cfg P plan s" "plan_ok cfg plan" "prologue_ok P" "cfg_protect_pages cfg"
    and "r \<in> set (threads s)" "v \<in> set (history r)" "address (block_metadata r (v_guest v)) = v_start v"
    and "v_insns v = before @ (len, ps) # after"
    and "unat (v_start v) + psizes (pieces before) \<le> unat pc"
    and "unat pc < unat (v_start v) + psizes (pieces before) + psizes ps"
  shows "get_block_metadata r pc = Some (v_guest v)
    \<and> get_actual_rip (block_metadata r (v_guest v)) pc = Some (v_guest v + of_nat (guest_length before))"
proof -
  have inv: "cache_inv cfg P plan (memory s) (writable s) {} r" and sp: "spans_inv plan r"
    using reachable_inv [OF assms(1-5)] spanned.run_holds [OF assms(1)] assms(5) by (simp_all add: each_thread_def)
  have "unat pc < unat (v_end v)"
    using cache_invD(5) [OF inv assms(6)] assms(8,10) by (simp add: version_ok_def pieces_def)
  then show ?thesis
    using block_of_version [OF inv assms(6,7)] assms(9) rip_of_version [OF inv sp assms(2,6,8,9,10)] by simp
qed

definition sample_result :: "(u64 \<times> Recompiler \<times> (u64 \<Rightarrow> bool)) option" where
  "sample_result = resume 2 sample_config sample_prologue sample_plan (memory sample_process) 0x401000
     (compile_next_handler (threads sample_process ! 0)) (\<lambda>_. 0) (threads sample_process ! 0) (writable sample_process)"

definition sample_thread :: Recompiler where
  "sample_thread = fst (snd (the sample_result))"

lemma sample_after: "guest_run sample_config sample_prologue sample_plan
   (sample_process\<lparr>threads := [sample_thread], writable := snd (snd (the sample_result))\<rparr>)"
proof -
  have ok: "valid_rip sample_config 0x401000" "prologue_ok sample_prologue" "cfg_protect_pages sample_config"
    "set (threads sample_process) = {threads sample_process ! 0}" "entry_point (threads sample_process ! 0) (compile_next_handler (threads sample_process ! 0)) 0x401000"
    by (simp_all add: valid_rip_def prologue_ok_def sample_prologue_def sample_config_def sample_process_def entry_point_def)
  obtain a r w where res: "sample_result = Some (a, r, w)"
    using resume_arrives [OF _ ok(1) sample_plan_ok ok(3,5)] reachable_inv [OF sample_run sample_plan_ok ok(2,3)] ok(4)
    unfolding arrives_def sample_result_def by blast
  have "0 < length (threads sample_process)" "(threads sample_process)[0 := r] = [r]" by (simp_all add: sample_process_def)
  then show ?thesis
    using enter [OF sample_run _ ok(1,5) res [unfolded sample_result_def]] by (simp add: sample_thread_def res)
qed

lemma sample_facts:
  "history sample_thread = [\<lparr>v_start = 0x10400, v_end = 0x10414, v_guest = 0x401000, v_insns = sample_plan (memory sample_process) 0x401000\<rparr>]"
  "address (block_metadata sample_thread 0x401000) = 0x10400"
  by code_simp+

theorem signal_finds_guest_instruction_witness:
  "get_block_metadata sample_thread 0x1040C = Some 0x401000
   \<and> get_actual_rip (block_metadata sample_thread 0x401000) 0x1040C = Some 0x401001"
  using signal_finds_guest_instruction [OF sample_after sample_plan_ok, of sample_thread
    "\<lparr>v_start = 0x10400, v_end = 0x10414, v_guest = 0x401000, v_insns = sample_plan (memory sample_process) 0x401000\<rparr>"
    "[(1, [Op 7, Op 0])]" 1 "[Op 0, Link 0x401002]" "[]" "0x1040C"]
  by (simp add: sample_facts sample_plan_def sample_process_def prologue_ok_def sample_prologue_def sample_config_def
      pieces_def guest_length_def psizes_def)

end
