(* ===== verification/BlockCacheEdges.thy ===== *)
theory BlockCacheEdges
  imports BlockSpans
begin

text \<open>
  The limits of the code cache: the range of a far jump, blocks too short for the invalidation patch,
  and the states in which invalidation goes wrong.
\<close>

section \<open>Short blocks\<close>

lemma ASSERT_eq_Some: "(ASSERT b = Some u) \<longleftrightarrow> b"
  by (cases b) simp_all

lemma compile_block_cursor:
  assumes "compile_block cfg is rip r = Some (e, r')"
  shows "cursor r' = cursor r + of_nat (psizes (pieces is))"
proof -
  have "cursor r' = cursor r + of_nat (psizes (pieces is))" if "emit_insns cfg g is a r = Some (e, r')" for g a r r'
    using that
  proof (induction cfg g "is" a r rule: emit_insns.induct)
    case (2 cfg g len ps "is" rip r)
    then obtain q where "emit_pieces cfg ps (set_meta g (\<lambda>b. b\<lparr>instruction_spans := instruction_spans b @ [(rip, cursor r)]\<rparr>) r) = Some q"
      "cursor r' = cursor q + of_nat (psizes (pieces is))" by (auto simp: Let_def bind_eq_Some_conv)
    then show ?case using pieces_spans by (fastforce simp: set_meta_def pieces_def add.assoc)
  qed (simp add: pieces_def)
  then show ?thesis using assms by (fastforce simp: compile_block_def Let_def bind_eq_Some_conv set_meta_def split: prod.splits)
qed

text \<open>C33: a block whose translation is shorter than the patch of two instructions cannot be compiled:
  the assertion of \<^verbatim>\<open>compile\<close> fails. A block that starts with \<^verbatim>\<open>UD2\<close>, whose handler emits one
  two-byte instruction, is such a block.\<close>

theorem short_block_aborts:
  assumes "psizes (pieces (plan m (wrap_rip cfg rip))) < 8"
  shows "compile cfg P plan m rip r w = None"
proof (rule ccontr)
  assume "compile cfg P plan m rip r w \<noteq> None"
  then obtain q r1 e where q: "compile_block cfg (plan m (wrap_rip cfg rip)) (wrap_rip cfg rip) q = Some (e, r1)" "8 \<le> cursor r1 - cursor q"
    by (fastforce simp: compile_def Let_def bind_eq_Some_conv ASSERT_eq_Some set_meta_def split: prod.splits)
  have "cursor r1 - cursor q = of_nat (psizes (pieces (plan m (wrap_rip cfg rip))))"
    using compile_block_cursor [OF q(1)] by simp
  then show False using q(2) assms by (simp add: word_le_nat_alt unat_of_nat)
qed

definition ud2_plan :: block_plan where
  "ud2_plan m g = [(2, [Undef])]"

theorem short_block_aborts_witness:
  "compile sample_config sample_prologue ud2_plan (\<lambda>_. 0) 0x401000 (new_recompiler sample_prologue 0x10000) (\<lambda>_. True) = None"
  by (rule short_block_aborts) (simp add: ud2_plan_def pieces_def psizes_def)

section \<open>Far jumps\<close>

text \<open>C32: the offsets that the 2 GiB assertion admits are exactly reached by \<^verbatim>\<open>AUIPC\<close> and \<^verbatim>\<open>JALR\<close>, except the
  last 2048 positive ones, for which the rounding of the upper part overflows 32 bits.\<close>

theorem far_jump_range:
  assumes "IsValid2GBImm offset"
  shows "scast (push_bit 12 (hi20 offset)) + scast (lo12 offset) = offset \<longleftrightarrow> sint offset < 2 ^ 31 - 0x800"
proof
  assume "sint offset < 2 ^ 31 - 0x800"
  then show "scast (push_bit 12 (hi20 offset)) + scast (lo12 offset) = offset"
    using far_target assms by (simp add: IsValid2GBImm_def)
next
  assume eq: "scast (push_bit 12 (hi20 offset)) + scast (lo12 offset) = offset"
  show "sint offset < 2 ^ 31 - 0x800"
  proof (rule ccontr)
    let ?o = "sint offset"
    assume "\<not> ?o < 2 ^ 31 - 0x800"
    then have o: "2147481600 \<le> ?o" "?o \<le> 2147483647" using assms by (simp_all add: IsValid2GBImm_def)
    have "(?o + 2048) div 4096 = 524288"
      using o by (intro int_div_pos_eq [where r = "?o + 2048 - 2147483648"]) simp_all
    then have h: "4096 * ((?o + 2048) div 4096) = 2 ^ 31" and l: "(?o + 2048) mod 4096 - 2048 = ?o - 2 ^ 31"
      using minus_div_mult_eq_mod [of "?o + 2048" 4096] by simp_all
    have "scast (push_bit 12 (hi20 offset)) + scast (lo12 offset) = (word_of_int (- (2 ^ 31)) + word_of_int (?o - 2 ^ 31) :: u64)"
      unfolding hi20_eq lo12_eq h l using o by (subst scast_word_of_int [of "?o - 2 ^ 31"]) simp_all
    also have "\<dots> = offset - 2 ^ 32" by simp
    finally show False using eq by simp
  qed
qed

theorem far_jump_range_witness:
  "scast (push_bit 12 (hi20 0x7FFFF7FF)) + scast (lo12 0x7FFFF7FF) = (0x7FFFF7FF :: u64)"
  using far_jump_range [of "0x7FFFF7FF"] by (simp add: IsValid2GBImm_def)

section \<open>Invalidation of short and of long blocks\<close>

text \<open>A guest with a lone \<^verbatim>\<open>jmp\<close> at \<open>0x401000\<close> to \<open>0x403000\<close>, a jump to itself at \<open>0x405000\<close> and a block over two pages
  at \<open>0x406FFE\<close>.\<close>

definition edge_plan :: block_plan where
  "edge_plan m g = (
     if g = 0x401000 then [(5, [Op 1, Link 0x403000])]
     else if g = 0x405000 then [(2, [Link 0x405000])]
     else [(4, [Op 2, Op 3, Op 4, Back])])"

definition edge_compile :: "u64 \<Rightarrow> Recompiler \<Rightarrow> Recompiler option" where
  "edge_compile g r = map_option (\<lambda>(_, r, _). r) (compile sample_config sample_prologue edge_plan (\<lambda>_. 0) g r (\<lambda>_. True))"

text \<open>The pending link of a lone jump lies in the second half of the patch. When its target is
  compiled after the invalidation, linking overwrites the jump to the thunk, and control that enters
  the invalid translation goes on to the target.\<close>

lemma lone_jump_revives:
  "(do { r \<leftarrow> edge_compile 0x401000 (new_recompiler sample_prologue 0x10000);
         r \<leftarrow> invalidateRange 0x401000 0x402000 r;
         Some (follow 5 r (address (block_metadata r 0x401000)) (\<lambda>_. 0)) }) = Some (Thunk 0x10408 0)"
  "(do { r \<leftarrow> edge_compile 0x401000 (new_recompiler sample_prologue 0x10000);
         r \<leftarrow> invalidateRange 0x401000 0x402000 r;
         r \<leftarrow> edge_compile 0x403000 r;
         Some (follow 5 r (address (block_metadata r 0x401000)) (\<lambda>_. 0), address (block_metadata r 0x403000)) }) = Some (Body 0x1040C, 0x1040C)"
  by code_simp+

text \<open>A jump to itself takes exactly eight bytes: the address that the thunk receives is past the
  block, and the lookup fails or finds the block after it.\<close>

lemma self_jump_not_found:
  "(do { r \<leftarrow> edge_compile 0x405000 (new_recompiler sample_prologue 0x10000);
         r \<leftarrow> invalidateRange 0x405000 0x406000 r;
         Some (follow 5 r (address (block_metadata r 0x405000)) (\<lambda>_. 0)) }) = Some (Thunk 0x10408 0)"
  "(do { r \<leftarrow> edge_compile 0x405000 (new_recompiler sample_prologue 0x10000);
         r \<leftarrow> invalidateRange 0x405000 0x406000 r;
         invalidateAt sample_config 0x10408 0 r }) = None"
  by code_simp+

text \<open>A block over two pages whose first page is invalidated stays listed in the second. Between
  the thunk and the next compilation its address is null, and invalidating the second page stores
  through it.\<close>

lemma second_page_null_store:
  "(do { r \<leftarrow> edge_compile 0x406FFE (new_recompiler sample_prologue 0x10000);
         r \<leftarrow> invalidateRange 0x406000 0x407000 r;
         r \<leftarrow> invalidateAt sample_config 0x10408 0 r;
         Some (blockExists r 0x406FFE, page_blocks r 0x407000) }) = Some (False, [0x406FFE])"
  "(do { r \<leftarrow> edge_compile 0x406FFE (new_recompiler sample_prologue 0x10000);
         r \<leftarrow> invalidateRange 0x406000 0x407000 r;
         r \<leftarrow> invalidateAt sample_config 0x10408 0 r;
         invalidateRange 0x407000 0x408000 r }) = None"
  by code_simp+

text \<open>The empty entries of the address cache match the guest address 0, so a jump to a null
  pointer is sent to the host address 0.\<close>

lemma null_jump_dispatched:
  "map_option fst (dispatch sample_config P plan m 0 (new_recompiler P base) w) = Some 0"
  by (simp add: dispatch_def sample_config_def new_recompiler_def emitNecessaryStuff_def empty_entry_def Let_def)

text \<open>The write fault handler does not ask whether the guest made the page read-only itself: the
  store succeeds.\<close>

lemma read_only_store_succeeds:
  "(do { s \<leftarrow> guest_mprotect 0x401000 0x1000 False sample_process;
         s \<leftarrow> guest_store 0x401000 9 s;
         Some (memory s 0x401000, writable s 0x401000) }) = Some (9, True)"
  by code_simp

end
