(* ===== verification/Spec2Isabelle.thy ===== *)
theory Spec2Isabelle
  imports Freelist Mapper Brk SignalQueue ThreadState X87 Division VectorHelpers MoveTheorems HandlerCases
    BlockCacheEdges
begin

text \<open>
  felix86 runs x86 and x86-64 Linux programs on RISC-V hosts. A guest thread is a
  \<^verbatim>\<open>ThreadState\<close> (registers, flags, segments, x87 stack); its code is translated block by
  block into RISC-V code by \<^verbatim>\<open>v2/recompiler.cpp\<close> and the handlers of \<^verbatim>\<open>v2/handlers.cpp\<close>,
  which call C++ helpers of \<^verbatim>\<open>common/utility.cpp\<close> for what is too long to emit. System
  calls of the guest go to \<^verbatim>\<open>hle/\<close>, where memory requests of 32-bit code are served from a
  free list of the low 4 GiB. All file names are below \<^verbatim>\<open>src/src/felix86/\<close>.

  \<^bold>\<open>Memory.\<close> \<^verbatim>\<open>Freelist\<close> models \<^verbatim>\<open>common/freelist.cpp\<close> (the linked list as a list of nodes with
  u32 bounds), \<^verbatim>\<open>Mapper\<close> models \<^verbatim>\<open>hle/mmap.cpp\<close> over it, and \<^verbatim>\<open>Brk\<close> models \<^verbatim>\<open>hle/brk.cpp\<close>. The
  kernel's memory calls are a record of functions; what the theorems need of them is their
  documented effect on the set of mapped addresses. Shown: the free list refines an
  allocator on sets of addresses, every reachable mapper state keeps free and mapped
  addresses apart, and the program break stays inside a committed heap.

  \<^bold>\<open>Thread state and signals.\<close> \<^verbatim>\<open>ThreadState\<close> models \<^verbatim>\<open>common/state.hpp\<close> and \<^verbatim>\<open>state.cpp\<close>: the
  register file, flags, segment bases and TLS descriptors, which stay coherent.
  \<^verbatim>\<open>SignalQueue\<close> models \<^verbatim>\<open>common/signal_queue.hpp\<close> against a multiset of pending signals.

  \<^bold>\<open>Helpers.\<close> \<^verbatim>\<open>X87\<close> (80-bit conversion and the save formats), \<^verbatim>\<open>Division\<close> (the 128-bit
  divisions, against integer division) and \<^verbatim>\<open>VectorHelpers\<close> (bit strings, packed sums and the
  packed string comparison, against the architecture's definition) model
  \<^verbatim>\<open>common/utility.cpp\<close>.

  \<^bold>\<open>The recompiler.\<close> \<^verbatim>\<open>RiscV\<close> gives the semantics of the emitted host instructions; \<^verbatim>\<open>Emitter\<close>
  models the emission helpers of \<^verbatim>\<open>v2/recompiler.cpp\<close> as functions on an emitter record
  (code so far, scratch register index), with aborts as \<open>None\<close>; \<^verbatim>\<open>Handlers\<close> models the
  integer handlers for arithmetic, logic and shifts by a constant and \<^verbatim>\<open>MoveHandlers\<close> those for
  moves, extensions, exchange, effective addresses, the carry flag and conditional sets and moves; \<^verbatim>\<open>FlagScan\<close> models \<^verbatim>\<open>scanAhead\<close> and \<^verbatim>\<open>shouldEmitFlag\<close>. \<^verbatim>\<open>X86Alu\<close> holds the
  x86 flag definitions with their arithmetic facts, \<^verbatim>\<open>GuestSim\<close> the simulation relation between a
  host machine and a guest state in which only live flags are represented, \<^verbatim>\<open>EmitterSpec\<close>,
  \<^verbatim>\<open>HandlersSpec\<close>, \<^verbatim>\<open>ArithSpec\<close>, \<^verbatim>\<open>NoflagsSpec\<close> and \<^verbatim>\<open>UnarySpec\<close> the proofs that each helper and each
  handler emits code that simulates its instruction. \<^verbatim>\<open>MoveSpec\<close> does so for moves and extensions,
  \<^verbatim>\<open>CondSpec\<close> for the sixteen conditions, \<^verbatim>\<open>AddrSpec\<close> for effective addresses, \<^verbatim>\<open>XchgSpec\<close> for the exchange of
  registers and \<^verbatim>\<open>MemSpec\<close> for loads and stores. \<^verbatim>\<open>Block\<close> states that interface as the
  locale \<open>translator\<close>, composes it over a scanned block, and interprets it on the handlers;
  \<^verbatim>\<open>HandlerTheorems\<close> and \<^verbatim>\<open>MoveTheorems\<close> hold the theorems per instruction and \<^verbatim>\<open>HandlerCases\<close> the concrete cases in
  which a handler departs from the architecture.

  \<^bold>\<open>The code cache.\<close> \<^verbatim>\<open>BlockCache\<close> models how \<^verbatim>\<open>v2/recompiler.cpp\<close> places translated blocks, links
  them, invalidates them by page and finds them again (\<^verbatim>\<open>compile\<close>, \<^verbatim>\<open>jumpAndLink\<close>,
  \<^verbatim>\<open>expirePendingLinks\<close>, \<^verbatim>\<open>invalidateRange\<close>, \<^verbatim>\<open>invalidateAt\<close>, \<^verbatim>\<open>getCompiledBlock\<close>, the emitted dispatcher and
  invalidation thunk). Host code is a partial map from addresses to instructions; what a
  guest instruction is translated to is a parameter, the \<open>plan\<close> of a block as a function of guest
  memory. The field \<open>history\<close> of the recompiler record is a ghost: the translations emitted since
  the cache was cleared. \<^verbatim>\<open>BlockCacheCode\<close> holds the jump arithmetic and the layout of a translation,
  \<^verbatim>\<open>BlockCacheInv\<close> the invariant (every translation ever emitted is current or starts with a jump
  to the thunk; its links lead to a start of a translation of their target or to the dispatcher),
  \<^verbatim>\<open>BlockCacheOps\<close> and \<^verbatim>\<open>BlockCacheCompile\<close> its preservation, \<^verbatim>\<open>BlockCacheResume\<close> the way of control
  through links, thunk and dispatcher. \<^verbatim>\<open>GuestProcess\<close> composes threads, guest memory and page
  protection with \<^verbatim>\<open>handle_smc\<close> (\<^verbatim>\<open>hle/signals.cpp\<close>) and the \<^verbatim>\<open>mprotect\<close> and \<^verbatim>\<open>mmap\<close> calls
  (\<^verbatim>\<open>hle/syscall.cpp\<close>; \<^verbatim>\<open>mremap\<close> acts on translated code as \<^verbatim>\<open>mmap\<close> does); its locale
  \<open>thread_invariant\<close> says what an invariant of one recompiler must keep to hold in every thread,
  and is interpreted on the invariant of the cache and, in \<^verbatim>\<open>BlockSpans\<close>, on that of the
  instruction spans. \<^verbatim>\<open>BlockSpans\<close> shows that the signal handler finds the guest instruction of a
  host address, \<^verbatim>\<open>BlockCacheEdges\<close> what happens at the limits: far jumps, short blocks, blocks over
  two pages. The theorems assume that a block starts with two ordinary instructions and is
  longer than them (\<open>plan_ok\<close>, needed: see \<open>lone_jump_revives\<close> and \<open>self_jump_not_found\<close>), at most
  90000 bytes long, and depends only on the bytes it covers; a plan may be chosen freely at
  addresses that are never entered. Operations of different threads do not overlap in time,
  stores are single bytes, and physical pages are not mapped twice.

  \<^bold>\<open>Bounds and fuel.\<close> A run of host code has as much fuel as it needs: the simulation
  theorems state that the run ends after the emitted code. \<^verbatim>\<open>scanAhead\<close> takes fuel because the
  guest code may never end a block; its theorem gives the amount that suffices. Control between
  blocks takes at most five jumps (\<open>follow 5\<close>) and two visits of the dispatcher (\<open>resume 2\<close>), which
  the theorem on the code cache shows to be enough. Memory
  operands are modelled in the emitter and the handlers; the theorems on arithmetic and
  on whole blocks cover registers and immediates, those on \<^verbatim>\<open>LEA\<close> and \<^verbatim>\<open>MOV\<close> also memory operands without
  a segment override. A load or store must stay away from the two flag bytes of the thread state, and
  where its displacement is folded into the access the address must be 64 bits wide
  (\<open>folded_displacement_wraps\<close> shows why).

  \<^bold>\<open>Parameters.\<close> The decoder (Zydis, a library), the length of the instruction at an address,
  the kernel calls, the plan of a block and the sizes of the emitted dispatcher and thunk in the
  code cache, the code that loads a segment register, the locked form of \<^verbatim>\<open>XCHG\<close>,
  and the CPU extensions and configuration switches the code reads.

  \<^bold>\<open>Not modelled.\<close> Vector, x87, string and system instruction handlers; the system call
  layer, signal frames, thread creation through \<^verbatim>\<open>clone\<close>, file system paths, ELF and script
  loading, thunks and logging, which are calls into the host system; the vendored
  libraries.
\<close>

end
